(* ===== verification/Pipeline_Prelude.thy ===== *)
theory Pipeline_Prelude
  imports
    Complex_Main
    "HOL-Library.AList"
    "HOL-Library.Char_ord"
    "HOL-Library.List_Lexorder"
begin

text \<open>
  What every component of the pipeline shares: Python's values as HOL types, and the
  lemmas about them that the component proofs use.

  \<^item> Text is \<open>string\<close>; its order is Python's, by code point and then lexicographically.
  \<^item> A \<open>dict\<close> whose order can be seen is an association list: \<open>AList.update\<close> is
    item assignment (in place for a present key, at the end for a new one),
    \<open>AList.delete\<close> is \<open>del\<close>, \<open>map_of\<close> is \<open>get\<close>.
  \<^item> Clock readings and durations are exact rationals: the rounding of Python's floats
    is not modelled.
  \<^item> A JSON document is a value of \<open>json\<close>: \<open>json.dumps\<close> followed by \<open>json.loads\<close>
    is the identity on the documents the program writes (string keys, finite numbers), so
    the text between the two is not represented.
\<close>

section \<open>Collections of lemmas\<close>

named_theorems dict_simps \<open>lookups in updated association lists\<close>
named_theorems json_simps \<open>reading JSON documents the program wrote\<close>

type_synonym seconds = rat

section \<open>Decimal text\<close>

definition digit_char :: "nat \<Rightarrow> char" where
  "digit_char d = char_of (48 + d)"

definition digit_value :: "char \<Rightarrow> nat" where
  "digit_value c = of_char c - 48"

definition is_digit :: "char \<Rightarrow> bool" where
  "is_digit c \<longleftrightarrow> (48::nat) \<le> of_char c \<and> (of_char c::nat) \<le> 57"

fun show_nat :: "nat \<Rightarrow> string" where
  "show_nat n = (if n < 10 then [digit_char n] else show_nat (n div 10) @ [digit_char (n mod 10)])"

declare show_nat.simps [simp del]

definition show_int :: "int \<Rightarrow> string" where
  "show_int i = (if i < 0 then CHR ''-'' # show_nat (nat (- i)) else show_nat (nat i))"

definition digits_value :: "string \<Rightarrow> nat" where
  "digits_value s = foldl (\<lambda>acc c. acc * 10 + digit_value c) 0 s"

definition parse_digits :: "string \<Rightarrow> nat option" where
  "parse_digits s = (if s \<noteq> [] \<and> list_all is_digit s then Some (digits_value s) else None)"

text \<open>\<open>int(text)\<close>: surrounding blanks, a sign, and single underscores between digits.\<close>

definition is_blank :: "char \<Rightarrow> bool" where
  "is_blank c \<longleftrightarrow> c \<in> {CHR '' '', CHR 0x09, CHR 0x0A, CHR 0x0B, CHR 0x0C, CHR 0x0D,
     CHR 0x1C, CHR 0x1D, CHR 0x1E, CHR 0x1F, CHR 0x85, CHR 0xA0}"

definition strip :: "string \<Rightarrow> string" where
  "strip s = rev (dropWhile is_blank (rev (dropWhile is_blank s)))"

fun drop_underscores :: "string \<Rightarrow> string option" where
  "drop_underscores [] = Some []"
| "drop_underscores [c] = (if c = CHR ''_'' then None else Some [c])"
| "drop_underscores (c # d # s) =
     (if c = CHR ''_'' then None
      else if d = CHR ''_'' then
        (case s of [] \<Rightarrow> None | e # _ \<Rightarrow> if e = CHR ''_'' then None
           else map_option ((#) c) (drop_underscores s))
      else map_option ((#) c) (drop_underscores (d # s)))"

definition py_digits :: "string \<Rightarrow> nat option" where
  "py_digits s = Option.bind (drop_underscores s) parse_digits"

definition py_int :: "string \<Rightarrow> int option" where
  "py_int text = (case strip text of
       [] \<Rightarrow> None
     | c # s \<Rightarrow>
         if c = CHR ''-'' then map_option (\<lambda>n. - int n) (py_digits s)
         else if c = CHR ''+'' then map_option int (py_digits s)
         else map_option int (py_digits (c # s)))"

lemma of_char_digit_char: "d < 10 \<Longrightarrow> of_char (digit_char d) = 48 + d"
  by (simp add: digit_char_def of_char_of)

lemma is_digit_digit_char [simp]: "d < 10 \<Longrightarrow> is_digit (digit_char d)"
  by (simp add: is_digit_def of_char_digit_char)

lemma digit_value_digit_char [simp]: "d < 10 \<Longrightarrow> digit_value (digit_char d) = d"
  by (simp add: digit_value_def of_char_digit_char)

lemma digits_value_snoc [simp]: "digits_value (s @ [c]) = digits_value s * 10 + digit_value c"
  by (simp add: digits_value_def)

lemma show_nat_digits: "list_all is_digit (show_nat n)"
proof (induction n rule: show_nat.induct)
  case (1 n)
  then show ?case by (subst show_nat.simps) auto
qed

lemma show_nat_not_Nil [simp]: "show_nat n \<noteq> []"
  by (subst show_nat.simps) simp

lemma digits_value_show_nat [simp]: "digits_value (show_nat n) = n"
proof (induction n rule: show_nat.induct)
  case (1 n)
  show ?case
  proof (cases "n < 10")
    case True
    then show ?thesis by (subst show_nat.simps) (simp add: digits_value_def)
  next
    case False
    with 1 show ?thesis by (subst show_nat.simps) simp
  qed
qed

lemma parse_digits_show_nat [simp]: "parse_digits (show_nat n) = Some n"
  by (simp add: parse_digits_def show_nat_digits)

lemma show_nat_inject [simp]: "show_nat m = show_nat n \<longleftrightarrow> m = n"
  by (metis digits_value_show_nat)

lemma digit_not_special:
  assumes "is_digit c"
  shows "\<not> is_blank c" and "c \<noteq> CHR ''_''" and "c \<noteq> CHR ''-''" and "c \<noteq> CHR ''+''"
  using assms by (auto simp: is_digit_def is_blank_def)

lemma show_int_not_Nil [simp]: "show_int i \<noteq> []"
  by (simp add: show_int_def)

lemma show_int_inject [simp]: "show_int i = show_int j \<longleftrightarrow> i = j"
proof -
  have minus: "CHR ''-'' # s \<noteq> show_nat n" for s n
    using show_nat_digits [of n] digit_not_special(3) by (metis list.pred_inject(2))
  from minus minus [symmetric] show ?thesis
    by (auto simp: show_int_def eq_nat_nat_iff)
qed

lemma drop_underscores_digits: "list_all is_digit s \<Longrightarrow> drop_underscores s = Some s"
  by (induction s rule: drop_underscores.induct) (auto simp: digit_not_special)

lemma strip_digits: "list_all is_digit s \<Longrightarrow> strip s = s"
proof -
  assume s: "list_all is_digit s"
  have "dropWhile is_blank t = t" if "list_all is_digit t" for t
    using that by (cases t) (auto simp: digit_not_special)
  with s show ?thesis by (simp add: strip_def list_all_iff)
qed

lemma py_digits_show_nat [simp]: "py_digits (show_nat n) = Some n"
  by (simp add: py_digits_def drop_underscores_digits show_nat_digits)

lemma strip_minus_digits: "list_all is_digit s \<Longrightarrow> s \<noteq> [] \<Longrightarrow> strip (CHR ''-'' # s) = CHR ''-'' # s"
proof -
  assume s: "list_all is_digit s" and ne: "s \<noteq> []"
  obtain t c where t: "s = t @ [c]" using ne by (metis rev_exhaust)
  with s have "\<not> is_blank c" by (simp add: digit_not_special)
  moreover have "\<not> is_blank CHR ''-''" by (simp add: is_blank_def)
  ultimately show ?thesis by (simp add: strip_def t)
qed

text \<open>Reading back what \<open>str\<close> printed: the round trip every decimal znode and name relies on.\<close>

lemma py_int_show_int [simp]: "py_int (show_int i) = Some i"
proof (cases "i < 0")
  case True
  then show ?thesis
    by (simp add: py_int_def show_int_def strip_minus_digits show_nat_digits)
next
  case False
  obtain c s where cs: "show_nat (nat i) = c # s" by (cases "show_nat (nat i)") auto
  with show_nat_digits [of "nat i"] have "is_digit c" by simp
  with False cs py_digits_show_nat [of "nat i"] strip_digits [OF show_nat_digits [of "nat i"]]
  show ?thesis by (simp add: py_int_def show_int_def digit_not_special)
qed

text \<open>Python's \<open>$\<close> matches at the end and before one newline at the end.\<close>

definition before_end :: "string \<Rightarrow> string" where
  "before_end s = (if s \<noteq> [] \<and> last s = CHR 0x0A then butlast s else s)"

fun split_on :: "char \<Rightarrow> string \<Rightarrow> string list" where
  "split_on d [] = [[]]"
| "split_on d (c # s) =
     (if c = d then [] # split_on d s
      else case split_on d s of [] \<Rightarrow> [[c]] | t # ts \<Rightarrow> (c # t) # ts)"

fun show_items :: "int list \<Rightarrow> string" where
  "show_items [] = []"
| "show_items [i] = show_int i"
| "show_items (i # is) = show_int i @ '', '' @ show_items is"

fun join_lines :: "string list \<Rightarrow> string" where
  "join_lines [] = []"
| "join_lines [l] = l"
| "join_lines (l # ls) = l @ CHR 0x0A # join_lines ls"

text \<open>\<open>int(x)\<close> of a float truncates towards zero.\<close>

definition int_of_float :: "rat \<Rightarrow> int" where
  "int_of_float x = (if 0 \<le> x then floor x else ceiling x)"

text \<open>\<open>lower\<close> on the first 256 code points.\<close>

definition lower_char :: "char \<Rightarrow> char" where
  "lower_char c = (let n = of_char c :: nat in
     if 65 \<le> n \<and> n \<le> 90 \<or> 192 \<le> n \<and> n \<le> 222 \<and> n \<noteq> 215 then char_of (n + 32) else c)"

text \<open>Cutting a text at the first separator.\<close>

lemma cut_at:
  assumes "d \<notin> set n"
  shows "takeWhile (\<lambda>c. c \<noteq> d) (n @ d # v) = n" and "dropWhile (\<lambda>c. c \<noteq> d) (n @ d # v) = d # v"
  using assms by (induction n) auto

section \<open>Association lists as dictionaries\<close>

definition keys :: "('k \<times> 'v) list \<Rightarrow> 'k set" where
  "keys d = fst ` set d"

text \<open>Equality of dictionaries: the same items, in any order.\<close>

definition dict_eq :: "('k \<times> 'v) list \<Rightarrow> ('k \<times> 'v) list \<Rightarrow> bool" where
  "dict_eq d e \<longleftrightarrow>
     list_all (\<lambda>(k, v). map_of e k = Some v) d \<and> list_all (\<lambda>(k, v). map_of d k = Some v) e"

abbreviation distinct_keys :: "('k \<times> 'v) list \<Rightarrow> bool" where
  "distinct_keys d \<equiv> distinct (map fst d)"

lemma keys_map_of: "k \<in> keys d \<longleftrightarrow> (\<exists>v. map_of d k = Some v)"
  by (metis keys_def domD domI dom_map_of_conv_image_fst)

lemma list_all_keys: "list_all (\<lambda>(k, v). P k) d \<longleftrightarrow> (\<forall>k \<in> keys d. P k)"
  by (auto simp: list_all_iff keys_def)

lemma keys_update [dict_simps]: "keys (AList.update k v d) = insert k (keys d)"
  by (simp add: keys_def dom_map_of_conv_image_fst [symmetric] update_conv')

lemma keys_delete [dict_simps]: "keys (AList.delete k d) = keys d - {k}"
  by (simp add: keys_def dom_map_of_conv_image_fst [symmetric] delete_conv')

declare update_conv' [dict_simps] delete_conv' [dict_simps]

lemma dict_eq_lookup:
  assumes "dict_eq d e"
  shows "map_of d k = map_of e k"
proof -
  have de: "map_of d k = Some v \<Longrightarrow> map_of e k = Some v" for v
    using assms by (force simp: dict_eq_def list_all_iff dest: map_of_SomeD)
  have ed: "map_of e k = Some v \<Longrightarrow> map_of d k = Some v" for v
    using assms by (force simp: dict_eq_def list_all_iff dest: map_of_SomeD)
  from de ed show ?thesis by (cases "map_of d k"; cases "map_of e k") auto
qed

lemma dict_eq_map_of:
  assumes "distinct_keys d" and "distinct_keys e"
  shows "dict_eq d e \<longleftrightarrow> map_of d = map_of e"
  using assms dict_eq_lookup [of d e]
  by (auto simp: dict_eq_def list_all_iff) (metis map_of_is_SomeI map_of_SomeD)+

lemma dict_eq_refl: "distinct_keys d \<Longrightarrow> dict_eq d d"
  by (simp add: dict_eq_map_of)

section \<open>Floats\<close>

datatype fl = Fin rat | PosInf | NegInf | NaN

text \<open>\<open>float(text)\<close>: digits with single underscores between them, a point, an exponent.\<close>

definition mantissa :: "string \<Rightarrow> rat option" where
  "mantissa s =
     (let i = takeWhile (\<lambda>c. c \<noteq> CHR ''.'') s; r = dropWhile (\<lambda>c. c \<noteq> CHR ''.'') s; f = tl r in
      if r = [] then map_option of_nat (py_digits i)
      else if i = [] \<and> f = [] then None
      else Option.bind (if i = [] then Some 0 else py_digits i) (\<lambda>whole.
           Option.bind (if f = [] then Some 0 else py_digits f) (\<lambda>part.
             Some (of_nat whole + of_nat part / 10 ^ length (filter is_digit f)))))"

definition exponent :: "string \<Rightarrow> int option" where
  "exponent s =
     (case s of
        c # t \<Rightarrow>
          if c = CHR ''-'' then map_option (\<lambda>n. - int n) (py_digits t)
          else if c = CHR ''+'' then map_option int (py_digits t)
          else map_option int (py_digits s)
      | [] \<Rightarrow> None)"

definition scale :: "rat \<Rightarrow> int \<Rightarrow> rat" where
  "scale x e = (if 0 \<le> e then x * 10 ^ nat e else x / 10 ^ nat (- e))"

definition unsigned_float :: "string \<Rightarrow> fl option" where
  "unsigned_float s =
     (let low = map lower_char s; m = takeWhile (\<lambda>c. c \<noteq> CHR ''e'') low; r = dropWhile (\<lambda>c. c \<noteq> CHR ''e'') low in
      if low = ''inf'' \<or> low = ''infinity'' then Some PosInf
      else if low = ''nan'' then Some NaN
      else if r = [] then map_option Fin (mantissa low)
      else Option.bind (mantissa m) (\<lambda>x. map_option (\<lambda>e. Fin (scale x e)) (exponent (tl r))))"

fun negate :: "fl \<Rightarrow> fl" where
  "negate (Fin x) = Fin (- x)"
| "negate PosInf = NegInf"
| "negate NegInf = PosInf"
| "negate NaN = NaN"

definition py_float :: "string \<Rightarrow> fl option" where
  "py_float text =
     (case strip text of
        [] \<Rightarrow> None
      | c # s \<Rightarrow>
          if c = CHR ''-'' then map_option negate (unsigned_float s)
          else if c = CHR ''+'' then unsigned_float s
          else unsigned_float (c # s))"

fun fl_add :: "fl \<Rightarrow> fl \<Rightarrow> fl" where
  "fl_add (Fin x) (Fin y) = Fin (x + y)"
| "fl_add (Fin x) y = y"
| "fl_add x (Fin y) = x"
| "fl_add x y = (if x = y then x else NaN)"

section \<open>JSON documents\<close>

datatype json =
    JNull
  | JBool bool
  | JInt int
  | JFloat fl
  | JStr string
  | JArr "json list"
  | JObj "(string \<times> json) list"

text \<open>\<open>value.get(key)\<close> on an object, \<open>None\<close> for an absent key.\<close>

fun jget :: "json \<Rightarrow> string \<Rightarrow> json option" where
  "jget (JObj fields) k = map_of fields k"
| "jget _ k = None"

fun is_object :: "json \<Rightarrow> bool" where
  "is_object (JObj _) = True"
| "is_object _ = False"

lemma map_filter_append: "List.map_filter f (xs @ ys) = List.map_filter f xs @ List.map_filter f ys"
  by (simp add: List.map_filter_def)

lemma map_filter_all: "\<forall>x \<in> set xs. f x \<noteq> None \<Longrightarrow> List.map_filter f xs = map (the \<circ> f) xs"
  by (simp add: List.map_filter_def)

lemma those_Some [simp]: "those xs = Some ys \<longleftrightarrow> xs = map Some ys"
  by (induction xs arbitrary: ys) (auto split: option.splits)

lemma those_map_Some [simp]: "those (map Some ys) = Some ys"
  by simp

text \<open>An element with fewer than \<open>n\<close> before it is among the first \<open>n\<close>.\<close>

lemma take_sorted_member:
  assumes "finite A" and "x \<in> A" and "card {y \<in> A. y < x} < n"
  shows "x \<in> set (take n (sorted_list_of_set A))"
proof -
  define xs where "xs = sorted_list_of_set A"
  have xs: "sorted_wrt (<) xs" "set xs = A" using assms(1) by (simp_all add: xs_def)
  then obtain k where k: "k < length xs" "xs ! k = x" using assms(2) by (metis in_set_conv_nth)
  have "set (take k xs) \<subseteq> {y \<in> A. y < x}"
    using xs k set_take_subset [of k xs] by (auto simp: sorted_wrt_iff_nth_less in_set_conv_nth [of _ "take k xs"])
  then have "card (set (take k xs)) \<le> card {y \<in> A. y < x}" using assms(1) by (intro card_mono) auto
  moreover have "distinct xs" using xs(1) by (simp add: strict_sorted_iff)
  then have "card (set (take k xs)) = k" using k(1) by (simp add: distinct_card)
  ultimately have "k < n" using assms(3) by simp
  then show ?thesis using k by (auto simp: in_set_conv_nth xs_def [symmetric] intro!: exI [of _ k])
qed

section \<open>Sums as results\<close>

lemma Inr_if: "(if b then Inl e else Inr x) = Inr y \<longleftrightarrow> \<not> b \<and> x = y"
  by simp

lemma case_sum_Inr_iff:
  "(case r of Inl e \<Rightarrow> Inl (f e) | Inr x \<Rightarrow> g x) = Inr y \<longleftrightarrow> (\<exists>x. r = Inr x \<and> g x = Inr y)"
  by (cases r) auto

end
