(* ===== verification/Zookeeper.thy ===== *)
theory Zookeeper
  imports Pipeline_Prelude
begin

text \<open>
  The ZooKeeper service as the pipeline uses it through kazoo. Neither is part of the
  repository, so the client is a parameter: a record of the calls the code makes, over an
  unknown state \<open>'w\<close> of the service. The locale \<open>zookeeper\<close> states the documented
  behaviour those calls have while the session is connected: versions count the writes of
  a node, a versioned write is refused at another version, a create is refused where a node
  exists, and a transaction applies all of its operations or none. Versions are unbounded, where
  ZooKeeper counts in 32 bits, and a delete does not look for children: the pipeline deletes
  markers and registrations, which are ephemeral and have none.

  \<open>tree_client\<close> is a reference tree that satisfies the laws; the theorems that assume them
  are applied to it.
\<close>

section \<open>Calls and answers\<close>

datatype zk_error =
    NoNodeError | NodeExistsError | BadVersionError | RolledBackError
  | ConnectionLoss | SessionExpiredError | ConnectionClosedError | KazooTimeoutError
  | OtherZkError string

text \<open>A znode's bytes: none, or the text of a JSON document (a decimal is one too).\<close>

datatype zdata = NoData | Doc json

datatype zop = CheckOp string int | SetDataOp string zdata "int option"

datatype zresult = Checked | Stat int | Failed zk_error

record 'w kazoo =
  zget :: "'w \<Rightarrow> string \<Rightarrow> zk_error + zdata \<times> int"
  zexists :: "'w \<Rightarrow> string \<Rightarrow> zk_error + bool"
  zchildren :: "'w \<Rightarrow> string \<Rightarrow> zk_error + string list"
  zset :: "'w \<Rightarrow> string \<Rightarrow> zdata \<Rightarrow> int option \<Rightarrow> (zk_error + int) \<times> 'w"
  zcreate :: "'w \<Rightarrow> string \<Rightarrow> zdata \<Rightarrow> bool \<Rightarrow> bool \<Rightarrow> (zk_error + string) \<times> 'w"
  zensure :: "'w \<Rightarrow> string \<Rightarrow> (zk_error + unit) \<times> 'w"
  zdelete :: "'w \<Rightarrow> string \<Rightarrow> int option \<Rightarrow> (zk_error + unit) \<times> 'w"
  zcommit :: "'w \<Rightarrow> zop list \<Rightarrow> (zk_error + zresult list) \<times> 'w"

section \<open>The tree the laws speak about\<close>

text \<open>A node's data, its version, and whether it is ephemeral.\<close>

record znode =
  zdata :: zdata
  zversion :: int
  zephemeral :: bool

type_synonym ztree = "string \<Rightarrow> znode option"

text \<open>The parent of a path; the empty text is the root of the tree, which always exists.\<close>

definition parent_path :: "string \<Rightarrow> string" where
  "parent_path p = rev (tl (dropWhile (\<lambda>c. c \<noteq> CHR ''/'') (rev p)))"

definition has_parent :: "ztree \<Rightarrow> string \<Rightarrow> bool" where
  "has_parent t p \<longleftrightarrow> parent_path p = [] \<or> t (parent_path p) \<noteq> None"

text \<open>One operation of a transaction: its result and the tree after it, or its error.\<close>

fun run_op :: "ztree \<Rightarrow> zop \<Rightarrow> zk_error + zresult \<times> ztree" where
  "run_op t (CheckOp p v) =
     (case t p of
        None \<Rightarrow> Inl NoNodeError
      | Some n \<Rightarrow> if zversion n = v then Inr (Checked, t) else Inl BadVersionError)"
| "run_op t (SetDataOp p d ver) =
     (case t p of
        None \<Rightarrow> Inl NoNodeError
      | Some n \<Rightarrow>
          if ver = None \<or> ver = Some (zversion n)
          then Inr (Stat (zversion n + 1), t(p \<mapsto> n\<lparr>zdata := d, zversion := zversion n + 1\<rparr>))
          else Inl BadVersionError)"

text \<open>All of them in order, or the place and the error of the first that fails.\<close>

fun run_ops :: "ztree \<Rightarrow> zop list \<Rightarrow> nat \<Rightarrow> (nat \<times> zk_error) + zresult list \<times> ztree" where
  "run_ops t [] k = Inr ([], t)"
| "run_ops t (x # ops) k =
     (case run_op t x of
        Inl e \<Rightarrow> Inl (k, e)
      | Inr (r, t1) \<Rightarrow>
          (case run_ops t1 ops (Suc k) of
             Inl f \<Rightarrow> Inl f
           | Inr (rs, t2) \<Rightarrow> Inr (r # rs, t2)))"

definition failed_results :: "nat \<Rightarrow> nat \<Rightarrow> zk_error \<Rightarrow> zresult list" where
  "failed_results n k e = map (\<lambda>i. Failed (if i = k then e else RolledBackError)) [0..<n]"

section \<open>The contract\<close>

locale zookeeper =
  fixes zk :: "'w kazoo"
    and tree :: "'w \<Rightarrow> ztree"
    and live :: "'w \<Rightarrow> bool"
  assumes get_law: "live w \<Longrightarrow> zget zk w p =
      (case tree w p of None \<Rightarrow> Inl NoNodeError | Some n \<Rightarrow> Inr (zdata n, zversion n))"
    and exists_law: "live w \<Longrightarrow> zexists zk w p = Inr (tree w p \<noteq> None)"
    and set_law: "live w \<Longrightarrow> zset zk w p d ver = (rs, w') \<Longrightarrow>
      live w' \<and>
      (case run_op (tree w) (SetDataOp p d ver) of
         Inl e \<Rightarrow> rs = Inl e \<and> tree w' = tree w
       | Inr (res, t) \<Rightarrow> (\<exists>v. res = Stat v \<and> rs = Inr v) \<and> tree w' = t)"
    and create_law: "live w \<Longrightarrow> zcreate zk w p d eph False = (rc, w') \<Longrightarrow>
      live w' \<and>
      (if tree w p \<noteq> None then rc = Inl NodeExistsError \<and> tree w' = tree w
       else if has_parent (tree w) p
         then rc = Inr p \<and> tree w' = (tree w)(p \<mapsto> \<lparr>zdata = d, zversion = 0, zephemeral = eph\<rparr>)
       else rc = Inl NoNodeError \<and> tree w' = tree w)"
    and sequence_law: "live w \<Longrightarrow> zcreate zk w p d eph True = (Inr q, w') \<Longrightarrow>
      live w' \<and> (\<exists>s. q = p @ s) \<and> tree w q = None
      \<and> tree w' = (tree w)(q \<mapsto> \<lparr>zdata = d, zversion = 0, zephemeral = eph\<rparr>)"
    and ensure_law: "live w \<Longrightarrow> zensure zk w p = (re, w') \<Longrightarrow>
      live w' \<and> re = Inr () \<and> tree w' p \<noteq> None
      \<and> (\<forall>q. tree w q \<noteq> None \<longrightarrow> tree w' q = tree w q)"
    and delete_law: "live w \<Longrightarrow> zdelete zk w p ver = (rd, w') \<Longrightarrow>
      live w' \<and>
      (case tree w p of
         None \<Rightarrow> rd = Inl NoNodeError \<and> tree w' = tree w
       | Some n \<Rightarrow>
           if ver = None \<or> ver = Some (zversion n) then rd = Inr () \<and> tree w' = (tree w)(p := None)
           else rd = Inl BadVersionError \<and> tree w' = tree w)"
    and commit_law: "live w \<Longrightarrow> zcommit zk w ops = (rm, w') \<Longrightarrow>
      live w' \<and>
      (case run_ops (tree w) ops 0 of
         Inl (k, e) \<Rightarrow> rm = Inr (failed_results (length ops) k e) \<and> tree w' = tree w
       | Inr (results, t) \<Rightarrow> rm = Inr results \<and> tree w' = t)"
begin

lemma set_versioned:
  assumes "live w" and "tree w p = Some n" and "zset zk w p d (Some v) = (r, w')"
  shows "live w'"
    and "v = zversion n \<Longrightarrow> r = Inr (v + 1) \<and> tree w' = (tree w)(p \<mapsto> n\<lparr>zdata := d, zversion := v + 1\<rparr>)"
    and "v \<noteq> zversion n \<Longrightarrow> r = Inl BadVersionError \<and> tree w' = tree w"
  using set_law [OF assms(1,3)] assms(2) by auto

end

text \<open>
  A transaction that was answered with results was decided by the service, whatever becomes of
  the session: all of it was applied, or nothing and the results say which operation failed.
\<close>

locale zookeeper_answers = zookeeper +
  assumes answered_commit_law: "zcommit zk w ops = (Inr results, w') \<Longrightarrow>
      (case run_ops (tree w) ops 0 of
         Inl (k, e) \<Rightarrow> results = failed_results (length ops) k e \<and> tree w' = tree w
       | Inr (rs, t) \<Rightarrow> results = rs \<and> tree w' = t)"

section \<open>A reference tree\<close>

record tree_world =
  wnodes :: ztree
  wconnected :: bool
  wcounter :: nat

text \<open>Children are not listed by a partial map; the reference tree answers with none.\<close>

definition tree_set :: "tree_world \<Rightarrow> string \<Rightarrow> zdata \<Rightarrow> int option \<Rightarrow> (zk_error + int) \<times> tree_world" where
  "tree_set w p d ver =
     (if \<not> wconnected w then (Inl ConnectionLoss, w) else
      case run_op (wnodes w) (SetDataOp p d ver) of
        Inr (Stat v, t) \<Rightarrow> (Inr v, w\<lparr>wnodes := t\<rparr>)
      | Inr (_, t) \<Rightarrow> (Inl ConnectionLoss, w)
      | Inl e \<Rightarrow> (Inl e, w))"

definition tree_create ::
    "tree_world \<Rightarrow> string \<Rightarrow> zdata \<Rightarrow> bool \<Rightarrow> bool \<Rightarrow> (zk_error + string) \<times> tree_world" where
  "tree_create w p d eph sequence =
     (let q = (if sequence then p @ show_nat (wcounter w) else p);
          n = \<lparr>zdata = d, zversion = 0, zephemeral = eph\<rparr> in
      if \<not> wconnected w then (Inl ConnectionLoss, w)
      else if wnodes w q \<noteq> None then (Inl NodeExistsError, w)
      else if has_parent (wnodes w) q
        then (Inr q, w\<lparr>wnodes := (wnodes w)(q \<mapsto> n), wcounter := Suc (wcounter w)\<rparr>)
      else (Inl NoNodeError, w))"

definition tree_ensure :: "tree_world \<Rightarrow> string \<Rightarrow> (zk_error + unit) \<times> tree_world" where
  "tree_ensure w p =
     (if \<not> wconnected w then (Inl ConnectionLoss, w)
      else (Inr (), w\<lparr>wnodes := (\<lambda>q. case wnodes w q of Some n \<Rightarrow> Some n
              | None \<Rightarrow> if q = p \<or> take (Suc (length q)) p = q @ ''/''
                        then Some \<lparr>zdata = NoData, zversion = 0, zephemeral = False\<rparr> else None)\<rparr>))"

definition tree_delete :: "tree_world \<Rightarrow> string \<Rightarrow> int option \<Rightarrow> (zk_error + unit) \<times> tree_world" where
  "tree_delete w p ver =
     (if \<not> wconnected w then (Inl ConnectionLoss, w) else
      case wnodes w p of
        None \<Rightarrow> (Inl NoNodeError, w)
      | Some n \<Rightarrow>
          if ver = None \<or> ver = Some (zversion n) then (Inr (), w\<lparr>wnodes := (wnodes w)(p := None)\<rparr>)
          else (Inl BadVersionError, w))"

definition tree_commit :: "tree_world \<Rightarrow> zop list \<Rightarrow> (zk_error + zresult list) \<times> tree_world" where
  "tree_commit w ops =
     (if \<not> wconnected w then (Inl ConnectionLoss, w) else
      case run_ops (wnodes w) ops 0 of
        Inl (k, e) \<Rightarrow> (Inr (failed_results (length ops) k e), w)
      | Inr (rs, t) \<Rightarrow> (Inr rs, w\<lparr>wnodes := t\<rparr>))"

definition tree_client :: "tree_world kazoo" where
  "tree_client =
     \<lparr>zget = (\<lambda>w p. if \<not> wconnected w then Inl ConnectionLoss else
        (case wnodes w p of None \<Rightarrow> Inl NoNodeError | Some n \<Rightarrow> Inr (zdata n, zversion n))),
      zexists = (\<lambda>w p. if \<not> wconnected w then Inl ConnectionLoss else Inr (wnodes w p \<noteq> None)),
      zchildren = (\<lambda>w p. if \<not> wconnected w then Inl ConnectionLoss else Inr []),
      zset = tree_set, zcreate = tree_create, zensure = tree_ensure, zdelete = tree_delete,
      zcommit = tree_commit\<rparr>"

interpretation ref_tree: zookeeper tree_client wnodes wconnected
  by unfold_locales
    (auto simp: tree_client_def tree_set_def tree_create_def tree_ensure_def tree_delete_def
      tree_commit_def Let_def split: if_splits option.splits sum.splits prod.splits zresult.splits)

interpretation ref_answers: zookeeper_answers tree_client wnodes wconnected
  by unfold_locales
    (auto simp: tree_client_def tree_commit_def split: if_splits sum.splits prod.splits)

end
