(* ===== verification/Keeper_Decision.thy ===== *)
theory Keeper_Decision
  imports Pipeline_Prelude
begin

text \<open>
  The job keeper's decision (\<open>job_keeper.py\<close>, from \<open>job_name\<close> to \<open>job_settings\<close>):
  the record of generations and attempts, the keeper's memory, the backoff arithmetic, and
  \<open>decide\<close>, the pure function from the record, the listing, the lookups and the memory to
  the plan of one cycle. The loop and the calls around it are in \<open>Keeper\<close>.

  A note is represented by the values it interpolates rather than by its text.
\<close>

section \<open>Names\<close>

definition job_name :: "string \<Rightarrow> int \<Rightarrow> string" where
  "job_name base generation = base @ ''-g'' @ show_int generation"

text \<open>\<open>re.fullmatch(re.escape(base) + "-g(" + digits + ")", name)\<close>.\<close>

definition generation_of :: "string \<Rightarrow> string \<Rightarrow> int option" where
  "generation_of base name =
     (let stem = base @ ''-g'' in
      if take (length stem) name = stem
      then map_option int (parse_digits (drop (length stem) name)) else None)"

section \<open>Constants\<close>

definition SUBMIT_TIMEOUT_SECONDS :: seconds where "SUBMIT_TIMEOUT_SECONDS = 120"

definition UNCERTAINTY_SECONDS :: seconds where
  "UNCERTAINTY_SECONDS = SUBMIT_TIMEOUT_SECONDS + 20"

definition BACKOFF_INITIAL_SECONDS :: seconds where "BACKOFF_INITIAL_SECONDS = 10"
definition BACKOFF_MAX_SECONDS :: seconds where "BACKOFF_MAX_SECONDS = 300"
definition HEALTHY_AFTER_SECONDS :: seconds where "HEALTHY_AFTER_SECONDS = 60"
definition UNAVAILABLE_MAX_SECONDS :: seconds where "UNAVAILABLE_MAX_SECONDS = 60"
definition MAX_DOUBLINGS :: int where "MAX_DOUBLINGS = 32"

definition NOT_FOUND :: string where "NOT_FOUND = ''NOT_FOUND''"

definition TERMINAL :: "string list" where
  "TERMINAL = [''CANCELED'', ''FAILED'', ''FINISHED'']"

lemmas keeper_constants =
  SUBMIT_TIMEOUT_SECONDS_def UNCERTAINTY_SECONDS_def BACKOFF_INITIAL_SECONDS_def
  BACKOFF_MAX_SECONDS_def HEALTHY_AFTER_SECONDS_def UNAVAILABLE_MAX_SECONDS_def
  MAX_DOUBLINGS_def

section \<open>Data\<close>

record attempt =
  job_id :: "string option"
  submitted_at :: "string option"

record keeper_record =
  generation :: int
  epoch :: "int option"
  failures :: int
  attempts :: "(int \<times> attempt) list"

record listed =
  listed_id :: string
  listed_generation :: int
  listed_state :: string

text \<open>The tuples that key \<open>Memory.first_seen\<close>; \<open>key[1]\<close> is \<open>key_generation\<close>.\<close>

datatype seen_key = Running int string | Unresolved int | Stopped int

fun key_generation :: "seen_key \<Rightarrow> int" where
  "key_generation (Running g _) = g"
| "key_generation (Unresolved g) = g"
| "key_generation (Stopped g) = g"

record memory =
  first_seen :: "seen_key \<Rightarrow> seconds option"
  never_submitted :: "int set"

definition fresh_memory :: memory where
  "fresh_memory = \<lparr>first_seen = Map.empty, never_submitted = {}\<rparr>"

text \<open>\<open>Memory.waited\<close>: \<open>setdefault\<close> on the first sight, then the time since.\<close>

definition waited :: "memory \<Rightarrow> seen_key \<Rightarrow> seconds \<Rightarrow> seconds \<times> memory" where
  "waited m key now =
     (case first_seen m key of
        Some seen \<Rightarrow> (now - seen, m)
      | None \<Rightarrow> (now - now, m\<lparr>first_seen := (first_seen m)(key \<mapsto> now)\<rparr>))"

definition keep_generation :: "memory \<Rightarrow> int \<Rightarrow> memory" where
  "keep_generation m g =
     m\<lparr>first_seen := (\<lambda>key. if key_generation key = g then first_seen m key else None),
       never_submitted := {n \<in> never_submitted m. n \<ge> g}\<rparr>"

definition forget_seen :: "memory \<Rightarrow> seen_key \<Rightarrow> memory" where
  "forget_seen m key = m\<lparr>first_seen := (first_seen m)(key := None)\<rparr>"

datatype keeper_note =
    NoJobListing
  | NewerListed "int list"
  | JobsNamed nat int
  | UnexplainedJobs int "string list"
  | CycleFailed string

record observation_detail =
  obs_job_id :: "string option"
  obs_state :: "string option"
  obs_cancelling :: "string list"
  obs_unresolved :: "int list"
  obs_notes :: "keeper_note list"

record observation =
  obs_generation :: "int option"
  obs_status :: string
  obs_at :: "string option"
  obs_note :: "keeper_note option"
  obs_detail :: "observation_detail option"

record plan =
  cancel :: "string list"
  new_record :: "keeper_record option"
  submit :: "int option"
  plan_observation :: observation

section \<open>Backoff\<close>

definition doubled :: "seconds \<Rightarrow> int \<Rightarrow> seconds \<Rightarrow> seconds" where
  "doubled base n cap = min cap (base * 2 powi min n MAX_DOUBLINGS)"

definition backoff :: "int \<Rightarrow> seconds" where
  "backoff fails =
     (if fails \<le> 0 then 0
      else doubled BACKOFF_INITIAL_SECONDS (fails - 1) BACKOFF_MAX_SECONDS)"

definition quiet_wait :: "seconds \<Rightarrow> int \<Rightarrow> seconds" where
  "quiet_wait interval quiet = doubled interval quiet UNAVAILABLE_MAX_SECONDS"

section \<open>The record as JSON\<close>

definition attempt_json :: "attempt \<Rightarrow> json" where
  "attempt_json a = JObj
     [(''job_id'', case job_id a of None \<Rightarrow> JNull | Some i \<Rightarrow> JStr i),
      (''submitted_at'', case submitted_at a of None \<Rightarrow> JNull | Some t \<Rightarrow> JStr t)]"

definition to_json :: "keeper_record \<Rightarrow> json" where
  "to_json r = JObj
     [(''generation'', JInt (generation r)),
      (''epoch'', case epoch r of None \<Rightarrow> JNull | Some e \<Rightarrow> JInt e),
      (''failures'', JInt (failures r)),
      (''attempts'', JObj (map (\<lambda>(g, a). (show_int g, attempt_json a)) (sort_key fst (attempts r))))]"

text \<open>
  \<open>Record.parse\<close>. Its failures (an exception of \<open>int\<close> or of \<open>get\<close>) are
  \<open>None\<close>; so is a field outside the types the class declares for it
  (\<open>str | None\<close>, \<open>int | None\<close>), which the code would carry along unread.
\<close>

fun int_of_json :: "json \<Rightarrow> int option" where
  "int_of_json (JInt n) = Some n"
| "int_of_json (JBool b) = Some (if b then 1 else 0)"
| "int_of_json (JFloat (Fin q)) = Some (if q < 0 then - \<lfloor>- q\<rfloor> else \<lfloor>q\<rfloor>)"
| "int_of_json (JStr s) = py_int s"
| "int_of_json _ = None"

fun optional_text :: "json option \<Rightarrow> string option option" where
  "optional_text None = Some None"
| "optional_text (Some JNull) = Some None"
| "optional_text (Some (JStr s)) = Some (Some s)"
| "optional_text (Some _) = None"

fun optional_int :: "json option \<Rightarrow> int option option" where
  "optional_int None = Some None"
| "optional_int (Some JNull) = Some None"
| "optional_int (Some (JInt n)) = Some (Some n)"
| "optional_int (Some _) = None"

definition parse_attempt :: "json \<Rightarrow> attempt option" where
  "parse_attempt entry =
     (if is_object entry then
        (case optional_text (jget entry ''job_id'') of
           None \<Rightarrow> None
         | Some i \<Rightarrow>
             (case optional_text (jget entry ''submitted_at'') of
                None \<Rightarrow> None
              | Some t \<Rightarrow> Some \<lparr>job_id = i, submitted_at = t\<rparr>))
      else None)"

fun parse_attempts :: "(string \<times> json) list \<Rightarrow> (int \<times> attempt) list \<Rightarrow> (int \<times> attempt) list option" where
  "parse_attempts [] acc = Some acc"
| "parse_attempts ((k, entry) # rest) acc =
     (case py_int k of
        None \<Rightarrow> None
      | Some g \<Rightarrow>
          (case parse_attempt entry of
             None \<Rightarrow> None
           | Some a \<Rightarrow> parse_attempts rest (AList.update g a acc)))"

text \<open>\<open>(raw.get("attempts") or {}).items()\<close>\<close>

fun attempts_items :: "json option \<Rightarrow> (string \<times> json) list option" where
  "attempts_items None = Some []"
| "attempts_items (Some JNull) = Some []"
| "attempts_items (Some (JObj items)) = Some items"
| "attempts_items (Some (JArr [])) = Some []"
| "attempts_items (Some (JStr [])) = Some []"
| "attempts_items (Some (JBool False)) = Some []"
| "attempts_items (Some (JInt n)) = (if n = 0 then Some [] else None)"
| "attempts_items (Some (JFloat x)) = (if x = Fin 0 then Some [] else None)"
| "attempts_items (Some _) = None"

definition int_field :: "json \<Rightarrow> string \<Rightarrow> int option" where
  "int_field raw k = (case jget raw k of None \<Rightarrow> Some 0 | Some v \<Rightarrow> int_of_json v)"

definition parse_record :: "json \<Rightarrow> keeper_record option" where
  "parse_record raw =
     (if \<not> is_object raw then None else
      Option.bind (int_field raw ''generation'') (\<lambda>g.
      Option.bind (optional_int (jget raw ''epoch'')) (\<lambda>e.
      Option.bind (int_field raw ''failures'') (\<lambda>f.
      Option.bind (attempts_items (jget raw ''attempts'')) (\<lambda>items.
      Option.bind (parse_attempts items []) (\<lambda>ats.
        Some \<lparr>generation = g, epoch = e, failures = f, attempts = ats\<rparr>))))))"

section \<open>The decision\<close>

text \<open>\<open>if a.job_id\<close>: neither \<open>None\<close> nor the empty string.\<close>

definition truthy :: "string option \<Rightarrow> bool" where
  "truthy i \<longleftrightarrow> i \<noteq> None \<and> i \<noteq> Some []"

definition lookups_needed :: "keeper_record \<Rightarrow> listed list \<Rightarrow> string set" where
  "lookups_needed r jobs =
     set (map the (filter truthy (map (\<lambda>(g, a). job_id a) (attempts r))))
     \<union> set (map listed_id (filter (\<lambda>j. listed_generation j \<le> generation r) jobs))"

definition gone :: "string option \<Rightarrow> bool" where
  "gone state \<longleftrightarrow> (\<exists>s. state = Some s \<and> (s = NOT_FOUND \<or> s \<in> set TERMINAL))"

lemma gone_code [code, simp]:
  "gone None = False"
  "gone (Some s) = (s = NOT_FOUND \<or> s \<in> set TERMINAL)"
  by (simp_all add: gone_def)

text \<open>Attempts without an id gain one when exactly one job carries the name.\<close>

fun adopt_ids :: "listed list \<Rightarrow> (int \<times> attempt) list
    \<Rightarrow> (int \<times> attempt) list \<times> keeper_note list \<Rightarrow> (int \<times> attempt) list \<times> keeper_note list" where
  "adopt_ids jobs [] st = st"
| "adopt_ids jobs ((g, a) # rest) (ats, notes) =
     (let named = filter (\<lambda>j. listed_generation j = g) jobs in
      adopt_ids jobs rest
        (if job_id a \<noteq> None then (ats, notes)
         else if length named = 1
           then (AList.update g (a\<lparr>job_id := Some (listed_id (hd named))\<rparr>) ats, notes)
         else if length named > 1 then (ats, notes @ [JobsNamed (length named) g])
         else (ats, notes)))"

text \<open>The dictionary of superseded jobs: recorded ones first, then listed ones.\<close>

fun superseded_recorded :: "int \<Rightarrow> (int \<times> attempt) list \<Rightarrow> (string \<times> int) list \<Rightarrow> (string \<times> int) list" where
  "superseded_recorded current [] acc = acc"
| "superseded_recorded current ((g, a) # rest) acc =
     superseded_recorded current rest
       (case job_id a of
          None \<Rightarrow> acc
        | Some i \<Rightarrow> if g < current \<and> i \<noteq> [] then AList.update i g acc else acc)"

fun superseded_listed :: "int \<Rightarrow> listed list \<Rightarrow> (string \<times> int) list \<Rightarrow> (string \<times> int) list" where
  "superseded_listed current [] acc = acc"
| "superseded_listed current (j # jobs) acc =
     superseded_listed current jobs
       (if listed_generation j < current \<and> map_of acc (listed_id j) = None
        then AList.update (listed_id j) (listed_generation j) acc else acc)"

definition superseded :: "int \<Rightarrow> (int \<times> attempt) list \<Rightarrow> listed list \<Rightarrow> (string \<times> int) list" where
  "superseded current ats jobs =
     superseded_listed current jobs (superseded_recorded current ats [])"

definition settle_one :: "(string \<rightharpoonup> string) \<Rightarrow> string \<Rightarrow> int
    \<Rightarrow> (int \<times> attempt) list \<times> string list \<Rightarrow> (int \<times> attempt) list \<times> string list" where
  "settle_one states i g st = (case st of (ats, cancels) \<Rightarrow>
     (case states i of
        None \<Rightarrow> (ats, cancels)
      | Some s \<Rightarrow>
          if s = NOT_FOUND \<or> s \<in> set TERMINAL
          then (case map_of ats g of
                  None \<Rightarrow> (ats, cancels)
                | Some a \<Rightarrow> if job_id a = Some i then (AList.delete g ats, cancels) else (ats, cancels))
          else if s \<noteq> ''CANCELLING'' then (ats, cancels @ [i])
          else (ats, cancels)))"

fun settle_superseded :: "(string \<rightharpoonup> string) \<Rightarrow> (string \<times> int) list
    \<Rightarrow> (int \<times> attempt) list \<times> string list \<Rightarrow> (int \<times> attempt) list \<times> string list" where
  "settle_superseded states [] st = st"
| "settle_superseded states ((i, g) # rest) st =
     settle_superseded states rest (settle_one states i g st)"

definition unexplained :: "int \<Rightarrow> (int \<times> attempt) list \<Rightarrow> listed list \<Rightarrow> string list" where
  "unexplained current ats jobs =
     (case map_of ats current of
        None \<Rightarrow> []
      | Some a \<Rightarrow>
          (case job_id a of
             None \<Rightarrow> []
           | Some i \<Rightarrow>
               map listed_id (filter (\<lambda>j. listed_generation j = current \<and> listed_id j \<noteq> i) jobs)))"

text \<open>
  What the current generation is doing (the \<open>if current == 0 or entry is None\<close> chain):
  whether it has stopped, whether its entry is to be dropped, the status, the state, the
  failures and the memory.
\<close>

record verdict =
  stopped :: bool
  drop_current :: bool
  status :: string
  state :: "string option"
  verdict_failures :: int
  verdict_memory :: memory

definition judge_current ::
    "int \<Rightarrow> attempt option \<Rightarrow> int \<Rightarrow> (string \<rightharpoonup> string) \<Rightarrow> memory \<Rightarrow> seconds \<Rightarrow> verdict" where
  "judge_current current entry fails states m now =
     (case (if current = 0 then None else entry) of
        None \<Rightarrow> \<lparr>stopped = True, drop_current = False, status = ''none'', state = None,
                 verdict_failures = fails, verdict_memory = m\<rparr>
      | Some a \<Rightarrow>
          (case job_id a of
             Some i \<Rightarrow>
               (let s = states i;
                    m1 = (if s \<noteq> Some ''RUNNING'' then forget_seen m (Running current i) else m)
                in case s of
                     None \<Rightarrow> \<lparr>stopped = False, drop_current = False, status = ''unknown'', state = s,
                              verdict_failures = fails, verdict_memory = m1\<rparr>
                   | Some t \<Rightarrow>
                       if t = ''RUNNING'' then
                         (let (ran, m2) = waited m1 (Running current i) now
                          in \<lparr>stopped = False, drop_current = False, status = ''running'', state = s,
                              verdict_failures =
                                (if fails \<noteq> 0 \<and> ran \<ge> HEALTHY_AFTER_SECONDS then 0 else fails),
                              verdict_memory = m2\<rparr>)
                       else if t = NOT_FOUND \<or> t \<in> set TERMINAL then
                         \<lparr>stopped = True, drop_current = True, status = ''stopped'', state = s,
                          verdict_failures = fails, verdict_memory = m1\<rparr>
                       else
                         \<lparr>stopped = False, drop_current = False, status = ''recovering'', state = s,
                          verdict_failures = fails, verdict_memory = m1\<rparr>)
           | None \<Rightarrow>
               (let (w, m1) = waited m (Unresolved current) now
                in if w < UNCERTAINTY_SECONDS
                   then \<lparr>stopped = False, drop_current = False, status = ''uncertain'', state = None,
                         verdict_failures = fails, verdict_memory = m1\<rparr>
                   else \<lparr>stopped = True, drop_current = False, status = ''unresolved'', state = None,
                         verdict_failures = fails, verdict_memory = m1\<rparr>)))"

text \<open>\<open>new != record\<close>: the fields differ, the attempts as dictionaries.\<close>

definition same_record :: "keeper_record \<Rightarrow> keeper_record \<Rightarrow> bool" where
  "same_record r s \<longleftrightarrow>
     generation r = generation s \<and> epoch r = epoch s \<and> failures r = failures s
     \<and> dict_eq (attempts r) (attempts s)"

definition observed :: "int \<Rightarrow> string \<Rightarrow> string \<Rightarrow> observation" where
  "observed current status_text wall =
     \<lparr>obs_generation = Some current, obs_status = status_text, obs_at = Some wall,
      obs_note = None, obs_detail = None\<rparr>"

text \<open>A plan that only observes.\<close>

definition observe_only :: "observation \<Rightarrow> plan" where
  "observe_only ob = \<lparr>cancel = [], new_record = None, submit = None, plan_observation = ob\<rparr>"

text \<open>
  \<open>decide\<close> in the three parts its body has: the sweep over the attempts and the listing,
  the step of the current generation, and the guards before both.
\<close>

definition sweep ::
    "keeper_record \<Rightarrow> listed list \<Rightarrow> (string \<rightharpoonup> string)
      \<Rightarrow> (int \<times> attempt) list \<times> string list \<times> keeper_note list" where
  "sweep r jobs states =
     (let current = generation r;
          (ats1, notes) = adopt_ids jobs (sort_key fst (attempts r)) (attempts r, []);
          (ats2, cancels) =
            settle_superseded states (sort_key snd (superseded current ats1 jobs)) (ats1, []);
          extra = unexplained current ats2 jobs
      in (ats2, cancels,
          if extra \<noteq> [] then notes @ [UnexplainedJobs current (sort extra)] else notes))"

definition never_sent :: "int \<Rightarrow> (int \<times> attempt) list \<Rightarrow> memory \<Rightarrow> bool" where
  "never_sent current ats m =
     (case map_of ats current of
        None \<Rightarrow> False
      | Some a \<Rightarrow> job_id a = None \<and> current \<in> never_submitted m)"

definition current_entry :: "int \<Rightarrow> (int \<times> attempt) list \<Rightarrow> memory \<Rightarrow> attempt option" where
  "current_entry current ats m = (if never_sent current ats m then None else map_of ats current)"

definition current_verdict ::
    "keeper_record \<Rightarrow> (int \<times> attempt) list \<Rightarrow> (string \<rightharpoonup> string) \<Rightarrow> memory \<Rightarrow> seconds \<Rightarrow> verdict" where
  "current_verdict r ats states m now =
     judge_current (generation r) (current_entry (generation r) ats m) (failures r) states m now"

text \<open>The record the cycle leaves: the attempts still owed, and the new one if it submits.\<close>

definition next_record ::
    "keeper_record \<Rightarrow> (int \<times> attempt) list \<Rightarrow> memory \<Rightarrow> verdict \<Rightarrow> bool \<Rightarrow> string \<Rightarrow> keeper_record" where
  "next_record r ats m v go wall =
     (let current = generation r;
          ats1 = (if never_sent current ats m then AList.delete current ats else ats);
          ats2 = (if go \<and> drop_current v then AList.delete current ats1 else ats1)
      in \<lparr>generation = (if go then current + 1 else current), epoch = epoch r,
          failures = (if go then (if current \<ge> 1 then verdict_failures v + 1 else 0)
                      else verdict_failures v),
          attempts = (if go then AList.update (current + 1)
                                   \<lparr>job_id = None, submitted_at = Some wall\<rparr> ats2
                      else ats2)\<rparr>)"

definition step_current ::
    "keeper_record \<Rightarrow> (int \<times> attempt) list \<times> string list \<times> keeper_note list
      \<Rightarrow> (string \<rightharpoonup> string) \<Rightarrow> memory \<Rightarrow> seconds \<Rightarrow> string \<Rightarrow> plan \<times> memory" where
  "step_current r swept states m now wall =
     (let current = generation r;
          (ats, cancels, notes) = swept;
          v = current_verdict r ats states m now;
          (w, m1) = (if stopped v then waited (verdict_memory v) (Stopped current) now
                     else (0, verdict_memory v));
          go = (stopped v \<and> w \<ge> backoff (verdict_failures v));
          status_text = (if stopped v \<and> \<not> go then status v @ '', backing off'' else status v);
          new = next_record r ats m v go wall;
          ob = (observed current
                  (if go \<and> current + 1 \<noteq> 0 then ''submitting'' else status_text) wall)
               \<lparr>obs_detail := Some
                  \<lparr>obs_job_id = Option.bind (current_entry current ats m) job_id, obs_state = state v,
                   obs_cancelling = cancels,
                   obs_unresolved =
                     sort (map fst (filter (\<lambda>(g, a). job_id a = None) (attempts new))),
                   obs_notes = notes\<rparr>\<rparr>
      in (\<lparr>cancel = cancels, new_record = (if same_record new r then None else Some new),
           submit = (if go then Some (current + 1) else None), plan_observation = ob\<rparr>,
          keep_generation m1 current))"

definition newer_listed :: "int \<Rightarrow> listed list \<Rightarrow> int list" where
  "newer_listed current jobs =
     sort (remdups (filter (\<lambda>g. g > current) (map listed_generation jobs)))"

definition decide ::
    "keeper_record \<Rightarrow> listed list option \<Rightarrow> (string \<rightharpoonup> string) \<Rightarrow> memory \<Rightarrow> seconds \<Rightarrow> string
      \<Rightarrow> plan \<times> memory" where
  "decide r listing states m now wall =
     (let current = generation r in
      case listing of
        None \<Rightarrow>
          (observe_only ((observed current ''unavailable'' wall)\<lparr>obs_note := Some NoJobListing\<rparr>), m)
      | Some jobs \<Rightarrow>
          if newer_listed current jobs \<noteq> [] then
            (observe_only ((observed current ''stale'' wall)
               \<lparr>obs_note := Some (NewerListed (newer_listed current jobs))\<rparr>), m)
          else step_current r (sweep r jobs states) states m now wall)"

section \<open>Well-formed records\<close>

text \<open>Distinct attempts, each of a generation submitted so far; counts that are counts.\<close>

definition record_wf :: "keeper_record \<Rightarrow> bool" where
  "record_wf r \<longleftrightarrow>
     distinct_keys (attempts r) \<and> list_all (\<lambda>(g, a). 1 \<le> g \<and> g \<le> generation r) (attempts r)
     \<and> 0 \<le> generation r \<and> 0 \<le> failures r"

section \<open>Lemmas: names and backoff\<close>

lemma generation_of_job_name: "0 \<le> g \<Longrightarrow> generation_of base (job_name base g) = Some g"
  by (simp add: generation_of_def job_name_def show_int_def Let_def)

lemma generation_of_nonneg: "generation_of base name = Some g \<Longrightarrow> 0 \<le> g"
  by (auto simp: generation_of_def Let_def split: if_splits)

lemma doubled_le_cap: "doubled b n cap \<le> cap"
  by (simp add: doubled_def)

lemma doubled_nonneg: "0 \<le> b \<Longrightarrow> 0 \<le> cap \<Longrightarrow> 0 \<le> doubled b n cap"
  by (simp add: doubled_def)

lemma doubled_mono: "0 \<le> b \<Longrightarrow> n \<le> k \<Longrightarrow> doubled b n cap \<le> doubled b k cap"
  unfolding doubled_def
  by (intro min.mono mult_left_mono power_int_increasing) auto

lemma backoff_nonneg: "0 \<le> backoff n"
  by (simp add: backoff_def doubled_nonneg keeper_constants)

lemma backoff_le_max: "backoff n \<le> BACKOFF_MAX_SECONDS"
  by (simp add: backoff_def doubled_le_cap keeper_constants)

lemma backoff_mono: "n \<le> k \<Longrightarrow> backoff n \<le> backoff k"
  by (auto simp: backoff_def doubled_nonneg keeper_constants intro: doubled_mono)

section \<open>Lemmas: the sweep\<close>

lemma set_update_cases: "x \<in> set (AList.update k v d) \<Longrightarrow> x = (k, v) \<or> x \<in> set d"
  by (induction d) (auto split: if_splits)

lemma adopt_ids_distinct:
  "distinct_keys ats \<Longrightarrow> distinct_keys (fst (adopt_ids jobs items (ats, ns)))"
  by (induction items arbitrary: ats ns) (auto simp: Let_def distinct_update)

lemma adopt_ids_keys:
  "fst ` set items \<subseteq> keys ats \<Longrightarrow> keys (fst (adopt_ids jobs items (ats, ns))) = keys ats"
proof (induction items arbitrary: ats ns)
  case (Cons x items)
  obtain g a where x: "x = (g, a)" by (cases x)
  with Cons.prems have g: "insert g (keys ats) = keys ats" and sub: "fst ` set items \<subseteq> keys ats"
    by auto
  then show ?case
    using Cons.IH [of ats] Cons.IH [of "AList.update g _ ats"]
    by (simp add: x Let_def dict_simps)
qed simp

text \<open>The listed jobs that carry the name of a generation.\<close>

definition namesakes :: "listed list \<Rightarrow> int \<Rightarrow> listed list" where
  "namesakes jobs g = filter (\<lambda>j. listed_generation j = g) jobs"

lemma namesakes_single: "namesakes jobs g = [j] \<Longrightarrow> j \<in> set jobs \<and> listed_generation j = g"
  unfolding namesakes_def by (metis (mono_tags, lifting) list.set_intros(1) mem_Collect_eq set_filter)

text \<open>An attempt after the adoption is the one before it, or it gained the id of its only namesake.\<close>

lemma adopt_ids_lookup:
  assumes "map_of (fst (adopt_ids jobs items (ats, ns))) g = Some a"
  shows "map_of ats g = Some a \<or>
    (\<exists>b j. (g, b) \<in> set items \<and> job_id b = None \<and> namesakes jobs g = [j]
      \<and> a = b\<lparr>job_id := Some (listed_id j)\<rparr>)"
  using assms
proof (induction items arbitrary: ats ns)
  case (Cons x items)
  obtain h b where x: "x = (h, b)" by (cases x)
  show ?case
  proof (cases "job_id b = None \<and> length (namesakes jobs h) = 1")
    case True
    then obtain j where j: "namesakes jobs h = [j]" by (auto simp: length_Suc_conv)
    with Cons.IH Cons.prems True show ?thesis
      by (fastforce simp: x Let_def update_conv' namesakes_def split: if_splits)
  next
    case False
    with Cons.IH Cons.prems show ?thesis
      by (fastforce simp: x Let_def namesakes_def split: if_splits)
  qed
qed simp

text \<open>And an attempt that has no id yet gains it when its name has one bearer.\<close>

lemma adopt_ids_untouched:
  "g \<notin> keys items \<Longrightarrow> map_of (fst (adopt_ids jobs items (ats, ns))) g = map_of ats g"
  by (induction items arbitrary: ats ns) (auto simp: Let_def update_conv' keys_def)

lemma adopt_ids_adopts:
  assumes "distinct_keys items" and "(g, b) \<in> set items" and "job_id b = None" and "namesakes jobs g = [j]"
  shows "map_of (fst (adopt_ids jobs items (ats, ns))) g = Some (b\<lparr>job_id := Some (listed_id j)\<rparr>)"
  using assms
proof (induction items arbitrary: ats ns)
  case (Cons x items)
  obtain h c where x: "x = (h, c)" by (cases x)
  show ?case
  proof (cases "h = g")
    case True
    with Cons.prems x have c: "c = b" "g \<notin> keys items"
      by (auto simp: keys_def image_iff)
    with Cons.prems x True show ?thesis by (simp add: Let_def adopt_ids_untouched namesakes_def update_conv')
  next
    case False
    with Cons.prems x have "(g, b) \<in> set items" "distinct_keys items" by auto
    with Cons.IH Cons.prems x show ?thesis by (simp add: Let_def)
  qed
qed simp

lemma superseded_recorded_sound:
  "(i, g) \<in> set (superseded_recorded current ats acc) \<Longrightarrow>
     (i, g) \<in> set acc \<or> (g < current \<and> (\<exists>a. (g, a) \<in> set ats \<and> job_id a = Some i))"
proof (induction ats arbitrary: acc)
  case (Cons x ats)
  then show ?case
    by (cases x) (fastforce split: option.splits if_splits dest: set_update_cases)
qed simp

lemma superseded_listed_sound:
  "(i, g) \<in> set (superseded_listed current jobs acc) \<Longrightarrow>
     (i, g) \<in> set acc \<or> (g < current \<and> (\<exists>j \<in> set jobs. listed_id j = i \<and> listed_generation j = g))"
  by (induction jobs arbitrary: acc) (fastforce split: if_splits dest: set_update_cases)+

lemma superseded_sound:
  assumes "(i, g) \<in> set (superseded current ats jobs)"
  shows "g < current \<and>
    ((\<exists>a. (g, a) \<in> set ats \<and> job_id a = Some i)
     \<or> (\<exists>j \<in> set jobs. listed_id j = i \<and> listed_generation j = g))"
  using assms superseded_listed_sound superseded_recorded_sound
  by (fastforce simp: superseded_def)

lemma superseded_listed_keys:
  "keys acc \<union> listed_id ` {j \<in> set jobs. listed_generation j < current}
     \<subseteq> keys (superseded_listed current jobs acc)"
proof (induction jobs arbitrary: acc)
  case (Cons j jobs)
  have present: "map_of acc k \<noteq> None \<longleftrightarrow> k \<in> keys acc" for k
    using keys_map_of [of k acc] by auto
  from Cons.IH [of acc] Cons.IH [of "AList.update (listed_id j) (listed_generation j) acc"] present
  show ?case by (auto simp: dict_simps)
qed simp

text \<open>What is cancelled was answered for, and is neither gone nor already cancelling.\<close>

lemma settle_cancels:
  "i \<in> set (snd (settle_superseded states items st)) \<longleftrightarrow>
     i \<in> set (snd st) \<or> (\<exists>g. (i, g) \<in> set items \<and>
       (\<exists>s. states i = Some s \<and> s \<noteq> NOT_FOUND \<and> s \<notin> set TERMINAL \<and> s \<noteq> ''CANCELLING''))"
proof (induction items arbitrary: st)
  case (Cons x items)
  obtain j g where x: "x = (j, g)" by (cases x)
  have "i \<in> set (snd (settle_one states j g st)) \<longleftrightarrow> i \<in> set (snd st) \<or> (i = j \<and>
      (\<exists>s. states i = Some s \<and> s \<noteq> NOT_FOUND \<and> s \<notin> set TERMINAL \<and> s \<noteq> ''CANCELLING''))"
    by (auto simp: settle_one_def split: option.splits prod.splits)
  with Cons.IH show ?case by (auto simp: x)
qed simp

lemma settle_one_distinct: "distinct_keys (fst st) \<Longrightarrow> distinct_keys (fst (settle_one states i g st))"
  by (auto simp: settle_one_def distinct_delete split: option.splits prod.splits)

lemma settle_distinct:
  "distinct_keys (fst st) \<Longrightarrow> distinct_keys (fst (settle_superseded states items st))"
proof (induction items arbitrary: st)
  case (Cons x items)
  then show ?case by (cases x) (simp add: settle_one_distinct)
qed simp

text \<open>An attempt the settlement removes had a job that is confirmed gone.\<close>

lemma settle_one_lookup:
  "map_of (fst (settle_one states i h st)) g = map_of (fst st) g \<or>
   (map_of (fst (settle_one states i h st)) g = None \<and> h = g \<and> gone (states i) \<and>
    (\<exists>a. map_of (fst st) g = Some a \<and> job_id a = Some i))"
  by (auto simp: settle_one_def delete_conv' split: option.splits prod.splits)

lemma settle_lookup:
  "map_of (fst (settle_superseded states items st)) g = map_of (fst st) g \<or>
   (map_of (fst (settle_superseded states items st)) g = None \<and>
    (\<exists>i a. (i, g) \<in> set items \<and> map_of (fst st) g = Some a \<and> job_id a = Some i \<and> gone (states i)))"
proof (induction items arbitrary: st)
  case (Cons x items)
  obtain j h where x: "x = (j, h)" by (cases x)
  from Cons.IH [of "settle_one states j h st"] settle_one_lookup [of states j h st g]
  show ?case by (auto simp: x)
qed simp

section \<open>Lemmas: the current generation\<close>

lemmas judge_simps = judge_current_def waited_def forget_seen_def Let_def

lemma judge_stopped:
  assumes "stopped (judge_current c entry f st m now)"
  shows "c = 0 \<or> entry = None
    \<or> (\<exists>a i. entry = Some a \<and> job_id a = Some i \<and> gone (st i))
    \<or> (\<exists>a. entry = Some a \<and> job_id a = None \<and> fst (waited m (Unresolved c) now) \<ge> UNCERTAINTY_SECONDS)"
  using assms
  by (auto simp: judge_simps split: option.splits if_splits prod.splits)

lemma judge_drop:
  assumes "drop_current (judge_current c entry f st m now)"
  shows "\<exists>a i. entry = Some a \<and> job_id a = Some i \<and> gone (st i)"
  using assms
  by (auto simp: judge_simps split: option.splits if_splits prod.splits)

lemma judge_failures:
  "verdict_failures (judge_current c entry f st m now) = f
   \<or> (verdict_failures (judge_current c entry f st m now) = 0
      \<and> \<not> stopped (judge_current c entry f st m now))"
  by (auto simp: judge_simps split: option.splits prod.splits)

lemma judge_stopped_failures:
  "stopped (judge_current c entry f st m now) \<Longrightarrow> verdict_failures (judge_current c entry f st m now) = f"
  using judge_failures by metis

lemma judge_keeps_stopped_since:
  "first_seen (verdict_memory (judge_current c entry f st m now)) (Stopped g) = first_seen m (Stopped g)"
  by (auto simp: judge_simps split: option.splits prod.splits)

text \<open>The current generation is gone: not recorded, confirmed stopped, or owed for too long.\<close>

definition current_gone :: "keeper_record \<Rightarrow> (int \<times> attempt) list \<Rightarrow> (string \<rightharpoonup> string) \<Rightarrow> memory \<Rightarrow> seconds \<Rightarrow> bool" where
  "current_gone r ats states m now \<longleftrightarrow>
     (case map_of ats (generation r) of
        None \<Rightarrow> True
      | Some a \<Rightarrow>
          generation r = 0 \<or> never_sent (generation r) ats m
          \<or> (case job_id a of
               Some i \<Rightarrow> gone (states i)
             | None \<Rightarrow> fst (waited m (Unresolved (generation r)) now) \<ge> UNCERTAINTY_SECONDS))"

text \<open>How long the current generation has been seen stopped: nothing, the first time.\<close>

definition stopped_for :: "memory \<Rightarrow> int \<Rightarrow> seconds \<Rightarrow> seconds" where
  "stopped_for m g now = (case first_seen m (Stopped g) of None \<Rightarrow> 0 | Some seen \<Rightarrow> now - seen)"

definition goes :: "keeper_record \<Rightarrow> (int \<times> attempt) list \<Rightarrow> (string \<rightharpoonup> string) \<Rightarrow> memory \<Rightarrow> seconds \<Rightarrow> bool" where
  "goes r ats states m now \<longleftrightarrow>
     current_gone r ats states m now \<and> stopped_for m (generation r) now \<ge> backoff (failures r)"

lemma verdict_stopped [simp]:
  "stopped (current_verdict r ats states m now) \<longleftrightarrow> current_gone r ats states m now"
  by (auto simp: current_gone_def current_verdict_def current_entry_def judge_simps never_sent_def
      NOT_FOUND_def TERMINAL_def split: option.splits if_splits)

lemma verdict_failures_eq:
  "verdict_failures (current_verdict r ats states m now) = failures r
   \<or> (verdict_failures (current_verdict r ats states m now) = 0 \<and> \<not> current_gone r ats states m now)"
  using judge_failures verdict_stopped unfolding current_verdict_def by metis

lemma verdict_failures_stopped [simp]:
  "current_gone r ats states m now \<Longrightarrow> verdict_failures (current_verdict r ats states m now) = failures r"
  using verdict_failures_eq by metis

lemma verdict_waited [simp]:
  "fst (waited (verdict_memory (current_verdict r ats states m now)) (Stopped g) now) = stopped_for m g now"
  by (simp add: waited_def stopped_for_def current_verdict_def judge_keeps_stopped_since
      split: option.splits)

lemma verdict_drop:
  assumes "drop_current (current_verdict r ats states m now)"
  shows "\<exists>a i. map_of ats (generation r) = Some a \<and> job_id a = Some i \<and> gone (states i)"
  using assms judge_drop unfolding current_verdict_def current_entry_def by (metis option.distinct(1))

text \<open>The parts of the plan, each in closed form.\<close>

lemma step_current_plan:
  fixes r ats states m now wall
  defines "new \<equiv> next_record r ats m (current_verdict r ats states m now) (goes r ats states m now) wall"
  shows "cancel (fst (step_current r (ats, cs, ns) states m now wall)) = cs"
    and "submit (fst (step_current r (ats, cs, ns) states m now wall)) =
      (if goes r ats states m now then Some (generation r + 1) else None)"
    and "new_record (fst (step_current r (ats, cs, ns) states m now wall)) =
      (if same_record new r then None else Some new)"
proof -
  let ?v = "current_verdict r ats states m now"
  obtain w m1 where w: "(if stopped ?v then waited (verdict_memory ?v) (Stopped (generation r)) now
                     else (0, verdict_memory ?v)) = (w, m1)" by fastforce
  have go: "(stopped ?v \<and> w \<ge> backoff (verdict_failures ?v)) \<longleftrightarrow> goes r ats states m now"
  proof (cases "current_gone r ats states m now")
    case True
    with w have "w = stopped_for m (generation r) now"
      by (metis fst_conv verdict_stopped verdict_waited)
    with True show ?thesis by (simp add: goes_def)
  qed (simp add: goes_def)
  note unfolded = step_current_def Let_def prod.case w go
  show "cancel (fst (step_current r (ats, cs, ns) states m now wall)) = cs"
    unfolding unfolded by simp
  show "submit (fst (step_current r (ats, cs, ns) states m now wall)) =
      (if goes r ats states m now then Some (generation r + 1) else None)"
    unfolding unfolded by simp
  show "new_record (fst (step_current r (ats, cs, ns) states m now wall)) =
      (if same_record new r then None else Some new)"
    unfolding unfolded new_def by simp
qed

section \<open>Lemmas: the whole decision\<close>

text \<open>
  Attempt \<open>g\<close> is accounted for: the job it is known by is gone, or it has no id, exactly one listed
  job carries its name, and that one is gone.
\<close>

definition accounted_for :: "keeper_record \<Rightarrow> listed list \<Rightarrow> (string \<rightharpoonup> string) \<Rightarrow> int \<Rightarrow> bool" where
  "accounted_for r jobs states g \<longleftrightarrow>
     list_ex (\<lambda>(h, a). h = g \<and>
       (case job_id a of
          Some i \<Rightarrow> gone (states i)
        | None \<Rightarrow> (case namesakes jobs g of [j] \<Rightarrow> gone (states (listed_id j)) | _ \<Rightarrow> False)))
     (attempts r)"

text \<open>Attempt \<open>g\<close> is recorded without an id, and no job or several carry its name.\<close>

definition unresolved :: "keeper_record \<Rightarrow> listed list \<Rightarrow> int \<Rightarrow> bool" where
  "unresolved r jobs g \<longleftrightarrow> list_ex (\<lambda>(h, a). h = g \<and> job_id a = None) (attempts r) \<and> length (namesakes jobs g) \<noteq> 1"

text \<open>Job \<open>i\<close> belongs to a generation older than the record's.\<close>

definition known_superseded :: "keeper_record \<Rightarrow> listed list \<Rightarrow> string \<Rightarrow> bool" where
  "known_superseded r jobs i \<longleftrightarrow>
     list_ex (\<lambda>(g, a). g < generation r \<and> job_id a = Some i) (attempts r)
     \<or> list_ex (\<lambda>j. listed_generation j < generation r \<and> listed_id j = i) jobs"

definition live_state :: "string option \<Rightarrow> bool" where
  "live_state s \<longleftrightarrow> s \<noteq> None \<and> \<not> gone s \<and> s \<noteq> Some ''CANCELLING''"

lemma accounted_for_id:
  "(g, a) \<in> set (attempts r) \<Longrightarrow> job_id a = Some i \<Longrightarrow> gone (states i) \<Longrightarrow> accounted_for r jobs states g"
  unfolding accounted_for_def list_ex_iff by (rule bexI [where x = "(g, a)"]) auto

lemma accounted_for_named:
  "(g, a) \<in> set (attempts r) \<Longrightarrow> job_id a = None \<Longrightarrow> namesakes jobs g = [j] \<Longrightarrow>
     gone (states (listed_id j)) \<Longrightarrow> accounted_for r jobs states g"
  unfolding accounted_for_def list_ex_iff by (rule bexI [where x = "(g, a)"]) auto

lemma known_superseded_id:
  "(g, a) \<in> set (attempts r) \<Longrightarrow> g < generation r \<Longrightarrow> job_id a = Some i \<Longrightarrow> known_superseded r jobs i"
  unfolding known_superseded_def list_ex_iff by (rule disjI1, rule bexI [where x = "(g, a)"]) auto

lemma known_superseded_listed:
  "j \<in> set jobs \<Longrightarrow> listed_generation j < generation r \<Longrightarrow> known_superseded r jobs (listed_id j)"
  unfolding known_superseded_def list_ex_iff by (rule disjI2, rule bexI [where x = j]) auto

lemma sweep_parts:
  assumes "sweep r jobs states = (ats, cs, ns)"
  obtains ats1 where
    "ats1 = fst (adopt_ids jobs (sort_key fst (attempts r)) (attempts r, []))"
    "ats = fst (settle_superseded states (sort_key snd (superseded (generation r) ats1 jobs)) (ats1, []))"
    "cs = snd (settle_superseded states (sort_key snd (superseded (generation r) ats1 jobs)) (ats1, []))"
  using assms by (auto simp: sweep_def Let_def split: prod.splits)

lemma adopted_known:
  assumes "distinct_keys (attempts r)"
    and "(g, a) \<in> set (fst (adopt_ids jobs (sort_key fst (attempts r)) (attempts r, [])))"
  shows "(g, a) \<in> set (attempts r) \<or>
    (\<exists>b j. (g, b) \<in> set (attempts r) \<and> job_id b = None \<and> namesakes jobs g = [j]
      \<and> a = b\<lparr>job_id := Some (listed_id j)\<rparr>)"
proof -
  have "map_of (fst (adopt_ids jobs (sort_key fst (attempts r)) (attempts r, []))) g = Some a"
    using assms by (simp add: adopt_ids_distinct)
  from adopt_ids_lookup [OF this] show ?thesis
    by (auto dest: map_of_SomeD)
qed

lemma sweep_cancels:
  assumes "distinct_keys (attempts r)" and "sweep r jobs states = (ats, cs, ns)" and "i \<in> set cs"
  shows "known_superseded r jobs i" and "live_state (states i)"
proof -
  obtain ats1 where ats1: "ats1 = fst (adopt_ids jobs (sort_key fst (attempts r)) (attempts r, []))"
    and cs: "cs = snd (settle_superseded states
      (sort_key snd (superseded (generation r) ats1 jobs)) (ats1, []))"
    using sweep_parts [OF assms(2)] by metis
  from assms(3) obtain g where g: "(i, g) \<in> set (superseded (generation r) ats1 jobs)"
    and live: "live_state (states i)"
    by (auto simp: cs settle_cancels live_state_def)
  show "live_state (states i)" by (rule live)
  from superseded_sound [OF g] have less: "g < generation r"
    and known: "(\<exists>a. (g, a) \<in> set ats1 \<and> job_id a = Some i)
      \<or> (\<exists>j \<in> set jobs. listed_id j = i \<and> listed_generation j = g)"
    by auto
  from known show "known_superseded r jobs i"
  proof
    assume "\<exists>a. (g, a) \<in> set ats1 \<and> job_id a = Some i"
    then obtain a where a: "(g, a) \<in> set ats1" "job_id a = Some i" by blast
    from adopted_known [OF assms(1) a(1) [unfolded ats1]] a(2) less show ?thesis
      by (auto intro: known_superseded_id intro!: known_superseded_listed dest!: namesakes_single)
  next
    assume "\<exists>j \<in> set jobs. listed_id j = i \<and> listed_generation j = g"
    with less show ?thesis by (auto intro: known_superseded_listed)
  qed
qed

lemma sweep_distinct:
  assumes "distinct_keys (attempts r)" and "sweep r jobs states = (ats, cs, ns)"
  shows "distinct_keys ats"
  using assms by (auto elim!: sweep_parts intro!: settle_distinct adopt_ids_distinct)

lemma sweep_keys:
  assumes "sweep r jobs states = (ats, cs, ns)"
  shows "keys ats \<subseteq> keys (attempts r)"
proof -
  obtain ats1 where ats1: "ats1 = fst (adopt_ids jobs (sort_key fst (attempts r)) (attempts r, []))"
    and ats: "ats = fst (settle_superseded states
      (sort_key snd (superseded (generation r) ats1 jobs)) (ats1, []))"
    using sweep_parts [OF assms] by metis
  have "keys ats1 = keys (attempts r)"
    unfolding ats1 by (rule adopt_ids_keys) (simp add: keys_def)
  moreover have "keys ats \<subseteq> keys ats1"
    using settle_lookup [of states _ "(ats1, [])", unfolded fst_conv] unfolding ats by (metis keys_map_of option.distinct(1) subsetI)
  ultimately show ?thesis by simp
qed

text \<open>What the sweep drops is accounted for; what it keeps it keeps with its id, if it had one.\<close>

lemma sweep_accounts:
  assumes "distinct_keys (attempts r)" and "sweep r jobs states = (ats, cs, ns)"
    and "g \<in> keys (attempts r)" and "g \<notin> keys ats"
  shows "accounted_for r jobs states g"
proof -
  obtain ats1 where ats1: "ats1 = fst (adopt_ids jobs (sort_key fst (attempts r)) (attempts r, []))"
    and ats: "ats = fst (settle_superseded states
      (sort_key snd (superseded (generation r) ats1 jobs)) (ats1, []))"
    using sweep_parts [OF assms(2)] by metis
  have "keys ats1 = keys (attempts r)"
    unfolding ats1 by (rule adopt_ids_keys) (simp add: keys_def)
  with assms(3) obtain a where a: "map_of ats1 g = Some a" by (metis keys_map_of)
  with assms(4) settle_lookup [of states _ "(ats1, [])" g, unfolded fst_conv]
  obtain i where i: "job_id a = Some i" "gone (states i)"
    unfolding ats by (metis keys_map_of option.inject)
  from a have "(g, a) \<in> set ats1" by (rule map_of_SomeD)
  from adopted_known [OF assms(1) this [unfolded ats1]] i show ?thesis
    by (auto intro: accounted_for_id accounted_for_named)
qed

lemma sweep_lookup:
  assumes "distinct_keys (attempts r)" and "sweep r jobs states = (ats, cs, ns)"
    and "map_of ats g = Some a"
  shows "(g, a) \<in> set (attempts r) \<or>
    (\<exists>b j. (g, b) \<in> set (attempts r) \<and> job_id b = None \<and> namesakes jobs g = [j]
      \<and> a = b\<lparr>job_id := Some (listed_id j)\<rparr>)"
proof -
  obtain ats1 where ats1: "ats1 = fst (adopt_ids jobs (sort_key fst (attempts r)) (attempts r, []))"
    and ats: "ats = fst (settle_superseded states
      (sort_key snd (superseded (generation r) ats1 jobs)) (ats1, []))"
    using sweep_parts [OF assms(2)] by metis
  have "map_of ats1 g = Some a"
    using assms(3) settle_lookup [of states _ "(ats1, [])" g, unfolded fst_conv] unfolding ats by (metis option.distinct(1))
  then have "(g, a) \<in> set ats1" by (rule map_of_SomeD)
  from adopted_known [OF assms(1) this [unfolded ats1]] show ?thesis .
qed

lemma distinct_keys_sort: "distinct_keys d \<Longrightarrow> distinct_keys (sort_key fst d)"
  by (metis distinct_map distinct_sort set_sort)

text \<open>An attempt the sweep leaves without an id is unresolved.\<close>

lemma sweep_unresolved:
  assumes "distinct_keys (attempts r)" and "sweep r jobs states = (ats, cs, ns)"
    and "map_of ats g = Some a" and "job_id a = None"
  shows "unresolved r jobs g"
proof -
  obtain ats1 where ats1: "ats1 = fst (adopt_ids jobs (sort_key fst (attempts r)) (attempts r, []))"
    and ats: "ats = fst (settle_superseded states
      (sort_key snd (superseded (generation r) ats1 jobs)) (ats1, []))"
    using sweep_parts [OF assms(2)] by metis
  have a: "map_of ats1 g = Some a"
    using assms(3) settle_lookup [of states _ "(ats1, [])" g, unfolded fst_conv] unfolding ats by (metis option.distinct(1))
  from sweep_lookup [OF assms(1-3)] assms(4) have mem: "(g, a) \<in> set (attempts r)" by auto
  have "namesakes jobs g \<noteq> [j]" for j
  proof
    assume j: "namesakes jobs g = [j]"
    have "map_of ats1 g = Some (a\<lparr>job_id := Some (listed_id j)\<rparr>)"
      unfolding ats1 using assms(1) mem by (intro adopt_ids_adopts distinct_keys_sort j assms(4)) simp_all
    with a have "job_id a = job_id (a\<lparr>job_id := Some (listed_id j)\<rparr>)" by simp
    with assms(4) show False by simp
  qed
  with mem assms(4) show ?thesis by (auto simp: unresolved_def list_ex_iff length_Suc_conv)
qed

text \<open>The three ways a decision goes.\<close>

lemma decide_cases:
  obtains (idle) ob where "fst (decide r listing states m now wall) = observe_only ob"
      and "snd (decide r listing states m now wall) = m"
      and "listing = None \<or> (\<exists>jobs. listing = Some jobs \<and> newer_listed (generation r) jobs \<noteq> [])"
  | (live) jobs ats cs ns where "listing = Some jobs" and "newer_listed (generation r) jobs = []"
      and "sweep r jobs states = (ats, cs, ns)"
      and "decide r listing states m now wall = step_current r (ats, cs, ns) states m now wall"
proof (cases listing)
  case None
  then show ?thesis by (intro idle) (auto simp: decide_def Let_def)
next
  case (Some jobs)
  obtain ats cs ns where "sweep r jobs states = (ats, cs, ns)" by (cases "sweep r jobs states")
  then show ?thesis
    using Some idle live by (cases "newer_listed (generation r) jobs = []") (auto simp: decide_def Let_def)
qed

lemma sweep_cancels_listed:
  assumes "sweep r jobs states = (ats, cs, ns)"
    and "j \<in> set jobs" and "listed_generation j < generation r" and "live_state (states (listed_id j))"
  shows "listed_id j \<in> set cs"
proof -
  obtain ats1 where cs: "cs = snd (settle_superseded states
      (sort_key snd (superseded (generation r) ats1 jobs)) (ats1, []))"
    using sweep_parts [OF assms(1)] by metis
  have "listed_id j \<in> keys (superseded (generation r) ats1 jobs)"
    using superseded_listed_keys assms(2,3) unfolding superseded_def by blast
  then obtain g where "(listed_id j, g) \<in> set (superseded (generation r) ats1 jobs)"
    by (auto simp: keys_def)
  with assms(4) show ?thesis
    by (auto simp: cs settle_cancels live_state_def gone_def)
qed

lemma next_record_keys:
  "keys (attempts (next_record r ats m v go wall)) \<subseteq> keys ats \<union> (if go then {generation r + 1} else {})"
  by (auto simp: next_record_def Let_def dict_simps)

lemma next_record_distinct:
  "distinct_keys ats \<Longrightarrow> distinct_keys (attempts (next_record r ats m v go wall))"
  by (auto simp: next_record_def Let_def distinct_update distinct_delete)

lemma next_record_drops:
  assumes "g \<in> keys ats" and "g \<notin> keys (attempts (next_record r ats m v go wall))"
  shows "g = generation r \<and> (never_sent g ats m \<or> drop_current v)"
  using assms by (auto simp: next_record_def Let_def dict_simps split: if_splits)

lemma next_record_intent:
  "map_of (attempts (next_record r ats m v True wall)) (generation r + 1)
     = Some \<lparr>job_id = None, submitted_at = Some wall\<rparr>"
  by (simp add: next_record_def Let_def update_conv')

lemma next_record_fields [simp]:
  "generation (next_record r ats m v go wall) = (if go then generation r + 1 else generation r)"
  "epoch (next_record r ats m v go wall) = epoch r"
  "failures (next_record r ats m v go wall) =
     (if go then (if generation r \<ge> 1 then verdict_failures v + 1 else 0) else verdict_failures v)"
  by (simp_all add: next_record_def Let_def)

lemma verdict_failures_nonneg:
  "0 \<le> failures r \<Longrightarrow> 0 \<le> verdict_failures (current_verdict r ats states m now)"
  using verdict_failures_eq [of r ats states m now] by auto

lemma next_record_wf:
  assumes "record_wf r" and "keys ats \<subseteq> keys (attempts r)" and "distinct_keys ats"
    and "0 \<le> verdict_failures v"
  shows "record_wf (next_record r ats m v go wall)"
proof -
  let ?n = "next_record r ats m v go wall"
  from assms(1) have r: "g \<in> keys (attempts r) \<Longrightarrow> 1 \<le> g \<and> g \<le> generation r" "0 \<le> generation r" for g
    by (auto simp: record_wf_def keys_def list_all_iff)
  have "1 \<le> g \<and> g \<le> generation ?n" if "g \<in> keys (attempts ?n)" for g
    using that r assms(2) next_record_keys [of r ats m v go wall] by (cases go) force+
  then have "list_all (\<lambda>(g, a). 1 \<le> g \<and> g \<le> generation ?n) (attempts ?n)"
    unfolding list_all_keys by blast
  with assms(3,4) r next_record_distinct show ?thesis by (simp add: record_wf_def)
qed

section \<open>Properties of the decision\<close>

text \<open>
  C12. Only superseded jobs are cancelled: a job in the plan's cancellations is one the record
  or a listing that holds nothing newer assigns to a generation below the record's, and a
  direct lookup answered that it is neither gone nor already being cancelled.
\<close>

theorem decide_cancels_only_superseded:
  assumes "distinct_keys (attempts r)"
    and "i \<in> set (cancel (fst (decide r listing states m now wall)))"
  shows "\<exists>jobs. listing = Some jobs \<and> newer_listed (generation r) jobs = []
    \<and> known_superseded r jobs i \<and> live_state (states i)"
proof (cases rule: decide_cases [of r listing states m now wall])
  case (idle ob)
  with assms(2) show ?thesis by (simp add: observe_only_def)
next
  case (live jobs ats cs ns)
  with assms(2) have "i \<in> set cs" by (simp add: step_current_plan)
  with sweep_cancels [OF assms(1) live(3)] live show ?thesis by blast
qed

text \<open>
  Every superseded job that is seen is cancelled in the same cycle: a listed job of an older
  generation whose lookup was answered with a live state is among the plan's cancellations.
\<close>

theorem decide_cancels_every_superseded:
  assumes "newer_listed (generation r) jobs = []" and "j \<in> set jobs"
    and "listed_generation j < generation r" and "live_state (states (listed_id j))"
  shows "listed_id j \<in> set (cancel (fst (decide r (Some jobs) states m now wall)))"
proof (cases rule: decide_cases [of r "Some jobs" states m now wall])
  case (idle ob)
  with assms(1) show ?thesis by simp
next
  case (live jobs' ats cs ns)
  with assms sweep_cancels_listed show ?thesis by (simp add: step_current_plan)
qed

text \<open>
  An intent before every submission: when the plan submits, it submits the generation after
  the record's, and it also carries a new record whose generation that is and which holds an
  id-less attempt for it.
\<close>

theorem decide_records_intent:
  assumes "submit (fst (decide r listing states m now wall)) = Some n"
  shows "n = generation r + 1 \<and>
    (\<exists>new. new_record (fst (decide r listing states m now wall)) = Some new \<and> generation new = n
       \<and> map_of (attempts new) n = Some \<lparr>job_id = None, submitted_at = Some wall\<rparr>)"
proof (cases rule: decide_cases [of r listing states m now wall])
  case (idle ob)
  with assms show ?thesis by (simp add: observe_only_def)
next
  case (live jobs ats cs ns)
  with assms have go: "goes r ats states m now" and n: "n = generation r + 1"
    by (simp_all add: step_current_plan split: if_splits)
  from go have "\<not> same_record
      (next_record r ats m (current_verdict r ats states m now) (goes r ats states m now) wall) r"
    by (simp add: same_record_def)
  with live go n next_record_intent show ?thesis by (simp add: step_current_plan)
qed

text \<open>
  The generation is monotonic: a new record has the record's generation or the next one,
  and the next one exactly when the plan submits.
\<close>

theorem decide_generation_monotonic:
  assumes "new_record (fst (decide r listing states m now wall)) = Some new"
  shows "generation new =
    (if submit (fst (decide r listing states m now wall)) = None then generation r else generation r + 1)"
proof (cases rule: decide_cases [of r listing states m now wall])
  case (idle ob)
  with assms show ?thesis by (simp add: observe_only_def)
next
  case (live jobs ats cs ns)
  with assms show ?thesis by (auto simp: step_current_plan split: if_splits)
qed

text \<open>
  C16. Every attempt is kept until it is accounted for: an attempt that a new record no longer
  holds is one whose job (the recorded one, or the only listed job of an id-less attempt's name) was
  confirmed stopped or not found, or it is the current generation's, has no id that it has or
  could adopt, and this tenure knows it never submitted it. While several jobs carry the name, one
  of them being gone settles nothing.
\<close>

theorem decide_keeps_unaccounted:
  assumes "record_wf r" and "g \<in> keys (attempts r)"
    and "new_record (fst (decide r (Some jobs) states m now wall)) = Some new"
    and "g \<notin> keys (attempts new)"
  shows "accounted_for r jobs states g \<or> (g = generation r \<and> unresolved r jobs g \<and> g \<in> never_submitted m)"
proof (cases rule: decide_cases [of r "Some jobs" states m now wall])
  case (idle ob)
  with assms(3) show ?thesis by (simp add: observe_only_def)
next
  case (live jobs' ats cs ns)
  have dist: "distinct_keys (attempts r)" using assms(1) by (simp add: record_wf_def)
  let ?v = "current_verdict r ats states m now"
  from live assms(3) have new: "new = next_record r ats m ?v (goes r ats states m now) wall"
    by (simp add: step_current_plan split: if_splits)
  show ?thesis
  proof (cases "g \<in> keys ats")
    case False
    with sweep_accounts [OF dist live(3) assms(2)] live(1) show ?thesis by simp
  next
    case True
    with next_record_drops assms(4) new
    consider (never) "g = generation r" "never_sent g ats m" | (drop) "g = generation r" "drop_current ?v"
      by blast
    then show ?thesis
    proof cases
      case never
      then obtain a where "map_of ats g = Some a" "job_id a = None" "g \<in> never_submitted m"
        by (auto simp: never_sent_def split: option.splits)
      with never sweep_unresolved [OF dist live(3)] live(1) show ?thesis by auto
    next
      case drop
      with verdict_drop obtain a i where a: "map_of ats g = Some a" "job_id a = Some i" "gone (states i)"
        by blast
      from sweep_lookup [OF dist live(3) a(1)] a live(1) show ?thesis
        by (auto intro: accounted_for_id accounted_for_named)
    qed
  qed
qed

text \<open>
  Unknown is never absent: without a listing, or with one that shows a newer generation, the
  cycle decides nothing (no cancellation, no write, no submission) and remembers nothing new.
\<close>

theorem decide_unknown_is_not_absent:
  assumes "listing = None \<or> (\<exists>jobs. listing = Some jobs \<and> newer_listed (generation r) jobs \<noteq> [])"
  shows "cancel (fst (decide r listing states m now wall)) = []
    \<and> new_record (fst (decide r listing states m now wall)) = None
    \<and> submit (fst (decide r listing states m now wall)) = None
    \<and> snd (decide r listing states m now wall) = m"
proof (cases rule: decide_cases [of r listing states m now wall])
  case (idle ob)
  then show ?thesis by (simp add: observe_only_def)
next
  case (live jobs ats cs ns)
  with assms show ?thesis by simp
qed

text \<open>
  C19. What a submission rests on: with a recorded attempt for the current generation, the plan
  submits the next one only if that attempt's job is confirmed gone (the recorded one, or the only
  listed job of its name), or it has no id and no single job carries its name, and either this
  tenure never submitted it or it has been owed for the whole uncertainty window.
\<close>

theorem decide_submits_on_evidence:
  assumes "record_wf r" and "map_of (attempts r) (generation r) = Some a"
    and "submit (fst (decide r (Some jobs) states m now wall)) = Some n"
  shows "accounted_for r jobs states (generation r)
    \<or> (unresolved r jobs (generation r) \<and> (generation r \<in> never_submitted m
        \<or> fst (waited m (Unresolved (generation r)) now) \<ge> UNCERTAINTY_SECONDS))"
proof (cases rule: decide_cases [of r "Some jobs" states m now wall])
  case (idle ob)
  with assms(3) show ?thesis by (simp add: observe_only_def)
next
  case (live jobs' ats cs ns)
  have dist: "distinct_keys (attempts r)" using assms(1) by (simp add: record_wf_def)
  have here: "generation r \<in> keys (attempts r)" using assms(2) by (auto simp: keys_map_of)
  with assms(1) have pos: "generation r \<noteq> 0"
    by (auto simp: record_wf_def keys_def list_all_iff)
  from live assms(3) have gone: "current_gone r ats states m now"
    by (simp add: step_current_plan goes_def split: if_splits)
  show ?thesis
  proof (cases "map_of ats (generation r)")
    case None
    then have "generation r \<notin> keys ats" by (simp add: keys_map_of)
    with sweep_accounts [OF dist live(3) here] live(1) show ?thesis by simp
  next
    case (Some b)
    show ?thesis
    proof (cases "job_id b")
      case None
      with sweep_unresolved [OF dist live(3) Some] gone Some pos live(1) show ?thesis
        by (auto simp: current_gone_def never_sent_def)
    next
      case id: (Some i)
      with gone Some pos have "gone (states i)" by (auto simp: current_gone_def never_sent_def)
      with sweep_lookup [OF dist live(3) Some] id live(1) show ?thesis
        by (auto intro: accounted_for_id accounted_for_named)
    qed
  qed
qed

text \<open>
  Resubmissions back off: a plan that submits has seen the current generation stopped for at
  least the backoff its consecutive failures ask for, on the keeper's own clock.
\<close>

theorem decide_respects_backoff:
  assumes "submit (fst (decide r listing states m now wall)) = Some n"
  shows "backoff (failures r) \<le> stopped_for m (generation r) now"
proof (cases rule: decide_cases [of r listing states m now wall])
  case (idle ob)
  with assms show ?thesis by (simp add: observe_only_def)
next
  case (live jobs ats cs ns)
  with assms show ?thesis by (simp add: step_current_plan goes_def split: if_splits)
qed

text \<open>
  Decisions keep records well formed: distinct attempts of generations from 1 to the
  record's, and non-negative counts.
\<close>

theorem decide_preserves_wf:
  assumes "record_wf r" and "new_record (fst (decide r listing states m now wall)) = Some new"
  shows "record_wf new"
proof (cases rule: decide_cases [of r listing states m now wall])
  case (idle ob)
  with assms(2) show ?thesis by (simp add: observe_only_def)
next
  case (live jobs ats cs ns)
  have dist: "distinct_keys (attempts r)" and f: "0 \<le> failures r"
    using assms(1) by (simp_all add: record_wf_def)
  from live assms(2)
  have "new = next_record r ats m (current_verdict r ats states m now) (goes r ats states m now) wall"
    by (simp add: step_current_plan split: if_splits)
  with next_record_wf [OF assms(1) sweep_keys [OF live(3)] sweep_distinct [OF dist live(3)]
      verdict_failures_nonneg [OF f]]
  show ?thesis by simp
qed

lemma attempt_json_roundtrip [json_simps]: "parse_attempt (attempt_json a) = Some a"
  by (cases a) (auto simp: parse_attempt_def attempt_json_def split: option.splits)

lemma update_fresh: "k \<notin> keys d \<Longrightarrow> AList.update k v d = d @ [(k, v)]"
  by (induction d) (auto simp: keys_def)

lemma parse_attempts_printed:
  "distinct_keys (acc @ ats) \<Longrightarrow>
     parse_attempts (map (\<lambda>(g, a). (show_int g, attempt_json a)) ats) acc = Some (acc @ ats)"
proof (induction ats arbitrary: acc)
  case (Cons x ats)
  obtain g a where x: "x = (g, a)" by (cases x)
  with Cons.prems have "g \<notin> keys acc" by (auto simp: keys_def)
  with Cons x show ?case by (simp add: attempt_json_roundtrip update_fresh)
qed simp

text \<open>
  The record survives its JSON: parsing what \<open>to_json\<close> prints gives the record back, its
  attempts now in the order of their generations.
\<close>

theorem parse_to_json:
  assumes "distinct_keys (attempts r)"
  shows "parse_record (to_json r) = Some (r\<lparr>attempts := sort_key fst (attempts r)\<rparr>)"
  using parse_attempts_printed [of "[]" "sort_key fst (attempts r)"] distinct_keys_sort [OF assms]
  by (cases r) (auto simp: parse_record_def to_json_def int_field_def split: option.splits)

text \<open>
  Job names carry their generation: the name of a generation reads back as that
  generation, for every base, and no two generations share a name.
\<close>

theorem job_name_roundtrip:
  assumes "0 \<le> g"
  shows "generation_of base (job_name base g) = Some g
    \<and> (\<forall>h. job_name base h = job_name base g \<longleftrightarrow> h = g)"
  using assms by (simp add: generation_of_job_name) (simp add: job_name_def)

text \<open>
  The backoff is bounded and monotonic: between nothing and the maximum, never shorter
  after more failures, immediate without any, and at its maximum from the sixth on.
\<close>

theorem backoff_bounds:
  "0 \<le> backoff n \<and> backoff n \<le> BACKOFF_MAX_SECONDS
   \<and> (n \<le> k \<longrightarrow> backoff n \<le> backoff k) \<and> backoff 0 = 0 \<and> backoff (6 + int j) = BACKOFF_MAX_SECONDS"
proof -
  have "backoff 6 = BACKOFF_MAX_SECONDS"
    by (simp add: backoff_def doubled_def keeper_constants)
  then have "backoff (6 + int j) = BACKOFF_MAX_SECONDS"
    using backoff_mono [of 6 "6 + int j"] backoff_le_max [of "6 + int j"] by simp
  then show ?thesis
    using backoff_nonneg backoff_le_max backoff_mono by (simp add: backoff_def)
qed

lemma superseded_current_only:
  assumes "\<forall>j \<in> set jobs. listed_generation j = c"
  shows "superseded c [(c, a)] jobs = []"
proof -
  have "superseded_listed c jobs [] = []"
    using assms by (induction jobs) auto
  then show ?thesis by (simp add: superseded_def split: option.splits)
qed

text \<open>
  A healthy job is left alone: with one attempt, the current one, whose job runs, no
  failures to forget, and nothing but jobs of this generation listed, a cycle cancels, writes
  and submits nothing.
\<close>

theorem decide_healthy_is_quiet:
  assumes "attempts r = [(generation r, a)]" and "job_id a = Some i" and "states i = Some ''RUNNING''"
    and "generation r \<noteq> 0" and "failures r = 0"
    and "\<forall>j \<in> set jobs. listed_generation j = generation r"
  shows "cancel (fst (decide r (Some jobs) states m now wall)) = []
    \<and> new_record (fst (decide r (Some jobs) states m now wall)) = None
    \<and> submit (fst (decide r (Some jobs) states m now wall)) = None"
proof (cases rule: decide_cases [of r "Some jobs" states m now wall])
  case (idle ob)
  then show ?thesis by (simp add: observe_only_def)
next
  case (live jobs' ats cs ns)
  have sw: "ats = attempts r \<and> cs = []"
    using live(1,3) assms superseded_current_only [of jobs "generation r" a]
    by (auto simp: sweep_def Let_def)
  have quiet: "\<not> goes r ats states m now"
    using sw assms by (simp add: goes_def current_gone_def never_sent_def NOT_FOUND_def TERMINAL_def)
  have "verdict_failures (current_verdict r ats states m now) = 0"
    using assms(5) verdict_failures_eq [of r ats states m now] by auto
  with sw quiet assms
  have "same_record (next_record r ats m (current_verdict r ats states m now) False wall) r"
    by (simp add: same_record_def next_record_def Let_def never_sent_def dict_eq_def)
  with live sw quiet show ?thesis by (simp add: step_current_plan)
qed

section \<open>Witnesses\<close>

definition ex_record :: keeper_record where
  "ex_record = \<lparr>generation = 2, epoch = Some 3, failures = 1,
     attempts = [(1, \<lparr>job_id = Some ''aa'', submitted_at = None\<rparr>),
                 (2, \<lparr>job_id = Some ''bb'', submitted_at = None\<rparr>)]\<rparr>"

definition ex_jobs :: "listed list" where
  "ex_jobs = [\<lparr>listed_id = ''aa'', listed_generation = 1, listed_state = ''RUNNING''\<rparr>]"

definition ex_states :: "string \<rightharpoonup> string" where
  "ex_states = [''aa'' \<mapsto> ''RUNNING'', ''bb'' \<mapsto> ''FAILED'']"

definition ex_memory :: memory where
  "ex_memory = \<lparr>first_seen = [Stopped 2 \<mapsto> 5], never_submitted = {}\<rparr>"

abbreviation ex_plan :: plan where
  "ex_plan \<equiv> fst (decide ex_record (Some ex_jobs) ex_states ex_memory 20 ''t'')"

definition ex_new :: keeper_record where
  "ex_new = \<lparr>generation = 3, epoch = Some 3, failures = 2,
     attempts = [(1, \<lparr>job_id = Some ''aa'', submitted_at = None\<rparr>),
                 (3, \<lparr>job_id = None, submitted_at = Some ''t''\<rparr>)]\<rparr>"

lemma ex_wf: "record_wf ex_record"
  by (simp add: record_wf_def ex_record_def)

lemma ex_plan_parts: "cancel ex_plan = [''aa''] \<and> new_record ex_plan = Some ex_new \<and> submit ex_plan = Some 3"
  by code_simp

theorem decide_cancels_only_superseded_witness:
  "\<exists>jobs. Some ex_jobs = Some jobs \<and> newer_listed (generation ex_record) jobs = []
    \<and> known_superseded ex_record jobs ''aa'' \<and> live_state (ex_states ''aa'')"
  using decide_cancels_only_superseded [of ex_record "''aa''" "Some ex_jobs" ex_states ex_memory 20 "''t''"]
    ex_wf ex_plan_parts by (simp add: record_wf_def)

theorem decide_cancels_every_superseded_witness: "''aa'' \<in> set (cancel ex_plan)"
  using decide_cancels_every_superseded
    [of ex_record ex_jobs "\<lparr>listed_id = ''aa'', listed_generation = 1, listed_state = ''RUNNING''\<rparr>" ex_states]
  by (simp add: ex_record_def ex_jobs_def ex_states_def newer_listed_def live_state_def
      NOT_FOUND_def TERMINAL_def)

theorem decide_records_intent_witness:
  "(3::int) = generation ex_record + 1 \<and>
    (\<exists>new. new_record ex_plan = Some new \<and> generation new = 3
       \<and> map_of (attempts new) 3 = Some \<lparr>job_id = None, submitted_at = Some ''t''\<rparr>)"
  using decide_records_intent [of ex_record "Some ex_jobs" ex_states ex_memory 20 "''t''" 3] ex_plan_parts
  by simp

theorem decide_generation_monotonic_witness: "generation ex_new = generation ex_record + 1"
  using decide_generation_monotonic [of ex_record "Some ex_jobs" ex_states ex_memory 20 "''t''" ex_new]
    ex_plan_parts by simp

theorem decide_keeps_unaccounted_witness:
  "accounted_for ex_record ex_jobs ex_states 2"
proof -
  have "2 \<in> keys (attempts ex_record)" and "2 \<notin> keys (attempts ex_new)"
    by (simp_all add: keys_def ex_record_def ex_new_def)
  with decide_keeps_unaccounted [of ex_record 2 ex_jobs ex_states ex_memory 20 "''t''" ex_new]
    ex_wf ex_plan_parts show ?thesis by (simp add: ex_memory_def)
qed

theorem decide_unknown_is_not_absent_witness:
  "submit (fst (decide ex_record None ex_states ex_memory 20 ''t'')) = None
   \<and> cancel (fst (decide ex_record None ex_states ex_memory 20 ''t'')) = []"
  using decide_unknown_is_not_absent [of None ex_record ex_states ex_memory 20 "''t''"] by simp

theorem decide_submits_on_evidence_witness: "accounted_for ex_record ex_jobs ex_states 2"
  using decide_submits_on_evidence
    [of ex_record "\<lparr>job_id = Some ''bb'', submitted_at = None\<rparr>" ex_jobs ex_states ex_memory 20 "''t''" 3]
    ex_wf ex_plan_parts by (simp add: ex_record_def unresolved_def)

theorem decide_respects_backoff_witness: "backoff 1 \<le> stopped_for ex_memory 2 20"
  using decide_respects_backoff [of ex_record "Some ex_jobs" ex_states ex_memory 20 "''t''" 3] ex_plan_parts
  by (simp add: ex_record_def)

theorem decide_preserves_wf_witness: "record_wf ex_new"
  using decide_preserves_wf [of ex_record "Some ex_jobs" ex_states ex_memory 20 "''t''" ex_new]
    ex_wf ex_plan_parts by simp

theorem parse_to_json_witness: "parse_record (to_json ex_record) = Some ex_record"
  using parse_to_json [of ex_record] by (simp add: ex_record_def)

theorem job_name_roundtrip_witness: "generation_of ''w'' (job_name ''w'' 12) = Some 12"
  using job_name_roundtrip [of 12 "''w''"] by simp

theorem backoff_bounds_witness: "(1::int) \<le> 3 \<and> backoff 1 \<le> backoff 3"
  using backoff_bounds [of 1 3 0] by simp

theorem decide_healthy_is_quiet_witness:
  "submit (fst (decide \<lparr>generation = 4, epoch = None, failures = 0,
       attempts = [(4, \<lparr>job_id = Some ''x'', submitted_at = None\<rparr>)]\<rparr>
     (Some []) [''x'' \<mapsto> ''RUNNING''] fresh_memory 9 ''t'')) = None"
  using decide_healthy_is_quiet
    [of "\<lparr>generation = 4, epoch = None, failures = 0,
          attempts = [(4, \<lparr>job_id = Some ''x'', submitted_at = None\<rparr>)]\<rparr>"
        "\<lparr>job_id = Some ''x'', submitted_at = None\<rparr>" "''x''" "[''x'' \<mapsto> ''RUNNING'']" "[]"
        fresh_memory 9 "''t''"]
  by simp

end
