(* ===== verification/Coordination.thy ===== *)
theory Coordination
  imports Zookeeper Keeper_Decision
begin

text \<open>
  \<open>coordination.py\<close>: the coordination tree, the epoch that fences leader-only writes,
  the fenced writes themselves, the leader's marker, registrations, and \<open>Leadership\<close>.
  Every function takes the kazoo client (a record of calls, see \<open>Zookeeper\<close>) and the
  service's state, and returns its result or exception with the state after it.

  Logging and the text of exceptions are left out. Timestamps of the process's own clock
  are arguments.
\<close>

section \<open>Exceptions\<close>

datatype coord_error =
    ZkExn zk_error | ValueError | TypeError | StaleLeader | RecordChanged
  | CoordRuntimeError | Interrupted | WriteUncertain | FlinkExn

section \<open>Paths\<close>

definition election_path :: "string \<Rightarrow> string" where "election_path zroot = zroot @ ''/election''"
definition leader_path :: "string \<Rightarrow> string" where "leader_path zroot = zroot @ ''/leader''"
definition epoch_path :: "string \<Rightarrow> string" where "epoch_path zroot = zroot @ ''/epoch''"
definition snapshot_path :: "string \<Rightarrow> string" where "snapshot_path zroot = zroot @ ''/snapshot''"
definition config_path :: "string \<Rightarrow> string" where "config_path zroot = zroot @ ''/config''"
definition worker_delay_path :: "string \<Rightarrow> string" where
  "worker_delay_path zroot = config_path zroot @ ''/worker_delay''"
definition registry_path :: "string \<Rightarrow> string" where "registry_path zroot = zroot @ ''/registry''"
definition flink_path :: "string \<Rightarrow> string" where "flink_path zroot = zroot @ ''/flink''"

definition persistent_paths :: "string \<Rightarrow> string list" where
  "persistent_paths zroot =
     [zroot, election_path zroot, epoch_path zroot, snapshot_path zroot, config_path zroot,
      worker_delay_path zroot, registry_path zroot, flink_path zroot]"

lemmas path_defs =
  election_path_def leader_path_def epoch_path_def snapshot_path_def config_path_def
  worker_delay_path_def registry_path_def flink_path_def

definition ROLES :: "string list" where
  "ROLES = [''coordinator'', ''consumer'', ''worker'']"

definition EMPTY_FLINK_RECORD :: json where
  "EMPTY_FLINK_RECORD = JObj
     [(''generation'', JInt 0), (''epoch'', JNull), (''failures'', JInt 0), (''attempts'', JObj [])]"

section \<open>Initialisation\<close>

fun ensure_paths :: "'w kazoo \<Rightarrow> string list \<Rightarrow> 'w \<Rightarrow> (coord_error + unit) \<times> 'w" where
  "ensure_paths zk [] w = (Inr (), w)"
| "ensure_paths zk (p # ps) w =
     (case zensure zk w p of
        (Inl e, w1) \<Rightarrow> (Inl (ZkExn e), w1)
      | (Inr _, w1) \<Rightarrow> ensure_paths zk ps w1)"

definition create_if_absent :: "'w kazoo \<Rightarrow> string \<Rightarrow> zdata \<Rightarrow> 'w \<Rightarrow> (coord_error + unit) \<times> 'w" where
  "create_if_absent zk p d w =
     (case zcreate zk w p d False False of
        (Inl e, w1) \<Rightarrow> if e = NodeExistsError then (Inr (), w1) else (Inl (ZkExn e), w1)
      | (Inr _, w1) \<Rightarrow> (Inr (), w1))"

fun create_leaves :: "'w kazoo \<Rightarrow> (string \<times> zdata) list \<Rightarrow> 'w \<Rightarrow> (coord_error + unit) \<times> 'w" where
  "create_leaves zk [] w = (Inr (), w)"
| "create_leaves zk ((p, d) # rest) w =
     (case create_if_absent zk p d w of
        (Inl e, w1) \<Rightarrow> (Inl e, w1)
      | (Inr _, w1) \<Rightarrow> create_leaves zk rest w1)"

definition initialise :: "'w kazoo \<Rightarrow> string \<Rightarrow> rat \<Rightarrow> 'w \<Rightarrow> (coord_error + unit) \<times> 'w" where
  "initialise zk zroot delay w =
     (case ensure_paths zk
        ([zroot, election_path zroot, config_path zroot, registry_path zroot]
         @ map (\<lambda>role. registry_path zroot @ ''/'' @ role) ROLES) w of
        (Inl e, w1) \<Rightarrow> (Inl e, w1)
      | (Inr _, w1) \<Rightarrow>
          create_leaves zk
            [(epoch_path zroot, Doc (JInt 0)),
             (worker_delay_path zroot, Doc (JFloat (Fin delay))),
             (snapshot_path zroot, Doc (JObj [(''epoch'', JNull)])),
             (flink_path zroot, Doc EMPTY_FLINK_RECORD)] w1)"

text \<open>
  \<open>wait_for_initialisation\<close>: at most \<open>retries\<close> looks at the tree. \<open>all(...)\<close> stops at
  the first path that is missing. The argument \<open>pause\<close> is what happens to the service
  while the process sleeps.
\<close>

fun all_exist :: "'w kazoo \<Rightarrow> string list \<Rightarrow> 'w \<Rightarrow> coord_error + bool" where
  "all_exist zk [] w = Inr True"
| "all_exist zk (p # ps) w =
     (case zexists zk w p of
        Inl e \<Rightarrow> Inl (ZkExn e)
      | Inr b \<Rightarrow> if b then all_exist zk ps w else Inr False)"

fun wait_for_initialisation ::
    "'w kazoo \<Rightarrow> string \<Rightarrow> nat \<Rightarrow> ('w \<Rightarrow> 'w) \<Rightarrow> 'w \<Rightarrow> (coord_error + unit) \<times> 'w" where
  "wait_for_initialisation zk zroot 0 pause w = (Inl CoordRuntimeError, w)"
| "wait_for_initialisation zk zroot (Suc retries) pause w =
     (case all_exist zk (persistent_paths zroot) w of
        Inl e \<Rightarrow> (Inl e, w)
      | Inr True \<Rightarrow> (Inr (), w)
      | Inr False \<Rightarrow> wait_for_initialisation zk zroot retries pause (pause w))"

section \<open>The epoch\<close>

text \<open>\<open>int(value or b"0")\<close>\<close>

fun epoch_value :: "zdata \<Rightarrow> int option" where
  "epoch_value NoData = Some 0"
| "epoch_value (Doc (JInt n)) = Some n"
| "epoch_value (Doc _) = None"

text \<open>
  \<open>claim_epoch\<close>, a compare-and-set loop. Between the read and the write of an iteration
  anything may happen to the service: the finite list \<open>env\<close> says what, one entry per iteration,
  and nothing once it is used up (what happens before the read is in the state it reads).
  \<open>None\<close> means the loop is still running when \<open>env\<close> has been used up; \<open>claim_epoch_returns\<close>
  shows that this does not happen while the interference keeps the epoch's version from falling.
\<close>

definition next_env :: "('w \<Rightarrow> 'w) list \<Rightarrow> 'w \<Rightarrow> 'w" where
  "next_env env w = (case env of [] \<Rightarrow> w | f # _ \<Rightarrow> f w)"

fun claim_epoch ::
    "'w kazoo \<Rightarrow> string \<Rightarrow> ('w \<Rightarrow> 'w) list \<Rightarrow> 'w \<Rightarrow> ((coord_error + int) \<times> 'w) option" where
  "claim_epoch zk zroot env w =
     (case zget zk w (epoch_path zroot) of
        Inl e \<Rightarrow> Some (Inl (ZkExn e), w)
      | Inr (value, version) \<Rightarrow>
          (case epoch_value value of
             None \<Rightarrow> Some (Inl ValueError, w)
           | Some current \<Rightarrow>
               (case zset zk (next_env env w) (epoch_path zroot) (Doc (JInt (current + 1))) (Some version) of
                  (Inr v, w1) \<Rightarrow> Some (Inr v, w1)
                | (Inl e, w1) \<Rightarrow>
                    if e = BadVersionError
                    then (case env of [] \<Rightarrow> None | _ # rest \<Rightarrow> claim_epoch zk zroot rest w1)
                    else Some (Inl (ZkExn e), w1))))"

declare claim_epoch.simps [simp del]

section \<open>Fenced writes\<close>

fun snapshot_outcome :: "zresult list \<Rightarrow> coord_error + unit" where
  "snapshot_outcome [] = Inr ()"
| "snapshot_outcome (Failed e # rs) = Inl (if e = BadVersionError then StaleLeader else ZkExn e)"
| "snapshot_outcome (_ # rs) = snapshot_outcome rs"

definition write_snapshot ::
    "'w kazoo \<Rightarrow> string \<Rightarrow> int \<Rightarrow> json \<Rightarrow> 'w \<Rightarrow> (coord_error + unit) \<times> 'w" where
  "write_snapshot zk zroot epoch_version payload w =
     (case zcommit zk w
        [CheckOp (epoch_path zroot) epoch_version, SetDataOp (snapshot_path zroot) (Doc payload) None] of
        (Inl e, w1) \<Rightarrow> (Inl (ZkExn e), w1)
      | (Inr results, w1) \<Rightarrow> (snapshot_outcome results, w1))"

definition flink_record_transaction :: "string \<Rightarrow> int \<Rightarrow> json \<Rightarrow> int \<Rightarrow> zop list" where
  "flink_record_transaction zroot epoch_version rec version =
     [CheckOp (epoch_path zroot) epoch_version,
      SetDataOp (flink_path zroot) (Doc rec) (Some version)]"

text \<open>
  \<open>flink_record_outcome\<close>. Unpacking anything but two results raises \<open>ValueError\<close>, and
  only a write's result has a version.
\<close>

fun flink_record_outcome :: "zresult list \<Rightarrow> coord_error + int" where
  "flink_record_outcome [epoch_result, record_result] =
     (if epoch_result = Failed BadVersionError then Inl StaleLeader
      else if record_result = Failed BadVersionError then Inl RecordChanged
      else case epoch_result of
        Failed e \<Rightarrow> Inl (ZkExn e)
      | _ \<Rightarrow>
          (case record_result of
             Failed e \<Rightarrow> Inl (ZkExn e)
           | Stat v \<Rightarrow> Inr v
           | Checked \<Rightarrow> Inl TypeError))"
| "flink_record_outcome _ = Inl ValueError"

definition write_flink_record ::
    "'w kazoo \<Rightarrow> string \<Rightarrow> int \<Rightarrow> json \<Rightarrow> int \<Rightarrow> 'w \<Rightarrow> (coord_error + int) \<times> 'w" where
  "write_flink_record zk zroot epoch_version rec version w =
     (case zcommit zk w (flink_record_transaction zroot epoch_version rec version) of
        (Inl e, w1) \<Rightarrow> (Inl (ZkExn e), w1)
      | (Inr results, w1) \<Rightarrow> (flink_record_outcome results, w1))"

section \<open>Reads\<close>

fun loads :: "zdata \<Rightarrow> json" where
  "loads NoData = JObj []"
| "loads (Doc j) = j"

definition read_document :: "'w kazoo \<Rightarrow> string \<Rightarrow> 'w \<Rightarrow> coord_error + json \<times> int" where
  "read_document zk p w =
     (case zget zk w p of
        Inl e \<Rightarrow> Inl (ZkExn e)
      | Inr (value, version) \<Rightarrow> Inr (loads value, version))"

definition read_snapshot :: "'w kazoo \<Rightarrow> string \<Rightarrow> 'w \<Rightarrow> coord_error + json \<times> int" where
  "read_snapshot zk zroot w = read_document zk (snapshot_path zroot) w"

definition read_flink_record :: "'w kazoo \<Rightarrow> string \<Rightarrow> 'w \<Rightarrow> coord_error + json \<times> int" where
  "read_flink_record zk zroot w = read_document zk (flink_path zroot) w"

section \<open>The leader's marker\<close>

definition leader_payload :: "string \<Rightarrow> int \<Rightarrow> string \<Rightarrow> json" where
  "leader_payload identity epoch_version since = JObj
     [(''identity'', JStr identity), (''epoch'', JInt epoch_version), (''since'', JStr since)]"

definition acknowledge_leadership ::
    "'w kazoo \<Rightarrow> string \<Rightarrow> string \<Rightarrow> int \<Rightarrow> string \<Rightarrow> 'w \<Rightarrow> (coord_error + unit) \<times> 'w" where
  "acknowledge_leadership zk zroot identity epoch_version since w =
     (case zcreate zk w (leader_path zroot) (Doc (leader_payload identity epoch_version since)) True False of
        (Inl e, w1) \<Rightarrow> (Inl (ZkExn e), w1)
      | (Inr _, w1) \<Rightarrow> (Inr (), w1))"

definition marker_is :: "json \<Rightarrow> string \<Rightarrow> int option \<Rightarrow> bool" where
  "marker_is marker identity epoch_version \<longleftrightarrow>
     jget marker ''identity'' = Some (JStr identity)
     \<and> (case epoch_version of None \<Rightarrow> True | Some e \<Rightarrow> jget marker ''epoch'' = Some (JInt e))"

definition release_leadership ::
    "'w kazoo \<Rightarrow> string \<Rightarrow> string \<Rightarrow> int option \<Rightarrow> ('w \<Rightarrow> 'w) \<Rightarrow> 'w \<Rightarrow> (coord_error + unit) \<times> 'w" where
  "release_leadership zk zroot identity epoch_version env w =
     (case zget zk w (leader_path zroot) of
        Inl e \<Rightarrow> if e = NoNodeError then (Inr (), w) else (Inl (ZkExn e), w)
      | Inr (value, version) \<Rightarrow>
          if \<not> marker_is (loads value) identity epoch_version then (Inr (), w)
          else
            (case zdelete zk (env w) (leader_path zroot) (Some version) of
               (Inr _, w1) \<Rightarrow> (Inr (), w1)
             | (Inl e, w1) \<Rightarrow>
                 if e = NoNodeError \<or> e = BadVersionError then (Inr (), w1) else (Inl (ZkExn e), w1)))"

definition read_leader :: "'w kazoo \<Rightarrow> string \<Rightarrow> 'w \<Rightarrow> coord_error + json option" where
  "read_leader zk zroot w =
     (case zget zk w (leader_path zroot) of
        Inl e \<Rightarrow> if e = NoNodeError then Inr None else Inl (ZkExn e)
      | Inr (NoData, _) \<Rightarrow> Inr None
      | Inr (Doc j, _) \<Rightarrow> Inr (Some j))"

section \<open>Registrations\<close>

text \<open>\<open>{**fields, **extra}\<close> and \<open>payload.update(extra)\<close>.\<close>

definition merge_fields :: "(string \<times> json) list \<Rightarrow> (string \<times> json) list \<Rightarrow> (string \<times> json) list" where
  "merge_fields base extra = foldl (\<lambda>d (k, v). AList.update k v d) base extra"

definition register ::
    "'w kazoo \<Rightarrow> string \<Rightarrow> string \<Rightarrow> string \<Rightarrow> (string \<times> json) list \<Rightarrow> string \<Rightarrow> 'w
      \<Rightarrow> (coord_error + string) \<times> 'w" where
  "register zk zroot role identity extra since w =
     (case zcreate zk w (registry_path zroot @ ''/'' @ role @ ''/'')
        (Doc (JObj (merge_fields [(''identity'', JStr identity), (''since'', JStr since)] extra))) True True of
        (Inl e, w1) \<Rightarrow> (Inl (ZkExn e), w1)
      | (Inr p, w1) \<Rightarrow> (Inr p, w1))"

definition update_registration ::
    "'w kazoo \<Rightarrow> string \<Rightarrow> (string \<times> json) list \<Rightarrow> 'w \<Rightarrow> (coord_error + unit) \<times> 'w" where
  "update_registration zk p extra w =
     (case zget zk w p of
        Inl e \<Rightarrow> if e = NoNodeError then (Inr (), w) else (Inl (ZkExn e), w)
      | Inr (value, _) \<Rightarrow>
          (case loads value of
             JObj payload \<Rightarrow>
               (case zset zk w p (Doc (JObj (merge_fields payload extra))) None of
                  (Inl e, w1) \<Rightarrow> (Inl (ZkExn e), w1)
                | (Inr _, w1) \<Rightarrow> (Inr (), w1))
           | _ \<Rightarrow> (Inl TypeError, w)))"

fun read_children :: "'w kazoo \<Rightarrow> string \<Rightarrow> string list \<Rightarrow> 'w \<Rightarrow> coord_error + json list" where
  "read_children zk base [] w = Inr []"
| "read_children zk base (child # rest) w =
     (case zget zk w (base @ ''/'' @ child) of
        Inl e \<Rightarrow> if e = NoNodeError then read_children zk base rest w else Inl (ZkExn e)
      | Inr (NoData, _) \<Rightarrow> read_children zk base rest w
      | Inr (Doc j, _) \<Rightarrow>
          (case read_children zk base rest w of Inl e \<Rightarrow> Inl e | Inr js \<Rightarrow> Inr (j # js)))"

definition registrations :: "'w kazoo \<Rightarrow> string \<Rightarrow> string \<Rightarrow> 'w \<Rightarrow> coord_error + json list" where
  "registrations zk zroot role w =
     (let base = registry_path zroot @ ''/'' @ role in
      case zexists zk w base of
        Inl e \<Rightarrow> Inl (ZkExn e)
      | Inr False \<Rightarrow> Inr []
      | Inr True \<Rightarrow>
          (case zchildren zk w base of
             Inl e \<Rightarrow> Inl (ZkExn e)
           | Inr children \<Rightarrow> read_children zk base children w))"

section \<open>Leadership\<close>

datatype kazoo_state = CONNECTED | SUSPENDED | LOST

record leadership =
  connected :: bool
  tenure_void :: bool

definition new_leadership :: leadership where
  "new_leadership = \<lparr>connected = True, tenure_void = False\<rparr>"

definition begin_tenure :: "leadership \<Rightarrow> bool \<times> leadership" where
  "begin_tenure l = (if \<not> connected l then (False, l) else (True, l\<lparr>tenure_void := False\<rparr>))"

fun on_state :: "leadership \<Rightarrow> kazoo_state \<Rightarrow> leadership" where
  "on_state l SUSPENDED = l\<lparr>connected := False\<rparr>"
| "on_state l LOST = l\<lparr>connected := False, tenure_void := True\<rparr>"
| "on_state l CONNECTED = l\<lparr>connected := True\<rparr>"

definition may_work :: "leadership \<Rightarrow> bool" where
  "may_work l \<longleftrightarrow> connected l \<and> \<not> tenure_void l"

section \<open>What may happen to the service\<close>

text \<open>The epoch as the service holds it: present, connected, and a number.\<close>

definition epoch_ok :: "('w \<Rightarrow> ztree) \<Rightarrow> ('w \<Rightarrow> bool) \<Rightarrow> string \<Rightarrow> 'w \<Rightarrow> bool" where
  "epoch_ok tree live zroot w \<longleftrightarrow>
     live w \<and> (\<exists>n k. tree w (epoch_path zroot) = Some n \<and> epoch_value (zdata n) = Some k)"

definition epoch_version :: "('w \<Rightarrow> ztree) \<Rightarrow> string \<Rightarrow> 'w \<Rightarrow> int" where
  "epoch_version tree zroot w = (case tree w (epoch_path zroot) of None \<Rightarrow> -1 | Some n \<Rightarrow> zversion n)"

text \<open>The epoch a snapshot carries: the token it was written with, if any.\<close>

definition snapshot_epoch :: "('w \<Rightarrow> ztree) \<Rightarrow> string \<Rightarrow> 'w \<Rightarrow> int option" where
  "snapshot_epoch tree zroot w =
     (case tree w (snapshot_path zroot) of
        None \<Rightarrow> None
      | Some n \<Rightarrow> (case jget (loads (zdata n)) ''epoch'' of Some (JInt e) \<Rightarrow> Some e | _ \<Rightarrow> None))"

text \<open>
  One write of any process of the deployment, in any order: a compare-and-set of the epoch,
  a fenced snapshot carrying its token, a fenced record, a marker created or deleted, a
  registration created, updated or removed, a published setting.
\<close>

inductive service_step :: "'w kazoo \<Rightarrow> string \<Rightarrow> 'w \<Rightarrow> 'w \<Rightarrow> bool" for zk zroot where
  epoch_cas: "zset zk w (epoch_path zroot) (Doc (JInt k)) (Some v) = (r, w') \<Longrightarrow> service_step zk zroot w w'"
| snapshot_write: "write_snapshot zk zroot e payload w = (r, w') \<Longrightarrow> jget payload ''epoch'' = Some (JInt e)
    \<Longrightarrow> service_step zk zroot w w'"
| record_write: "write_flink_record zk zroot e rec v w = (r, w') \<Longrightarrow> service_step zk zroot w w'"
| marker_create: "acknowledge_leadership zk zroot i e since w = (r, w') \<Longrightarrow> service_step zk zroot w w'"
| marker_delete: "zdelete zk w (leader_path zroot) (Some v) = (r, w') \<Longrightarrow> service_step zk zroot w w'"
| registration: "register zk zroot role i extra since w = (Inr p, w') \<Longrightarrow> service_step zk zroot w w'"
| registration_set: "zset zk w (registry_path zroot @ q) d None = (r, w') \<Longrightarrow> service_step zk zroot w w'"
| registration_delete: "zdelete zk w (registry_path zroot @ q) v = (r, w') \<Longrightarrow> service_step zk zroot w w'"
| config_set: "zset zk w (worker_delay_path zroot) d None = (r, w') \<Longrightarrow> service_step zk zroot w w'"

inductive_cases service_stepE: "service_step zk zroot w w'"

section \<open>Lemmas\<close>

lemma paths_differ [simp]:
  "epoch_path r \<noteq> snapshot_path r" "epoch_path r \<noteq> flink_path r" "epoch_path r \<noteq> leader_path r"
  "epoch_path r \<noteq> worker_delay_path r" "epoch_path r \<noteq> registry_path r @ q"
  "snapshot_path r \<noteq> epoch_path r" "snapshot_path r \<noteq> flink_path r" "snapshot_path r \<noteq> leader_path r"
  "snapshot_path r \<noteq> worker_delay_path r" "snapshot_path r \<noteq> registry_path r @ q"
  "flink_path r \<noteq> epoch_path r" "leader_path r \<noteq> epoch_path r" "worker_delay_path r \<noteq> epoch_path r"
  "registry_path r @ q \<noteq> epoch_path r" "flink_path r \<noteq> snapshot_path r" "leader_path r \<noteq> snapshot_path r"
  "worker_delay_path r \<noteq> snapshot_path r" "registry_path r @ q \<noteq> snapshot_path r"
  by (auto simp: path_defs)

lemma failed_results_two [simp]:
  "failed_results (Suc (Suc 0)) 0 e = [Failed e, Failed RolledBackError]"
  "failed_results (Suc (Suc 0)) (Suc 0) e = [Failed RolledBackError, Failed e]"
  by (simp_all add: failed_results_def)

context zookeeper
begin

text \<open>The fence on the snapshot: accepted exactly under the current epoch.\<close>

lemma write_snapshot_outcome:
  assumes "live w" and "tree w (epoch_path zroot) = Some n" and "tree w (snapshot_path zroot) = Some s"
    and "write_snapshot zk zroot e payload w = (r, w')"
  shows "live w' \<and>
    (if zversion n = e
     then r = Inr () \<and> tree w' = (tree w)(snapshot_path zroot \<mapsto>
            s\<lparr>zdata := Doc payload, zversion := zversion s + 1\<rparr>)
     else r = Inl StaleLeader \<and> tree w' = tree w)"
proof -
  let ?ops = "[CheckOp (epoch_path zroot) e, SetDataOp (snapshot_path zroot) (Doc payload) None]"
  obtain res w1 where c: "zcommit zk w ?ops = (res, w1)" by (cases "zcommit zk w ?ops")
  from commit_law [OF assms(1) c] assms show ?thesis
    by (auto simp: write_snapshot_def c split: if_splits)
qed

lemma write_flink_record_outcome:
  assumes "live w" and "tree w (epoch_path zroot) = Some n" and "tree w (flink_path zroot) = Some f"
    and "write_flink_record zk zroot e rec v w = (r, w')"
  shows "live w' \<and>
    (if zversion n \<noteq> e then r = Inl StaleLeader \<and> tree w' = tree w
     else if zversion f \<noteq> v then r = Inl RecordChanged \<and> tree w' = tree w
     else r = Inr (v + 1) \<and> tree w' = (tree w)(flink_path zroot \<mapsto>
            f\<lparr>zdata := Doc rec, zversion := v + 1\<rparr>))"
proof -
  let ?ops = "flink_record_transaction zroot e rec v"
  obtain res w1 where c: "zcommit zk w ?ops = (res, w1)" by (cases "zcommit zk w ?ops")
  from assms(4) c have w': "w' = w1"
    and r: "r = (case res of Inl e \<Rightarrow> Inl (ZkExn e) | Inr results \<Rightarrow> flink_record_outcome results)"
    by (auto simp: write_flink_record_def split: sum.splits)
  from commit_law [OF assms(1) c] assms(2,3) show ?thesis
    by (auto simp: r w' flink_record_transaction_def split: if_splits)
qed

text \<open>Every write that is not the epoch's leaves it alone; the snapshot changes under the epoch only.\<close>

lemma commit_epoch_kept:
  assumes "live w" and "zcommit zk w [CheckOp (epoch_path zroot) e, SetDataOp q d ver] = (r, w')"
    and "q \<noteq> epoch_path zroot"
  shows "live w' \<and> tree w' (epoch_path zroot) = tree w (epoch_path zroot) \<and>
    (tree w' = tree w \<or> (epoch_version tree zroot w = e \<and> (\<exists>n. tree w q = Some n \<and>
       tree w' = (tree w)(q \<mapsto> n\<lparr>zdata := d, zversion := zversion n + 1\<rparr>))))"
  using commit_law [OF assms(1,2)] assms(3)
  by (auto simp: epoch_version_def split: option.splits if_splits)

lemma set_other:
  assumes "live w" and "zset zk w p d ver = (r, w')" and "q \<noteq> p"
  shows "live w' \<and> tree w' q = tree w q"
  using set_law [OF assms(1,2)] assms(3)
  by (auto split: option.splits if_splits)

lemma delete_other:
  assumes "live w" and "zdelete zk w p ver = (r, w')" and "q \<noteq> p"
  shows "live w' \<and> tree w' q = tree w q"
  using delete_law [OF assms(1,2)] assms(3)
  by (auto split: option.splits if_splits)

lemma create_other:
  assumes "live w" and "zcreate zk w p d eph False = (r, w')" and "q \<noteq> p"
  shows "live w' \<and> tree w' q = tree w q"
  using create_law [OF assms(1,2)] assms(3) by (auto split: if_splits)

lemma register_other:
  assumes "live w" and "register zk zroot role i extra since w = (Inr p, w')"
    and "\<And>s. q \<noteq> registry_path zroot @ s"
  shows "live w' \<and> tree w' q = tree w q"
proof -
  let ?d = "Doc (JObj (merge_fields [(''identity'', JStr i), (''since'', JStr since)] extra))"
  from assms(2) have c: "zcreate zk w (registry_path zroot @ ''/'' @ role @ ''/'') ?d True True = (Inr p, w')"
    by (auto simp: register_def split: prod.splits sum.splits)
  from sequence_law [OF assms(1) c] assms(3) show ?thesis by auto
qed

lemma acknowledge_other:
  assumes "live w" and "acknowledge_leadership zk zroot i e since w = (r, w')" and "q \<noteq> leader_path zroot"
  shows "live w' \<and> tree w' q = tree w q"
proof -
  obtain r1 where "zcreate zk w (leader_path zroot) (Doc (leader_payload i e since)) True False = (r1, w')"
    using assms(2) by (auto simp: acknowledge_leadership_def split: prod.splits sum.splits)
  from create_other [OF assms(1) this assms(3)] show ?thesis .
qed

text \<open>A compare-and-set of the epoch counts it up by one, or leaves it.\<close>

lemma epoch_cas_effect:
  assumes "epoch_ok tree live zroot w"
    and "zset zk w (epoch_path zroot) (Doc (JInt k)) (Some v) = (r, w')"
  shows "epoch_ok tree live zroot w'"
    and "epoch_version tree zroot w' = epoch_version tree zroot w + (if v = epoch_version tree zroot w then 1 else 0)"
    and "tree w' (snapshot_path zroot) = tree w (snapshot_path zroot)"
proof -
  from assms(1) obtain n j where w: "live w" "tree w (epoch_path zroot) = Some n" "epoch_value (zdata n) = Some j"
    by (auto simp: epoch_ok_def)
  from set_versioned [OF w(1,2) assms(2)] w
  show "epoch_ok tree live zroot w'"
    and "epoch_version tree zroot w' = epoch_version tree zroot w + (if v = epoch_version tree zroot w then 1 else 0)"
    and "tree w' (snapshot_path zroot) = tree w (snapshot_path zroot)"
    by (cases "v = zversion n"; simp add: epoch_ok_def epoch_version_def)+
qed

lemma unchanged_epoch:
  assumes "epoch_ok tree live zroot w" and "live w'"
    and "tree w' (epoch_path zroot) = tree w (epoch_path zroot)"
  shows "epoch_ok tree live zroot w' \<and> epoch_version tree zroot w' = epoch_version tree zroot w"
  using assms by (auto simp: epoch_ok_def epoch_version_def)

lemma step_epoch_or_quiet:
  assumes "service_step zk zroot w w'" and "epoch_ok tree live zroot w"
  shows "epoch_ok tree live zroot w' \<and> epoch_version tree zroot w \<le> epoch_version tree zroot w'
    \<and> (snapshot_epoch tree zroot w' = snapshot_epoch tree zroot w
       \<or> snapshot_epoch tree zroot w' = Some (epoch_version tree zroot w))"
proof -
  have lw: "live w" using assms(2) by (simp add: epoch_ok_def)
  have quiet: ?thesis
    if "live w'" "tree w' (epoch_path zroot) = tree w (epoch_path zroot)"
      "tree w' (snapshot_path zroot) = tree w (snapshot_path zroot)"
    using unchanged_epoch [OF assms(2) that(1,2)] that(3) by (simp add: snapshot_epoch_def)
  from assms(1) show ?thesis
  proof (cases rule: service_step.cases)
    case (epoch_cas k v r)
    from epoch_cas_effect [OF assms(2) epoch_cas] show ?thesis by (auto simp: snapshot_epoch_def)
  next
    case (snapshot_write e payload r)
    let ?ops = "[CheckOp (epoch_path zroot) e, SetDataOp (snapshot_path zroot) (Doc payload) None]"
    obtain res where c: "zcommit zk w ?ops = (res, w')"
      using snapshot_write(1) by (auto simp: write_snapshot_def split: prod.splits sum.splits)
    from commit_epoch_kept [OF lw c] have kept: "live w'" "tree w' (epoch_path zroot) = tree w (epoch_path zroot)"
      and change: "tree w' = tree w \<or> (epoch_version tree zroot w = e \<and> (\<exists>n. tree w (snapshot_path zroot) = Some n \<and>
         tree w' = (tree w)(snapshot_path zroot \<mapsto> n\<lparr>zdata := Doc payload, zversion := zversion n + 1\<rparr>)))"
      by auto
    from change snapshot_write(2) unchanged_epoch [OF assms(2) kept] show ?thesis
      by (auto simp: snapshot_epoch_def)
  next
    case (record_write e rec v r)
    obtain res where c: "zcommit zk w [CheckOp (epoch_path zroot) e, SetDataOp (flink_path zroot) (Doc rec) (Some v)] = (res, w')"
      using record_write by (auto simp: write_flink_record_def flink_record_transaction_def split: prod.splits sum.splits)
    from commit_epoch_kept [OF lw c] show ?thesis by (intro quiet) auto
  next
    case (marker_create i e since r)
    then show ?thesis
      using acknowledge_other [OF lw marker_create] by (intro quiet) auto
  next
    case (marker_delete v r)
    then show ?thesis using delete_other [OF lw marker_delete] by (intro quiet) auto
  next
    case (registration role i extra since p)
    then show ?thesis
      using register_other [OF lw registration, of "epoch_path zroot"]
        register_other [OF lw registration, of "snapshot_path zroot"] by (intro quiet) auto
  next
    case (registration_set q d r)
    then show ?thesis using set_other [OF lw registration_set] by (intro quiet) auto
  next
    case (registration_delete q v r)
    then show ?thesis using delete_other [OF lw registration_delete] by (intro quiet) auto
  next
    case (config_set d r)
    then show ?thesis using set_other [OF lw config_set] by (intro quiet) auto
  qed
qed

lemma steps_epoch_monotonic:
  assumes "(service_step zk zroot)\<^sup>*\<^sup>* w w'" and "epoch_ok tree live zroot w"
  shows "epoch_ok tree live zroot w' \<and> epoch_version tree zroot w \<le> epoch_version tree zroot w'"
  using assms
proof (induction rule: rtranclp_induct)
  case (step y z)
  with step_epoch_or_quiet [of zroot y z] show ?case by force
qed simp

text \<open>One iteration of the claim, against a service that answers.\<close>

lemma claim_epoch_unfold:
  assumes "live w" and "tree w (epoch_path zroot) = Some n" and "epoch_value (zdata n) = Some k"
    and "zset zk (next_env env w) (epoch_path zroot) (Doc (JInt (k + 1))) (Some (zversion n)) = (r, w1)"
  shows "claim_epoch zk zroot env w =
      (case r of
         Inr v \<Rightarrow> Some (Inr v, w1)
       | Inl e \<Rightarrow>
           if e = BadVersionError
           then (case env of [] \<Rightarrow> None | _ # rest \<Rightarrow> claim_epoch zk zroot rest w1)
           else Some (Inl (ZkExn e), w1))"
  using assms by (subst claim_epoch.simps) (simp add: get_law)

lemma claim_epoch_correct:
  assumes "epoch_ok tree live zroot w"
    and "\<And>f u. f \<in> set env \<Longrightarrow> epoch_ok tree live zroot u \<Longrightarrow>
      epoch_ok tree live zroot (f u) \<and> epoch_version tree zroot u \<le> epoch_version tree zroot (f u)"
  shows "\<exists>v w'. claim_epoch zk zroot env w = Some (Inr v, w') \<and> epoch_ok tree live zroot w'
    \<and> epoch_version tree zroot w' = v \<and> epoch_version tree zroot w < v"
  using assms
proof (induction env arbitrary: w)
  case Nil
  from Nil.prems(1) obtain n k where n: "live w" "tree w (epoch_path zroot) = Some n" "epoch_value (zdata n) = Some k"
    by (auto simp: epoch_ok_def)
  obtain r w1 where set: "zset zk w (epoch_path zroot) (Doc (JInt (k + 1))) (Some (zversion n)) = (r, w1)"
    by fastforce
  from claim_epoch_unfold [OF n, of "[]"] set set_versioned [OF n(1,2) set]
    epoch_cas_effect [OF Nil.prems(1) set] n
  show ?case by (simp add: next_env_def epoch_version_def)
next
  case (Cons f env)
  from Cons.prems(1) obtain n k where n: "live w" "tree w (epoch_path zroot) = Some n" "epoch_value (zdata n) = Some k"
    by (auto simp: epoch_ok_def)
  obtain r w1 where set: "zset zk (f w) (epoch_path zroot) (Doc (JInt (k + 1))) (Some (zversion n)) = (r, w1)"
    by fastforce
  note eq = claim_epoch_unfold [OF n, of "f # env", unfolded next_env_def list.case, OF set]
  have f: "epoch_ok tree live zroot (f w)" "epoch_version tree zroot w \<le> epoch_version tree zroot (f w)"
    using Cons.prems by auto
  then obtain m where m: "live (f w)" "tree (f w) (epoch_path zroot) = Some m" by (auto simp: epoch_ok_def)
  note effect = epoch_cas_effect [OF f(1) set] and at = set_versioned [OF m set]
  have ver: "epoch_version tree zroot w = zversion n" "epoch_version tree zroot (f w) = zversion m"
    using n m by (simp_all add: epoch_version_def)
  show ?case
  proof (cases "zversion n = zversion m")
    case True
    with at(2) effect f(2) ver eq set show ?thesis by simp
  next
    case False
    have "\<exists>v w'. claim_epoch zk zroot env w1 = Some (Inr v, w') \<and> epoch_ok tree live zroot w'
      \<and> epoch_version tree zroot w' = v \<and> epoch_version tree zroot w1 < v"
      using Cons.prems(2) effect(1) by (intro Cons.IH) auto
    with False at(3) effect f(2) ver eq set show ?thesis by force
  qed
qed

lemma ensure_paths_effect:
  assumes "live w" and "ensure_paths zk ps w = (r, w')"
  shows "live w' \<and> r = Inr () \<and> (\<forall>p \<in> set ps. tree w' p \<noteq> None)
    \<and> (\<forall>q. tree w q \<noteq> None \<longrightarrow> tree w' q = tree w q)"
  using assms
proof (induction ps arbitrary: w)
  case (Cons p ps)
  obtain r1 w1 where e: "zensure zk w p = (r1, w1)" by fastforce
  from ensure_law [OF Cons.prems(1) e] have 1: "live w1" "r1 = Inr ()" "tree w1 p \<noteq> None"
    "\<forall>q. tree w q \<noteq> None \<longrightarrow> tree w1 q = tree w q" by auto
  with Cons.IH [OF 1(1)] Cons.prems(2) e have
    "live w' \<and> r = Inr () \<and> (\<forall>p \<in> set ps. tree w' p \<noteq> None)
      \<and> (\<forall>q. tree w1 q \<noteq> None \<longrightarrow> tree w' q = tree w1 q)"
    by simp
  with 1 show ?case by (metis set_ConsD)
qed simp

lemma create_leaves_effect:
  assumes "live w" and "create_leaves zk leaves w = (r, w')"
    and "\<forall>x \<in> set leaves. has_parent (tree w) (fst x)"
  shows "live w' \<and> r = Inr () \<and> (\<forall>x \<in> set leaves. tree w' (fst x) \<noteq> None)
    \<and> (\<forall>q. tree w q \<noteq> None \<longrightarrow> tree w' q = tree w q)"
  using assms
proof (induction leaves arbitrary: w)
  case (Cons x leaves)
  obtain p d where x: "x = (p, d)" by (cases x)
  obtain r1 w1 where c: "zcreate zk w p d False False = (r1, w1)" by fastforce
  have parent: "has_parent (tree w) p" using Cons.prems(3) x by auto
  from create_law [OF Cons.prems(1) c] parent
  have 1: "live w1" "tree w1 p \<noteq> None" "\<forall>q. tree w q \<noteq> None \<longrightarrow> tree w1 q = tree w q"
    and r1: "r1 = Inl NodeExistsError \<or> r1 = Inr p"
    by (auto split: if_splits)
  have "\<forall>y \<in> set leaves. has_parent (tree w1) (fst y)"
    using Cons.prems(3) 1(3) by (force simp: has_parent_def)
  moreover have "create_leaves zk leaves w1 = (r, w')"
    using Cons.prems(2) r1 by (auto simp: x create_if_absent_def c)
  ultimately have
    "live w' \<and> r = Inr () \<and> (\<forall>y \<in> set leaves. tree w' (fst y) \<noteq> None)
      \<and> (\<forall>q. tree w1 q \<noteq> None \<longrightarrow> tree w' q = tree w1 q)"
    using Cons.IH [OF 1(1)] by blast
  with 1 show ?case by (simp add: x)
qed simp

lemma initialise_effect:
  assumes "live w" and "initialise zk zroot delay w = (r, w')"
  shows "live w' \<and> r = Inr () \<and> (\<forall>p \<in> set (persistent_paths zroot). tree w' p \<noteq> None)
    \<and> (\<forall>q. tree w q \<noteq> None \<longrightarrow> tree w' q = tree w q)"
proof -
  let ?parents = "[zroot, election_path zroot, config_path zroot, registry_path zroot]
         @ map (\<lambda>role. registry_path zroot @ ''/'' @ role) ROLES"
  let ?leaves = "[(epoch_path zroot, Doc (JInt 0)),
             (worker_delay_path zroot, Doc (JFloat (Fin delay))),
             (snapshot_path zroot, Doc (JObj [(''epoch'', JNull)])),
             (flink_path zroot, Doc EMPTY_FLINK_RECORD)]"
  obtain r1 w1 where e: "ensure_paths zk ?parents w = (r1, w1)" by fastforce
  from ensure_paths_effect [OF assms(1) e] have 1: "live w1" "r1 = Inr ()"
    "\<forall>p \<in> set ?parents. tree w1 p \<noteq> None" "\<forall>q. tree w q \<noteq> None \<longrightarrow> tree w1 q = tree w q" by blast+
  have parent: "parent_path (epoch_path zroot) = zroot" "parent_path (snapshot_path zroot) = zroot"
    "parent_path (flink_path zroot) = zroot" "parent_path (worker_delay_path zroot) = config_path zroot"
    by (simp_all add: parent_path_def path_defs)
  have c: "create_leaves zk ?leaves w1 = (r, w')"
    using assms(2) unfolding initialise_def e 1(2) by simp
  have "\<forall>x \<in> set ?leaves. has_parent (tree w1) (fst x)"
    using 1(3) by (simp add: has_parent_def parent)
  from create_leaves_effect [OF 1(1) c this] have 2: "live w'" "r = Inr ()"
    "\<forall>x \<in> set ?leaves. tree w' (fst x) \<noteq> None" "\<forall>q. tree w1 q \<noteq> None \<longrightarrow> tree w' q = tree w1 q" by blast+
  from 1 2 show ?thesis by (auto simp: persistent_paths_def)
qed

lemma all_exist_iff:
  "live w \<Longrightarrow> all_exist zk ps w = Inr (\<forall>p \<in> set ps. tree w p \<noteq> None)"
  by (induction ps) (auto simp: exists_law)

lemma steps_snapshot_monotonic:
  assumes "(service_step zk zroot)\<^sup>*\<^sup>* w w'" and "epoch_ok tree live zroot w"
    and "snapshot_epoch tree zroot w = Some a" and "a \<le> epoch_version tree zroot w"
  shows "\<exists>b. snapshot_epoch tree zroot w' = Some b \<and> a \<le> b \<and> b \<le> epoch_version tree zroot w'"
  using assms
proof (induction rule: rtranclp_induct)
  case (step y z)
  from steps_epoch_monotonic [OF step.hyps(1) step.prems(1)]
  have y: "epoch_ok tree live zroot y" "epoch_version tree zroot w \<le> epoch_version tree zroot y" by auto
  from step.IH step.prems obtain b where
    b: "snapshot_epoch tree zroot y = Some b" "a \<le> b" "b \<le> epoch_version tree zroot y" by blast
  from step_epoch_or_quiet [OF step.hyps(2) y(1)] b y(2) step.prems(3) show ?case by force
qed blast

lemma acknowledge_outcome:
  assumes "live w" and "acknowledge_leadership zk zroot i e since w = (r, w')"
  shows "if tree w (leader_path zroot) \<noteq> None
    then r = Inl (ZkExn NodeExistsError) \<and> tree w' = tree w
    else has_parent (tree w) (leader_path zroot) \<longrightarrow>
      r = Inr () \<and> tree w' = (tree w)(leader_path zroot \<mapsto>
        \<lparr>zdata = Doc (leader_payload i e since), zversion = 0, zephemeral = True\<rparr>)"
proof -
  obtain r1 w1 where c: "zcreate zk w (leader_path zroot) (Doc (leader_payload i e since)) True False = (r1, w1)"
    by fastforce
  from create_law [OF assms(1) c] assms(2) show ?thesis
    by (auto simp: acknowledge_leadership_def c split: if_splits sum.splits)
qed

lemma release_outcome:
  assumes "live w" and "release_leadership zk zroot i (Some e) (\<lambda>u. u) w = (r, w')"
  shows "r = Inr () \<and>
    (case tree w (leader_path zroot) of
       None \<Rightarrow> tree w' = tree w
     | Some n \<Rightarrow> if marker_is (loads (zdata n)) i (Some e) then tree w' = (tree w)(leader_path zroot := None)
               else tree w' = tree w)"
proof (cases "tree w (leader_path zroot)")
  case None
  with assms show ?thesis by (simp add: release_leadership_def get_law)
next
  case (Some n)
  obtain r1 w1 where d: "zdelete zk w (leader_path zroot) (Some (zversion n)) = (r1, w1)" by fastforce
  from delete_law [OF assms(1) d] Some assms show ?thesis
    by (auto simp: release_leadership_def get_law d split: if_splits)
qed

end

section \<open>Properties\<close>

text \<open>
  C18. Claiming an epoch terminates and yields a fresh token, under finite interference: other
  processes act between the read and the write of an iteration, finitely often (each entry of
  \<open>env\<close> once), and keep the session alive, the epoch a number and its version from falling. Then
  the loop returns, no later than one iteration after the interference has ended, and the token it
  returns is the epoch's version then and exceeds the version it started from. A lost session
  raises instead, and interference without an end need not let the loop return.
\<close>

theorem claim_epoch_returns:
  assumes "zookeeper zk tree live" and "epoch_ok tree live zroot w"
    and "\<forall>f \<in> set env. \<forall>u. epoch_ok tree live zroot u \<longrightarrow>
      epoch_ok tree live zroot (f u) \<and> epoch_version tree zroot u \<le> epoch_version tree zroot (f u)"
  shows "\<exists>token w'. claim_epoch zk zroot env w = Some (Inr token, w') \<and> epoch_ok tree live zroot w'
    \<and> epoch_version tree zroot w' = token \<and> epoch_version tree zroot w < token"
  using assms(3) by (intro zookeeper.claim_epoch_correct [OF assms(1,2)]) blast

text \<open>
  Two coordinators never share a token: a claim after any writes of the deployment that
  follow an earlier claim returns a larger token.
\<close>

theorem claims_never_share_a_token:
  assumes "zookeeper zk tree live" and "epoch_ok tree live zroot w"
    and "claim_epoch zk zroot [] w = Some (Inr token1, w1)"
    and "(service_step zk zroot)\<^sup>*\<^sup>* w1 w2"
    and "claim_epoch zk zroot [] w2 = Some (Inr token2, w3)"
  shows "token1 < token2"
proof -
  have w1: "epoch_ok tree live zroot w1" "epoch_version tree zroot w1 = token1"
    using zookeeper.claim_epoch_correct [OF assms(1,2), of "[]"] assms(3) by auto
  from zookeeper.steps_epoch_monotonic [OF assms(1,4) w1(1)]
  have w2: "epoch_ok tree live zroot w2" "token1 \<le> epoch_version tree zroot w2" using w1(2) by auto
  from zookeeper.claim_epoch_correct [OF assms(1) w2(1), of "[]"] assms(5) w2(2) show ?thesis by auto
qed

text \<open>
  C13. A deposed leader's snapshot is refused for ever: once the epoch's version has passed a
  token, then after any further writes of the deployment a snapshot under that token is
  rejected as stale and changes nothing.
\<close>

theorem deposed_leader_is_fenced:
  assumes "zookeeper zk tree live" and "epoch_ok tree live zroot w" and "token < epoch_version tree zroot w"
    and "(service_step zk zroot)\<^sup>*\<^sup>* w w1" and "tree w1 (snapshot_path zroot) \<noteq> None"
    and "write_snapshot zk zroot token payload w1 = (r, w2)"
  shows "r = Inl StaleLeader \<and> tree w2 = tree w1"
proof -
  from zookeeper.steps_epoch_monotonic [OF assms(1,4,2)] assms(3)
  have w1: "epoch_ok tree live zroot w1" "token < epoch_version tree zroot w1" by auto
  then obtain n s where "live w1" "tree w1 (epoch_path zroot) = Some n" "tree w1 (snapshot_path zroot) = Some s"
    using assms(5) by (auto simp: epoch_ok_def)
  from zookeeper.write_snapshot_outcome [OF assms(1) this assms(6)] w1(2) this(2) show ?thesis
    by (simp add: epoch_version_def)
qed

text \<open>
  The keeper's record is fenced twice: a write is rejected as stale under another epoch,
  as changed when the record's version has moved, and otherwise replaces the record and
  returns its next version; a rejected write changes nothing.
\<close>

theorem flink_record_fenced_twice:
  assumes "zookeeper zk tree live" and "live w"
    and "tree w (epoch_path zroot) = Some n" and "tree w (flink_path zroot) = Some f"
    and "write_flink_record zk zroot e rec v w = (r, w')"
  shows "if zversion n \<noteq> e then r = Inl StaleLeader \<and> tree w' = tree w
    else if zversion f \<noteq> v then r = Inl RecordChanged \<and> tree w' = tree w
    else r = Inr (v + 1)
      \<and> tree w' = (tree w)(flink_path zroot \<mapsto> f\<lparr>zdata := Doc rec, zversion := v + 1\<rparr>)"
  using zookeeper.write_flink_record_outcome [OF assms] by auto

text \<open>
  The snapshot never moves back: along any writes of the deployment the epoch a snapshot
  was written under never decreases, and never exceeds the current one.
\<close>

theorem snapshot_epoch_never_moves_back:
  assumes "zookeeper zk tree live" and "epoch_ok tree live zroot w"
    and "snapshot_epoch tree zroot w = Some a" and "a \<le> epoch_version tree zroot w"
    and "(service_step zk zroot)\<^sup>*\<^sup>* w w'"
  shows "\<exists>b. snapshot_epoch tree zroot w' = Some b \<and> a \<le> b \<and> b \<le> epoch_version tree zroot w'"
  by (rule zookeeper.steps_snapshot_monotonic [OF assms(1,5,2,3,4)])

text \<open>
  Initialisation completes the tree and resets nothing: it succeeds, every persistent path
  exists afterwards, every node that existed before is unchanged (the epoch and the live
  configuration with it), and waiting for the tree then returns at once.
\<close>

theorem initialise_never_resets:
  assumes "zookeeper zk tree live" and "live w" and "initialise zk zroot delay w = (r, w')"
  shows "r = Inr () \<and> (\<forall>q. tree w q \<noteq> None \<longrightarrow> tree w' q = tree w q)
    \<and> wait_for_initialisation zk zroot (Suc k) pause w' = (Inr (), w')"
  using zookeeper.initialise_effect [OF assms] zookeeper.all_exist_iff [OF assms(1)]
  by auto

text \<open>
  The marker has one owner at a time: acknowledging is refused while a marker exists and
  leaves it alone, and releasing (with nothing happening in between) deletes exactly the
  marker of this identity and epoch.
\<close>

theorem leader_marker_ownership:
  assumes "zookeeper zk tree live" and "live w" and "tree w (leader_path zroot) = Some n"
    and "acknowledge_leadership zk zroot i e since w = (ra, wa)"
    and "release_leadership zk zroot i (Some e) (\<lambda>u. u) w = (rr, wr)"
  shows "ra = Inl (ZkExn NodeExistsError) \<and> tree wa = tree w
    \<and> tree wr = (if marker_is (loads (zdata n)) i (Some e) then (tree w)(leader_path zroot := None) else tree w)"
  using zookeeper.acknowledge_outcome [OF assms(1,2,4)] zookeeper.release_outcome [OF assms(1,2,5)] assms(3)
  by auto

text \<open>
  C23. A replacement marker is protected by its version only: if between the read and the delete
  of a release the leader's marker was replaced by a node of the same version, the release
  deletes the replacement, whoever owns it. A marker is created and never set, so its version
  is 0 like its predecessor's.
\<close>

theorem release_deletes_same_version_replacement:
  assumes "zookeeper zk tree live" and "live w" and "tree w (leader_path zroot) = Some n"
    and "marker_is (loads (zdata n)) i (Some e)"
    and "live (env w)" and "tree (env w) (leader_path zroot) = Some n'" and "zversion n' = zversion n"
    and "release_leadership zk zroot i (Some e) env w = (r, w')"
  shows "r = Inr () \<and> tree w' (leader_path zroot) = None"
proof -
  obtain r1 w1 where d: "zdelete zk (env w) (leader_path zroot) (Some (zversion n)) = (r1, w1)" by fastforce
  from zookeeper.delete_law [OF assms(1,5) d] zookeeper.get_law [OF assms(1,2)] assms d show ?thesis
    by (auto simp: release_leadership_def split: if_splits)
qed

text \<open>
  When leader-only work may run: after any sequence of connection states, exactly if this
  tenure was not void, no session loss is among them, and the last state is connected.
\<close>

theorem may_work_iff:
  "may_work (foldl on_state l states) \<longleftrightarrow>
     \<not> tenure_void l \<and> LOST \<notin> set states
     \<and> (if states = [] then connected l else last states = CONNECTED)"
proof (induction states rule: rev_induct)
  case (snoc x states)
  have void: "tenure_void (foldl on_state l states) \<longleftrightarrow> tenure_void l \<or> LOST \<in> set states"
  proof (induction states rule: rev_induct)
    case (snoc y ys)
    then show ?case by (cases y) auto
  qed simp
  show ?case by (cases x) (auto simp: may_work_def void)
qed (auto simp: may_work_def)

section \<open>Witnesses\<close>

definition ex_node :: "json \<Rightarrow> int \<Rightarrow> znode" where
  "ex_node j v = \<lparr>zdata = Doc j, zversion = v, zephemeral = False\<rparr>"

text \<open>A deployment after one claim: epoch 1, a snapshot written under it, a first record.\<close>

definition ex_world :: tree_world where
  "ex_world = \<lparr>wnodes = [''/p'' \<mapsto> \<lparr>zdata = NoData, zversion = 0, zephemeral = False\<rparr>,
       epoch_path ''/p'' \<mapsto> ex_node (JInt 1) 1,
       snapshot_path ''/p'' \<mapsto> ex_node (JObj [(''epoch'', JInt 1)]) 4,
       flink_path ''/p'' \<mapsto> ex_node EMPTY_FLINK_RECORD 0,
       leader_path ''/p'' \<mapsto> \<lparr>zdata = Doc (leader_payload ''h-1'' 1 ''t''), zversion = 0, zephemeral = True\<rparr>],
     wconnected = True, wcounter = 0\<rparr>"

lemma ex_world_nodes [simp]:
  "wnodes ex_world (epoch_path ''/p'') = Some (ex_node (JInt 1) 1)"
  "wnodes ex_world (snapshot_path ''/p'') = Some (ex_node (JObj [(''epoch'', JInt 1)]) 4)"
  "wnodes ex_world (flink_path ''/p'') = Some (ex_node EMPTY_FLINK_RECORD 0)"
  "wnodes ex_world (leader_path ''/p'') =
     Some \<lparr>zdata = Doc (leader_payload ''h-1'' 1 ''t''), zversion = 0, zephemeral = True\<rparr>"
  "wconnected ex_world"
  by (simp_all add: ex_world_def path_defs)

lemma ex_world_epoch [simp]:
  "epoch_ok wnodes wconnected ''/p'' ex_world" "epoch_version wnodes ''/p'' ex_world = 1"
  "snapshot_epoch wnodes ''/p'' ex_world = Some 1"
  by (simp_all add: epoch_ok_def epoch_version_def snapshot_epoch_def ex_node_def)

theorem claim_epoch_returns_witness:
  "\<exists>token w'. claim_epoch tree_client ''/p'' [\<lambda>u. snd (zset tree_client u (epoch_path ''/p'') (Doc (JInt 7)) (Some 1))]
      ex_world = Some (Inr token, w') \<and> epoch_ok wnodes wconnected ''/p'' w'
    \<and> epoch_version wnodes ''/p'' w' = token \<and> epoch_version wnodes ''/p'' ex_world < token"
proof (rule claim_epoch_returns [OF ref_tree.zookeeper_axioms])
  show "\<forall>f \<in> set [\<lambda>u. snd (zset tree_client u (epoch_path ''/p'') (Doc (JInt 7)) (Some 1))].
    \<forall>u. epoch_ok wnodes wconnected ''/p'' u \<longrightarrow>
      epoch_ok wnodes wconnected ''/p'' (f u) \<and> epoch_version wnodes ''/p'' u \<le> epoch_version wnodes ''/p'' (f u)"
    using ref_tree.epoch_cas_effect [of "''/p''"] by (auto simp: prod_eq_iff)
qed simp

definition ex_claimed :: tree_world where
  "ex_claimed = ex_world\<lparr>wnodes := (wnodes ex_world)(epoch_path ''/p'' \<mapsto> ex_node (JInt 2) 2)\<rparr>"

lemma ex_claim: "claim_epoch tree_client ''/p'' [] ex_world = Some (Inr 2, ex_claimed)"
  by (subst claim_epoch.simps)
    (simp add: tree_client_def tree_set_def next_env_def ex_node_def ex_claimed_def)

lemma ex_claimed_epoch [simp]:
  "epoch_ok wnodes wconnected ''/p'' ex_claimed" "epoch_version wnodes ''/p'' ex_claimed = 2"
  "wnodes ex_claimed (snapshot_path ''/p'') = Some (ex_node (JObj [(''epoch'', JInt 1)]) 4)"
  by (simp_all add: ex_claimed_def epoch_ok_def epoch_version_def ex_node_def)

theorem claims_never_share_a_token_witness:
  "\<exists>w3. claim_epoch tree_client ''/p'' [] ex_claimed = Some (Inr 3, w3) \<and> (2::int) < 3"
proof -
  have "\<exists>w3. claim_epoch tree_client ''/p'' [] ex_claimed = Some (Inr 3, w3)"
    by (subst claim_epoch.simps) (simp add: tree_client_def tree_set_def next_env_def ex_node_def ex_claimed_def)
  then obtain w3 where w3: "claim_epoch tree_client ''/p'' [] ex_claimed = Some (Inr 3, w3)" by blast
  from claims_never_share_a_token [OF ref_tree.zookeeper_axioms ex_world_epoch(1) ex_claim rtranclp.rtrancl_refl w3]
  show ?thesis using w3 by blast
qed

theorem deposed_leader_is_fenced_witness:
  "\<exists>r w2. write_snapshot tree_client ''/p'' 1 (JObj [(''epoch'', JInt 1)]) ex_claimed = (r, w2)
     \<and> r = Inl StaleLeader \<and> wnodes w2 = wnodes ex_claimed"
proof -
  obtain r w2 where rw: "write_snapshot tree_client ''/p'' 1 (JObj [(''epoch'', JInt 1)]) ex_claimed = (r, w2)"
    by fastforce
  with deposed_leader_is_fenced [OF ref_tree.zookeeper_axioms ex_claimed_epoch(1) _ rtranclp.rtrancl_refl _ rw]
  show ?thesis by simp
qed

theorem flink_record_fenced_twice_witness:
  "\<exists>r w'. write_flink_record tree_client ''/p'' 1 JNull 0 ex_world = (r, w') \<and> r = Inr 1"
proof -
  obtain r w' where rw: "write_flink_record tree_client ''/p'' 1 JNull 0 ex_world = (r, w')" by fastforce
  with flink_record_fenced_twice [OF ref_tree.zookeeper_axioms _ ex_world_nodes(1,3) rw]
  show ?thesis by (simp add: ex_node_def)
qed

theorem snapshot_epoch_never_moves_back_witness:
  "\<exists>b. snapshot_epoch wnodes ''/p'' ex_claimed = Some b \<and> 1 \<le> b \<and> b \<le> epoch_version wnodes ''/p'' ex_claimed"
proof (rule snapshot_epoch_never_moves_back [OF ref_tree.zookeeper_axioms ex_world_epoch(1,3)])
  have "zset tree_client ex_world (epoch_path ''/p'') (Doc (JInt 2)) (Some 1) = (Inr 2, ex_claimed)"
    by (simp add: tree_client_def tree_set_def ex_node_def ex_claimed_def)
  then show "(service_step tree_client ''/p'')\<^sup>*\<^sup>* ex_world ex_claimed"
    by (intro r_into_rtranclp) (rule service_step.epoch_cas)
qed simp

theorem initialise_never_resets_witness:
  "\<exists>r w'. initialise tree_client ''/p'' 1 ex_world = (r, w') \<and> r = Inr ()
     \<and> wnodes w' (epoch_path ''/p'') = Some (ex_node (JInt 1) 1)"
proof -
  obtain r w' where rw: "initialise tree_client ''/p'' 1 ex_world = (r, w')" by fastforce
  with initialise_never_resets [OF ref_tree.zookeeper_axioms _ rw] ex_world_nodes(1,5) show ?thesis
    by (metis option.distinct(1))
qed

theorem leader_marker_ownership_witness:
  "\<exists>wr. release_leadership tree_client ''/p'' ''h-1'' (Some 1) (\<lambda>u. u) ex_world = (Inr (), wr)
     \<and> wnodes wr (leader_path ''/p'') = None"
proof -
  obtain ra wa where a: "acknowledge_leadership tree_client ''/p'' ''h-1'' 1 ''t'' ex_world = (ra, wa)" by fastforce
  obtain rr wr where r: "release_leadership tree_client ''/p'' ''h-1'' (Some 1) (\<lambda>u. u) ex_world = (rr, wr)" by fastforce
  have "rr = Inr ()" using ref_tree.release_outcome [OF _ r] by simp
  with leader_marker_ownership [OF ref_tree.zookeeper_axioms _ ex_world_nodes(4) a r] r show ?thesis
    by (simp add: marker_is_def leader_payload_def)
qed

text \<open>The marker of coordinator \<open>h-1\<close> gone with its session, and \<open>h-2\<close>'s in its place.\<close>

definition ex_replace :: "tree_world \<Rightarrow> tree_world" where
  "ex_replace w = snd (zcreate tree_client (snd (zdelete tree_client w (leader_path ''/p'') None))
     (leader_path ''/p'') (Doc (leader_payload ''h-2'' 2 ''t'')) True False)"

lemma ex_replaced:
  "wconnected (ex_replace ex_world)"
  "wnodes (ex_replace ex_world) (leader_path ''/p'') =
     Some \<lparr>zdata = Doc (leader_payload ''h-2'' 2 ''t''), zversion = 0, zephemeral = True\<rparr>"
  by (simp_all add: ex_replace_def tree_client_def tree_create_def tree_delete_def Let_def has_parent_def
      parent_path_def ex_world_def path_defs)

theorem release_deletes_same_version_replacement_witness:
  "\<exists>w'. release_leadership tree_client ''/p'' ''h-1'' (Some 1) ex_replace ex_world = (Inr (), w')
     \<and> wnodes (ex_replace ex_world) (leader_path ''/p'') =
         Some \<lparr>zdata = Doc (leader_payload ''h-2'' 2 ''t''), zversion = 0, zephemeral = True\<rparr>
     \<and> wnodes w' (leader_path ''/p'') = None"
proof -
  obtain r w' where r: "release_leadership tree_client ''/p'' ''h-1'' (Some 1) ex_replace ex_world = (r, w')"
    by fastforce
  with release_deletes_same_version_replacement
    [OF ref_tree.zookeeper_axioms _ ex_world_nodes(4) _ ex_replaced _ r] ex_replaced show ?thesis
    by (simp add: marker_is_def leader_payload_def)
qed

end
