(* ===== verification/Flink_Job.thy ===== *)
theory Flink_Job
  imports Pipeline_Prelude
begin

text \<open>
  \<open>flink_job.py\<close>: the settings of a submission and their validation, how the driver reads
  them back from its environment, SQL literals, and the job's configuration.

  An environment is an association list of variables. \<open>generation\<close> has an integer type here, so
  the check that its Python type is exactly \<open>int\<close> is not represented; the check of its sign is.
\<close>

section \<open>The two patterns\<close>

definition is_ascii_letter :: "char \<Rightarrow> bool" where
  "is_ascii_letter c \<longleftrightarrow>
     (65::nat) \<le> of_char c \<and> (of_char c::nat) \<le> 90 \<or> (97::nat) \<le> of_char c \<and> (of_char c::nat) \<le> 122"

definition name_char :: "char \<Rightarrow> bool" where
  "name_char c \<longleftrightarrow> is_ascii_letter c \<or> is_digit c \<or> c \<in> {CHR ''.'', CHR ''_'', CHR ''-''}"

definition host_char :: "char \<Rightarrow> bool" where
  "host_char c \<longleftrightarrow> is_ascii_letter c \<or> is_digit c \<or> c \<in> {CHR ''.'', CHR ''-''}"

definition NAME_match :: "string \<Rightarrow> bool" where
  "NAME_match s = (let t = before_end s in
     1 \<le> length t \<and> length t \<le> 200 \<and> list_all name_char t)"

definition endpoint_match :: "string \<Rightarrow> bool" where
  "endpoint_match s =
     (case split_on (CHR '':'') s of
        [host, port] \<Rightarrow> host \<noteq> [] \<and> list_all host_char host
          \<and> 1 \<le> length port \<and> length port \<le> 5 \<and> list_all is_digit port
      | _ \<Rightarrow> False)"

definition BOOTSTRAP_match :: "string \<Rightarrow> bool" where
  "BOOTSTRAP_match s = list_all endpoint_match (split_on (CHR '','') (before_end s))"

section \<open>Settings\<close>

record settings =
  bootstrap :: string
  source_topic :: string
  sink_topic :: string
  group :: string
  job_name_of :: string
  window_seconds :: int
  watermark_delay_seconds :: int
  idle_timeout_seconds :: int
  checkpoint_seconds :: int
  generation_number :: int

definition default_settings :: settings where
  "default_settings =
     \<lparr>bootstrap = ''kafka:29092'', source_topic = ''pageviews'', sink_topic = ''pageview_windows'',
      group = ''flink-pageview-windows'', job_name_of = ''pageview-windows'', window_seconds = 10,
      watermark_delay_seconds = 2, idle_timeout_seconds = 10, checkpoint_seconds = 10,
      generation_number = 0\<rparr>"

datatype settings_error =
    UnsafeBootstrap string | UnsafeName string string | TooSmall string | NegativeIdle
  | NegativeGeneration | NotANumber string

fun check_names :: "(string \<times> string) list \<Rightarrow> settings_error option" where
  "check_names [] = None"
| "check_names ((label, v) # rest) = (if \<not> NAME_match v then Some (UnsafeName label v) else check_names rest)"

fun check_positive :: "(string \<times> int) list \<Rightarrow> settings_error option" where
  "check_positive [] = None"
| "check_positive ((label, v) # rest) = (if v < 1 then Some (TooSmall label) else check_positive rest)"

text \<open>\<open>__post_init__\<close>: the first complaint, if any.\<close>

definition post_init :: "settings \<Rightarrow> settings_error option" where
  "post_init s =
     (if \<not> BOOTSTRAP_match (bootstrap s) then Some (UnsafeBootstrap (bootstrap s))
      else case check_names [(''source_topic'', source_topic s), (''sink_topic'', sink_topic s),
               (''group'', group s), (''job_name'', job_name_of s)] of
        Some e \<Rightarrow> Some e
      | None \<Rightarrow>
          (case check_positive [(''window_seconds'', window_seconds s),
               (''watermark_delay_seconds'', watermark_delay_seconds s),
               (''checkpoint_seconds'', checkpoint_seconds s)] of
             Some e \<Rightarrow> Some e
           | None \<Rightarrow>
               if idle_timeout_seconds s < 0 then Some NegativeIdle
               else if generation_number s < 0 then Some NegativeGeneration
               else None))"

definition make_settings :: "settings \<Rightarrow> settings_error + settings" where
  "make_settings s = (case post_init s of Some e \<Rightarrow> Inl e | None \<Rightarrow> Inr s)"

section \<open>The driver's environment\<close>

definition env_text :: "(string \<times> string) list \<Rightarrow> string \<Rightarrow> string \<Rightarrow> string" where
  "env_text env variable dflt =
     (case map_of env variable of None \<Rightarrow> dflt | Some v \<Rightarrow> if v = [] then dflt else v)"

definition env_number :: "(string \<times> string) list \<Rightarrow> string \<Rightarrow> int \<Rightarrow> settings_error + int" where
  "env_number env variable dflt =
     (case map_of env variable of
        None \<Rightarrow> Inr dflt
      | Some raw \<Rightarrow>
          if raw = [] then Inr dflt
          else case py_int raw of None \<Rightarrow> Inl (NotANumber raw) | Some n \<Rightarrow> Inr n)"

fun env_numbers :: "(string \<times> string) list \<Rightarrow> (string \<times> int) list \<Rightarrow> settings_error + int list" where
  "env_numbers env [] = Inr []"
| "env_numbers env ((variable, dflt) # rest) =
     (case env_number env variable dflt of
        Inl e \<Rightarrow> Inl e
      | Inr n \<Rightarrow> (case env_numbers env rest of Inl e \<Rightarrow> Inl e | Inr ns \<Rightarrow> Inr (n # ns)))"

definition from_environment :: "(string \<times> string) list \<Rightarrow> settings_error + settings" where
  "from_environment env =
     (let d = default_settings in
      case env_numbers env
        [(''FLINK_WINDOW_SECONDS'', window_seconds d),
         (''FLINK_WATERMARK_DELAY_SECONDS'', watermark_delay_seconds d),
         (''FLINK_IDLE_TIMEOUT_SECONDS'', idle_timeout_seconds d),
         (''FLINK_CHECKPOINT_SECONDS'', checkpoint_seconds d),
         (''FLINK_GENERATION'', generation_number d)] of
        Inl e \<Rightarrow> Inl e
      | Inr [win, wmark, idle, checkpoint, gen] \<Rightarrow>
          make_settings
            \<lparr>bootstrap = env_text env ''KAFKA_SERVER'' (bootstrap d),
             source_topic = env_text env ''FLINK_SOURCE_TOPIC'' (source_topic d),
             sink_topic = env_text env ''FLINK_SINK_TOPIC'' (sink_topic d),
             group = env_text env ''FLINK_GROUP'' (group d),
             job_name_of = env_text env ''FLINK_JOB_NAME'' (job_name_of d),
             window_seconds = win, watermark_delay_seconds = wmark, idle_timeout_seconds = idle,
             checkpoint_seconds = checkpoint, generation_number = gen\<rparr>
      | Inr _ \<Rightarrow> Inr d)"

section \<open>SQL text\<close>

definition quote :: char where "quote = CHR 0x27"

fun double_quotes :: "string \<Rightarrow> string" where
  "double_quotes [] = []"
| "double_quotes (c # s) = (if c = quote then quote # quote # double_quotes s else c # double_quotes s)"

definition literal :: "string \<Rightarrow> string" where
  "literal v = quote # double_quotes v @ [quote]"

definition configuration :: "settings \<Rightarrow> (string \<times> string) list" where
  "configuration s =
     [(''pipeline.name'', job_name_of s), (''table.local-time-zone'', ''UTC''),
      (''execution.checkpointing.interval'', show_int (checkpoint_seconds s) @ '' s''),
      (''execution.checkpointing.mode'', ''EXACTLY_ONCE'')]
     @ (if idle_timeout_seconds s \<noteq> 0
        then [(''table.exec.source.idle-timeout'', show_int (idle_timeout_seconds s) @ '' s'')] else [])"

text \<open>
  How a SQL scanner reads a literal that starts at a quote: a doubled quote stands for one, any
  other quote ends it. It returns the value and the text after the literal.
\<close>

fun scan_body :: "string \<Rightarrow> string \<Rightarrow> (string \<times> string) option" where
  "scan_body acc [] = None"
| "scan_body acc [c] = (if c = quote then Some (rev acc, []) else None)"
| "scan_body acc (c # d # s) =
     (if c \<noteq> quote then scan_body (c # acc) (d # s)
      else if d = quote then scan_body (quote # acc) s
      else Some (rev acc, d # s))"

definition scan_literal :: "string \<Rightarrow> (string \<times> string) option" where
  "scan_literal s = (case s of [] \<Rightarrow> None | c # rest \<Rightarrow> if c = quote then scan_body [] rest else None)"

section \<open>Lemmas\<close>

lemma scan_double_quotes:
  assumes "rest = [] \<or> hd rest \<noteq> quote"
  shows "scan_body acc (double_quotes v @ quote # rest) = Some (rev acc @ v, rest)"
proof (induction v arbitrary: acc)
  case Nil
  then show ?case using assms by (cases rest) auto
next
  case (Cons c v)
  have plain: "c \<noteq> quote \<Longrightarrow> scan_body acc (c # s) = (if s = [] then None else scan_body (c # acc) s)" for s
    by (cases s) auto
  from Cons plain show ?case by simp
qed

lemma empty_unsafe: "\<not> NAME_match []" "\<not> BOOTSTRAP_match []"
  by (simp_all add: NAME_match_def BOOTSTRAP_match_def endpoint_match_def before_end_def)

lemma post_init_None_iff:
  "post_init s = None \<longleftrightarrow> BOOTSTRAP_match (bootstrap s)
     \<and> NAME_match (source_topic s) \<and> NAME_match (sink_topic s) \<and> NAME_match (group s) \<and> NAME_match (job_name_of s)
     \<and> 1 \<le> window_seconds s \<and> 1 \<le> watermark_delay_seconds s \<and> 1 \<le> checkpoint_seconds s
     \<and> 0 \<le> idle_timeout_seconds s \<and> 0 \<le> generation_number s"
  by (auto simp: post_init_def)

lemma valid_settings:
  assumes "post_init s = None"
  shows "source_topic s \<noteq> []" "sink_topic s \<noteq> []" "group s \<noteq> []" "job_name_of s \<noteq> []" "bootstrap s \<noteq> []"
  using assms empty_unsafe unfolding post_init_None_iff by metis+

lemma newline_not_name: "\<not> name_char (CHR 0x0A)"
  by (simp add: name_char_def is_ascii_letter_def is_digit_def)

section \<open>Properties\<close>

text \<open>
  A literal stands for exactly its value wherever it is followed by anything but another
  quote: no character of a setting can end the SQL string early or run past its end.
\<close>

theorem literal_cannot_escape:
  assumes "rest = [] \<or> hd rest \<noteq> quote"
  shows "scan_literal (literal v @ rest) = Some (v, rest)"
  using scan_double_quotes [OF assms, of "[]" v] by (simp add: scan_literal_def literal_def)

theorem literal_cannot_escape_witness:
  "scan_literal (literal ''it'' @ '', x'') = Some (''it'', '', x'')"
  using literal_cannot_escape [of "'', x''" "''it''"] by (simp add: quote_def)

text \<open>
  What the name check lets through: one to 200 letters, digits, dots, underscores and hyphens,
  and the same followed by one newline, because the pattern ends in \<open>$\<close> and is applied with
  \<open>match\<close>. A quote, a space or a semicolon never passes.
\<close>

theorem name_guard_admits:
  "NAME_match s \<longleftrightarrow>
     (\<exists>t. (s = t \<or> s = t @ [CHR 0x0A]) \<and> 1 \<le> length t \<and> length t \<le> 200 \<and> list_all name_char t)"
proof
  assume m: "NAME_match s"
  have "s = before_end s \<or> s = before_end s @ [CHR 0x0A]"
    by (cases s rule: rev_cases) (simp_all add: before_end_def)
  with m show "\<exists>t. (s = t \<or> s = t @ [CHR 0x0A]) \<and> 1 \<le> length t \<and> length t \<le> 200 \<and> list_all name_char t"
    by (auto simp: NAME_match_def Let_def)
next
  assume "\<exists>t. (s = t \<or> s = t @ [CHR 0x0A]) \<and> 1 \<le> length t \<and> length t \<le> 200 \<and> list_all name_char t"
  then obtain t where t: "s = t \<or> s = t @ [CHR 0x0A]" "1 \<le> length t" "length t \<le> 200" "list_all name_char t"
    by blast
  from t(2,4) have "last t \<noteq> CHR 0x0A" using newline_not_name by (cases t rule: rev_cases) auto
  with t have "before_end s = t" by (auto simp: before_end_def)
  with t show "NAME_match s" by (simp add: NAME_match_def)
qed

end
