(* ===== verification/Flink_Cluster.thy ===== *)
theory Flink_Cluster
  imports Flink_Job
begin

text \<open>
  \<open>flink_cluster.py\<close>: submission of a job through \<open>docker compose exec\<close>, and Flink's REST
  interface. The command, the REST server and their state \<open>'w\<close> are outside the repository, so
  they are parameters: \<open>popen\<close> runs a command, \<open>fetch\<close> makes one HTTP request.
\<close>

section \<open>Services\<close>

text \<open>An answer with a body, an HTTP error with its status, or no usable answer at all.\<close>

datatype http_answer = Body json | EmptyBody | HttpError int | Unreachable

text \<open>
  The client process: it could not be run, or it ran; whether it timed out, its return code
  (negative for a signal), and what it printed on both streams until it ended.
\<close>

datatype process_result = CannotRun | Ran bool int string

record 'w flink_services =
  fetch :: "'w \<Rightarrow> string \<Rightarrow> string \<Rightarrow> http_answer \<times> 'w"
  popen :: "'w \<Rightarrow> string list \<Rightarrow> process_result \<times> 'w"

datatype flink_error = FlinkError | NotFound | SubmissionUncertain | MissingKey | PythonError

text \<open>\<open>except FlinkError\<close> catches its subclasses.\<close>

definition is_flink_error :: "flink_error \<Rightarrow> bool" where
  "is_flink_error e \<longleftrightarrow> e \<noteq> MissingKey \<and> e \<noteq> PythonError"

section \<open>Submission\<close>

definition JOB_PATH :: string where "JOB_PATH = ''/opt/pipeline/flink_job.py''"

definition ENVIRONMENT :: "settings \<Rightarrow> (string \<times> string) list" where
  "ENVIRONMENT s =
     [(''KAFKA_SERVER'', bootstrap s), (''FLINK_SOURCE_TOPIC'', source_topic s),
      (''FLINK_SINK_TOPIC'', sink_topic s), (''FLINK_GROUP'', group s),
      (''FLINK_JOB_NAME'', job_name_of s),
      (''FLINK_WINDOW_SECONDS'', show_int (window_seconds s)),
      (''FLINK_WATERMARK_DELAY_SECONDS'', show_int (watermark_delay_seconds s)),
      (''FLINK_IDLE_TIMEOUT_SECONDS'', show_int (idle_timeout_seconds s)),
      (''FLINK_CHECKPOINT_SECONDS'', show_int (checkpoint_seconds s)),
      (''FLINK_GENERATION'', show_int (generation_number s))]"

definition submit_command :: "settings \<Rightarrow> string list" where
  "submit_command s =
     [''docker'', ''compose'', ''exec'', ''-T'']
     @ concat (map (\<lambda>(variable, v). [''-e'', variable @ ''='' @ v]) (ENVIRONMENT s))
     @ [''flink-jobmanager'', ''flink'', ''run'', ''-d'', ''-py'', JOB_PATH]"

definition is_hex :: "char \<Rightarrow> bool" where
  "is_hex c \<longleftrightarrow> is_digit c \<or> (97::nat) \<le> of_char c \<and> (of_char c::nat) \<le> 102"

definition submitted_prefix :: string where
  "submitted_prefix = ''Job has been submitted with JobID ''"

text \<open>The pattern at the start of a text, then \<open>search\<close>: the leftmost place it matches.\<close>

definition submitted_here :: "string \<Rightarrow> string option" where
  "submitted_here s =
     (let n = length submitted_prefix; i = take 32 (drop n s) in
      if take n s = submitted_prefix \<and> length i = 32 \<and> list_all is_hex i then Some i else None)"

fun parse_job_id :: "string \<Rightarrow> flink_error + string" where
  "parse_job_id [] = Inl FlinkError"
| "parse_job_id (c # s) =
     (case submitted_here (c # s) of Some i \<Rightarrow> Inr i | None \<Rightarrow> parse_job_id s)"

definition submit_outcome :: "process_result \<Rightarrow> flink_error + string" where
  "submit_outcome r =
     (case r of
        CannotRun \<Rightarrow> Inl FlinkError
      | Ran timed_out code output \<Rightarrow>
          (case parse_job_id output of Inl _ \<Rightarrow> Inl SubmissionUncertain | Inr i \<Rightarrow> Inr i))"

definition submit_job :: "'w flink_services \<Rightarrow> settings \<Rightarrow> 'w \<Rightarrow> (flink_error + string) \<times> 'w" where
  "submit_job api s w = (case popen api w (submit_command s) of (r, w1) \<Rightarrow> (submit_outcome r, w1))"

section \<open>REST\<close>

definition request :: "'w flink_services \<Rightarrow> string \<Rightarrow> string \<Rightarrow> 'w \<Rightarrow> (flink_error + json) \<times> 'w" where
  "request api path http_method w =
     (case fetch api w path http_method of
        (Body j, w1) \<Rightarrow> (Inr j, w1)
      | (EmptyBody, w1) \<Rightarrow> (Inr (JObj []), w1)
      | (HttpError code, w1) \<Rightarrow> (Inl (if code = 404 then NotFound else FlinkError), w1)
      | (Unreachable, w1) \<Rightarrow> (Inl FlinkError, w1))"

text \<open>Subscripting: a missing key raises \<open>KeyError\<close>, a value of another type something else.\<close>

definition item :: "json \<Rightarrow> string \<Rightarrow> flink_error + json" where
  "item j k = (case jget j k of None \<Rightarrow> Inl (if is_object j then MissingKey else PythonError) | Some v \<Rightarrow> Inr v)"

definition text_item :: "json \<Rightarrow> string \<Rightarrow> flink_error + string" where
  "text_item j k = (case jget j k of Some (JStr s) \<Rightarrow> Inr s | _ \<Rightarrow> Inl PythonError)"

record job_row =
  row_id :: string
  row_name :: string
  row_state :: string

definition read_row :: "json \<Rightarrow> flink_error + job_row" where
  "read_row j =
     (case (text_item j ''jid'', text_item j ''name'', text_item j ''state'') of
        (Inr i, Inr n, Inr s) \<Rightarrow> Inr \<lparr>row_id = i, row_name = n, row_state = s\<rparr>
      | _ \<Rightarrow> Inl PythonError)"

fun read_rows :: "json list \<Rightarrow> flink_error + job_row list" where
  "read_rows [] = Inr []"
| "read_rows (j # js) =
     (case read_row j of
        Inl e \<Rightarrow> Inl e
      | Inr r \<Rightarrow> (case read_rows js of Inl e \<Rightarrow> Inl e | Inr rs \<Rightarrow> Inr (r # rs)))"

definition overview_rows :: "(flink_error + json) \<Rightarrow> flink_error + job_row list" where
  "overview_rows r =
     (case r of
        Inl e \<Rightarrow> Inl e
      | Inr j \<Rightarrow> (case jget j ''jobs'' of Some (JArr js) \<Rightarrow> read_rows js | _ \<Rightarrow> Inl PythonError))"

definition jobs_overview :: "'w flink_services \<Rightarrow> 'w \<Rightarrow> (flink_error + job_row list) \<times> 'w" where
  "jobs_overview api w = (case request api ''/jobs/overview'' ''GET'' w of (r, w1) \<Rightarrow> (overview_rows r, w1))"

definition jobs_named :: "'w flink_services \<Rightarrow> string \<Rightarrow> 'w \<Rightarrow> (flink_error + string list) \<times> 'w" where
  "jobs_named api name w =
     (case request api ''/jobs/overview'' ''GET'' w of
        (r, w1) \<Rightarrow>
          (case overview_rows r of
             Inl e \<Rightarrow> (Inl e, w1)
           | Inr rows \<Rightarrow> (Inr (map row_id (filter (\<lambda>r. row_name r = name) rows)), w1)))"

definition job_state :: "'w flink_services \<Rightarrow> string \<Rightarrow> 'w \<Rightarrow> (flink_error + string) \<times> 'w" where
  "job_state api i w =
     (case request api (''/jobs/'' @ i) ''GET'' w of
        (Inl e, w1) \<Rightarrow> (Inl e, w1)
      | (Inr j, w1) \<Rightarrow> (text_item j ''state'', w1))"

definition cancel_job :: "'w flink_services \<Rightarrow> string \<Rightarrow> 'w \<Rightarrow> (flink_error + unit) \<times> 'w" where
  "cancel_job api i w =
     (case request api (''/jobs/'' @ i @ ''?mode=cancel'') ''PATCH'' w of
        (Inl e, w1) \<Rightarrow> (Inl e, w1)
      | (Inr _, w1) \<Rightarrow> (Inr (), w1))"

definition completed_checkpoints :: "'w flink_services \<Rightarrow> string \<Rightarrow> 'w \<Rightarrow> (flink_error + json) \<times> 'w" where
  "completed_checkpoints api i w =
     (case request api (''/jobs/'' @ i @ ''/checkpoints'') ''GET'' w of
        (Inl e, w1) \<Rightarrow> (Inl e, w1)
      | (Inr j, w1) \<Rightarrow>
          (case item j ''counts'' of Inl e \<Rightarrow> (Inl e, w1) | Inr c \<Rightarrow> (item c ''completed'', w1)))"

text \<open>\<open>restored["id"] if restored else None\<close>: a null, an absent and an empty value are none.\<close>

definition json_truthy :: "json \<Rightarrow> bool" where
  "json_truthy j = (case j of
       JNull \<Rightarrow> False | JBool b \<Rightarrow> b | JInt i \<Rightarrow> i \<noteq> 0 | JFloat f \<Rightarrow> f \<noteq> Fin 0
     | JStr s \<Rightarrow> s \<noteq> [] | JArr a \<Rightarrow> a \<noteq> [] | JObj d \<Rightarrow> d \<noteq> [])"

definition restored_checkpoint ::
    "'w flink_services \<Rightarrow> string \<Rightarrow> 'w \<Rightarrow> (flink_error + json option) \<times> 'w" where
  "restored_checkpoint api i w =
     (case request api (''/jobs/'' @ i @ ''/checkpoints'') ''GET'' w of
        (Inl e, w1) \<Rightarrow> (Inl e, w1)
      | (Inr j, w1) \<Rightarrow>
          (case item j ''latest'' of
             Inl e \<Rightarrow> (Inl e, w1)
           | Inr latest \<Rightarrow>
               if \<not> is_object latest then (Inl PythonError, w1)
               else case jget latest ''restored'' of
                 None \<Rightarrow> (Inr None, w1)
               | Some r \<Rightarrow>
                   if \<not> json_truthy r then (Inr None, w1)
                   else case item r ''id'' of Inl e \<Rightarrow> (Inl e, w1) | Inr v \<Rightarrow> (Inr (Some v), w1)))"

section \<open>Metrics\<close>

text \<open>
  \<open>metric_sum\<close>. What it catches is an unavailable measurement, \<open>None\<close>; an identifier that is
  no text and an infinite sum raise past it.
\<close>

datatype 'a measured = Unmeasured | Measured 'a | Escapes

fun metric_names :: "string \<Rightarrow> json list \<Rightarrow> string list measured" where
  "metric_names suffix [] = Measured []"
| "metric_names suffix (m # ms) =
     (case jget m ''id'' of
        None \<Rightarrow> Unmeasured
      | Some (JStr i) \<Rightarrow>
          (case metric_names suffix ms of
             Measured names \<Rightarrow>
               Measured (if drop (length i - length suffix) i = suffix then i # names else names)
           | r \<Rightarrow> r)
      | Some _ \<Rightarrow> Escapes)"

text \<open>\<open>"sum" in m\<close>, which raises on a number: a text is searched, a list compared.\<close>

fun has_substring :: "string \<Rightarrow> string \<Rightarrow> bool" where
  "has_substring t [] = (t = [])"
| "has_substring t (c # s) = (take (length t) (c # s) = t \<or> has_substring t s)"

fun has_sum :: "json \<Rightarrow> bool option" where
  "has_sum (JObj kvs) = Some (map_of kvs ''sum'' \<noteq> None)"
| "has_sum (JArr js) = Some (JStr ''sum'' \<in> set js)"
| "has_sum (JStr t) = Some (has_substring ''sum'' t)"
| "has_sum _ = None"

fun metric_values :: "json list \<Rightarrow> (string \<times> json) list \<Rightarrow> (string \<times> json) list option" where
  "metric_values [] d = Some d"
| "metric_values (m # ms) d =
     (case has_sum m of
        None \<Rightarrow> None
      | Some False \<Rightarrow> metric_values ms d
      | Some True \<Rightarrow>
          (case (jget m ''id'', jget m ''sum'') of
             (Some (JStr i), Some v) \<Rightarrow> metric_values ms (AList.update i v d)
           | (Some (JArr _), _) \<Rightarrow> None
           | (Some (JObj _), _) \<Rightarrow> None
           | (Some _, Some _) \<Rightarrow> metric_values ms d
           | _ \<Rightarrow> None))"

fun float_of_json :: "json \<Rightarrow> fl option" where
  "float_of_json (JInt i) = Some (Fin (of_int i))"
| "float_of_json (JBool b) = Some (Fin (if b then 1 else 0))"
| "float_of_json (JFloat x) = Some x"
| "float_of_json (JStr t) = py_float t"
| "float_of_json _ = None"

text \<open>Every value asked for must have come back; one that did not makes the total unavailable.\<close>

fun add_values :: "(string \<times> json) list \<Rightarrow> string list \<Rightarrow> fl \<Rightarrow> fl option" where
  "add_values d [] acc = Some acc"
| "add_values d (n # ns) acc =
     Option.bind (Option.bind (map_of d n) float_of_json) (\<lambda>x. add_values d ns (fl_add acc x))"

fun array_of :: "flink_error + json \<Rightarrow> json list option" where
  "array_of (Inr (JArr js)) = Some js"
| "array_of _ = None"

fun join_comma :: "string list \<Rightarrow> string" where
  "join_comma [] = []"
| "join_comma [n] = n"
| "join_comma (n # ns) = n @ '','' @ join_comma ns"

definition vertex_metrics ::
    "'w flink_services \<Rightarrow> string \<Rightarrow> string \<Rightarrow> string \<Rightarrow> fl \<times> bool \<Rightarrow> 'w \<Rightarrow> (fl \<times> bool) measured \<times> 'w" where
  "vertex_metrics api i suffix v st w =
     (let path = ''/jobs/'' @ i @ ''/vertices/'' @ v @ ''/subtasks/metrics''; r1 = request api path ''GET'' w in
      case array_of (fst r1) of
        None \<Rightarrow> (Unmeasured, snd r1)
      | Some ms \<Rightarrow>
          (case metric_names suffix ms of
             Unmeasured \<Rightarrow> (Unmeasured, snd r1)
           | Escapes \<Rightarrow> (Escapes, snd r1)
           | Measured [] \<Rightarrow> (Measured st, snd r1)
           | Measured names \<Rightarrow>
               (let r2 = request api (path @ ''?get='' @ join_comma names @ ''&agg=sum'') ''GET'' (snd r1) in
                case Option.bind (array_of (fst r2)) (\<lambda>js. metric_values js []) of
                  None \<Rightarrow> (Unmeasured, snd r2)
                | Some d \<Rightarrow>
                    (case add_values d names (fst st) of
                       None \<Rightarrow> (Unmeasured, snd r2)
                     | Some acc \<Rightarrow> (Measured (acc, True), snd r2)))))"

fun vertices_metrics ::
    "'w flink_services \<Rightarrow> string \<Rightarrow> string \<Rightarrow> json list \<Rightarrow> fl \<times> bool \<Rightarrow> 'w \<Rightarrow> (fl \<times> bool) measured \<times> 'w" where
  "vertices_metrics api i suffix [] st w = (Measured st, w)"
| "vertices_metrics api i suffix (v # vs) st w =
     (case jget v ''id'' of
        Some (JStr vid) \<Rightarrow>
          (case vertex_metrics api i suffix vid st w of
             (Measured st1, w1) \<Rightarrow> vertices_metrics api i suffix vs st1 w1
           | r \<Rightarrow> r)
      | _ \<Rightarrow> (Unmeasured, w))"

definition metric_sum :: "'w flink_services \<Rightarrow> string \<Rightarrow> string \<Rightarrow> 'w \<Rightarrow> int measured \<times> 'w" where
  "metric_sum api i suffix w =
     (let r = request api (''/jobs/'' @ i) ''GET'' w in
      case Option.bind (case fst r of Inr j \<Rightarrow> jget j ''vertices'' | Inl _ \<Rightarrow> None) (\<lambda>v. array_of (Inr v)) of
        None \<Rightarrow> (Unmeasured, snd r)
      | Some vs \<Rightarrow>
          (case vertices_metrics api i suffix vs (Fin 0, False) (snd r) of
             (Measured (acc, seen), w1) \<Rightarrow>
               (if \<not> seen then Unmeasured
                else case acc of
                  Fin x \<Rightarrow> Measured (int_of_float x)
                | NaN \<Rightarrow> Unmeasured
                | _ \<Rightarrow> Escapes, w1)
           | (Unmeasured, w1) \<Rightarrow> (Unmeasured, w1)
           | (Escapes, w1) \<Rightarrow> (Escapes, w1)))"

text \<open>A total is never partial: it adds a value of every name the vertex lists.\<close>

lemma add_values_complete:
  "add_values d names acc = Some t \<Longrightarrow> n \<in> set names \<Longrightarrow> \<exists>v x. map_of d n = Some v \<and> float_of_json v = Some x"
  by (induction names arbitrary: acc) (auto simp: bind_eq_Some_conv)

text \<open>No vertex reports it: the measurement is unavailable, never zero.\<close>

lemma unseen_is_unavailable:
  assumes "vertices_metrics api i suffix vs (Fin 0, False) w1 = (Measured (t, False), w2)"
    and "request api (''/jobs/'' @ i) ''GET'' w = (Inr (JObj [(''vertices'', JArr vs)]), w1)"
  shows "fst (metric_sum api i suffix w) = Unmeasured"
  using assms by (simp add: metric_sum_def Let_def)

section \<open>What the container sees of the command\<close>

text \<open>
  \<open>docker compose exec\<close> is not part of the repository: \<open>exec_env\<close> is the environment it makes of its
  arguments, and the locale says what it documents of them. Each \<open>-e NAME=value\<close> before the service's
  name binds a variable, in that order.
\<close>

locale docker_exec =
  fixes exec_env :: "string list \<Rightarrow> (string \<times> string) list"
  assumes bindings_law: "\<forall>(n, v) \<in> set bs. CHR ''='' \<notin> set n \<Longrightarrow> rest = [] \<or> hd rest \<noteq> ''-e'' \<Longrightarrow>
    exec_env (concat (map (\<lambda>(n, v). [''-e'', n @ ''='' @ v]) bs) @ rest) = bs"

text \<open>A reference reading of the arguments.\<close>

fun exec_environment :: "string list \<Rightarrow> (string \<times> string) list" where
  "exec_environment (flag # binding # rest) =
     (if flag = ''-e''
      then (takeWhile (\<lambda>c. c \<noteq> CHR ''='') binding, tl (dropWhile (\<lambda>c. c \<noteq> CHR ''='') binding)) # exec_environment rest
      else [])"
| "exec_environment _ = []"

lemma exec_environment_bindings:
  assumes "\<forall>(n, v) \<in> set bs. CHR ''='' \<notin> set n" and "rest = [] \<or> hd rest \<noteq> ''-e''"
  shows "exec_environment (concat (map (\<lambda>(n, v). [''-e'', n @ ''='' @ v]) bs) @ rest) = bs"
  using assms
proof (induction bs)
  case Nil
  then show ?case by (cases rest rule: exec_environment.cases) auto
next
  case (Cons b bs)
  obtain n v where b: "b = (n, v)" by (cases b)
  have "takeWhile (\<lambda>c. c \<noteq> CHR ''='') (n @ CHR ''='' # v) = n"
    and "dropWhile (\<lambda>c. c \<noteq> CHR ''='') (n @ CHR ''='' # v) = CHR ''='' # v"
    using Cons.prems b by (simp_all add: cut_at)
  with Cons b show ?case by simp
qed

interpretation ref_exec: docker_exec exec_environment
  by unfold_locales (rule exec_environment_bindings)

context docker_exec
begin

lemma submit_command_environment: "exec_env (drop 4 (submit_command s)) = ENVIRONMENT s"
proof -
  let ?tail = "[''flink-jobmanager'', ''flink'', ''run'', ''-d'', ''-py'', JOB_PATH]"
  have "drop 4 (submit_command s)
      = concat (map (\<lambda>(n, v). [''-e'', n @ ''='' @ v]) (ENVIRONMENT s)) @ ?tail"
    unfolding submit_command_def by (simp only: drop_append list.size) simp
  moreover have "\<forall>(n, v) \<in> set (ENVIRONMENT s). CHR ''='' \<notin> set n" by (simp add: ENVIRONMENT_def)
  ultimately show ?thesis using bindings_law [of "ENVIRONMENT s" ?tail] by simp
qed

end

lemma parse_job_id_found:
  "parse_job_id s = Inr i \<Longrightarrow> length i = 32 \<and> list_all is_hex i
     \<and> (\<exists>before after. s = before @ submitted_prefix @ i @ after)"
proof (induction s)
  case (Cons c s)
  show ?case
  proof (cases "submitted_here (c # s)")
    case None
    with Cons obtain before after where "length i = 32 \<and> list_all is_hex i" "s = before @ submitted_prefix @ i @ after"
      by auto
    then show ?thesis by (metis append_Cons)
  next
    case (Some j)
    then have j: "j = i" using Cons.prems by simp
    let ?n = "length submitted_prefix"
    have parts: "take ?n (c # s) = submitted_prefix" "i = take 32 (drop ?n (c # s))" "length i = 32" "list_all is_hex i"
      using Some j by (auto simp: submitted_here_def Let_def split: if_splits)
    have "c # s = take ?n (c # s) @ take 32 (drop ?n (c # s)) @ drop 32 (drop ?n (c # s))"
      by (metis append_take_drop_id)
    with parts show ?thesis by (metis append_Nil)
  qed
qed simp

lemma env_number_shown: "map_of env k = Some (show_int n) \<Longrightarrow> env_number env k d = Inr n"
  by (simp add: env_number_def)

lemma env_text_shown: "map_of env k = Some v \<Longrightarrow> v \<noteq> [] \<Longrightarrow> env_text env k d = v"
  by (simp add: env_text_def)

context docker_exec
begin

lemma environment_carries_settings:
  assumes "make_settings s = Inr s"
  shows "from_environment (exec_env (drop 4 (submit_command s))) = Inr s"
proof -
  have valid: "post_init s = None" using assms by (auto simp: make_settings_def split: option.splits)
  have numbers: "env_numbers (ENVIRONMENT s)
      [(''FLINK_WINDOW_SECONDS'', w), (''FLINK_WATERMARK_DELAY_SECONDS'', d),
       (''FLINK_IDLE_TIMEOUT_SECONDS'', i), (''FLINK_CHECKPOINT_SECONDS'', c), (''FLINK_GENERATION'', g)]
      = Inr [window_seconds s, watermark_delay_seconds s, idle_timeout_seconds s, checkpoint_seconds s,
          generation_number s]" for w d i c g
    by (simp add: env_number_shown ENVIRONMENT_def)
  have texts: "env_text (ENVIRONMENT s) ''KAFKA_SERVER'' a = bootstrap s"
    "env_text (ENVIRONMENT s) ''FLINK_SOURCE_TOPIC'' a = source_topic s"
    "env_text (ENVIRONMENT s) ''FLINK_SINK_TOPIC'' a = sink_topic s"
    "env_text (ENVIRONMENT s) ''FLINK_GROUP'' a = group s"
    "env_text (ENVIRONMENT s) ''FLINK_JOB_NAME'' a = job_name_of s" for a
    using valid_settings [OF valid] by (simp_all add: env_text_shown ENVIRONMENT_def)
  show ?thesis
    unfolding submit_command_environment from_environment_def Let_def numbers texts
    using assms by (cases s) simp
qed

end

section \<open>Properties\<close>

text \<open>
  The job runs with the settings it was submitted with: reading the environment that the
  submission command sets inside the container gives back the very settings, for every settings
  value the validation accepts.
\<close>

theorem submitted_settings_arrive:
  assumes "docker_exec exec_env" and "make_settings s = Inr s"
  shows "from_environment (exec_env (drop 4 (submit_command s))) = Inr s"
  by (rule docker_exec.environment_carries_settings [OF assms])

text \<open>
  A submission reports a job id only if the client printed it, whatever else happened; it
  reports a plain \<open>FlinkError\<close> exactly when the command never ran; every other outcome is
  uncertain. No outcome claims that nothing was submitted when the client ran.
\<close>

theorem submission_outcomes:
  "(submit_outcome r = Inr i \<longrightarrow>
      (\<exists>timed_out code before after. r = Ran timed_out code (before @ submitted_prefix @ i @ after))
      \<and> length i = 32 \<and> list_all is_hex i)
   \<and> (submit_outcome r = Inl FlinkError \<longleftrightarrow> r = CannotRun)
   \<and> (submit_outcome r = Inl e \<longrightarrow> e = FlinkError \<or> e = SubmissionUncertain)"
proof (cases r)
  case (Ran timed_out code printed)
  then show ?thesis
    using parse_job_id_found [of printed i]
    by (auto simp: submit_outcome_def split: sum.splits)
qed (simp add: submit_outcome_def)

section \<open>Witnesses\<close>

theorem submitted_settings_arrive_witness:
  "from_environment (exec_environment (drop 4 (submit_command (default_settings\<lparr>generation_number := 7\<rparr>))))
     = Inr (default_settings\<lparr>generation_number := 7\<rparr>)"
  by (rule submitted_settings_arrive [OF ref_exec.docker_exec_axioms]) code_simp

definition ex_id :: string where "ex_id = concat (replicate 8 ''0af9'')"

theorem submission_outcomes_witness:
  "submit_outcome (Ran True (- 9) (''log '' @ submitted_prefix @ ex_id)) = Inr ex_id \<and> length ex_id = 32"
proof -
  have "submit_outcome (Ran True (- 9) (''log '' @ submitted_prefix @ ex_id)) = Inr ex_id" by code_simp
  with submission_outcomes [of "Ran True (- 9) (''log '' @ submitted_prefix @ ex_id)" ex_id FlinkError]
  show ?thesis by simp
qed

end
