(* ===== verification/Keeper_Loop.thy ===== *)
theory Keeper_Loop
  imports Coordination Flink_Cluster
begin

text \<open>
  The keeper's worker, \<open>job_keeper.py\<close> from \<open>job_settings\<close> on: one cycle of reading, deciding
  and acting, its fenced record writes, and the loop around it.

  Other threads retire tenures, stop the keeper and learn about the session at any time, and
  other processes use ZooKeeper and Flink meanwhile. Each check first lets them act: the next
  function of \<open>interference\<close> changes the flags and the services' state arbitrarily. The \<open>trace\<close>
  records, oldest first, every check that passed and every call the worker made, and of a write
  of the record the service's state before and after it; no operation reads it.
\<close>

section \<open>State\<close>

record tenure =
  tenure_id :: nat
  tenure_epoch :: int

record kflags =
  is_stopped :: bool
  retired :: "nat set"
  leads :: leadership

datatype keeper_error =
  Interrupted | WriteUncertain | CoordRaised coord_error | FlinkRaised | BadRecord | BadSettings

datatype 'w action =
    Checked kflags
  | ReadRecord "keeper_error + keeper_record \<times> int"
  | ListJobs
  | LookUp string
  | CancelJob string
  | WriteRecord keeper_record int "keeper_error + int" 'w 'w
  | SubmitJob int process_result

record 'w kstate =
  world :: 'w
  flags :: kflags
  interference :: "(kflags \<times> 'w \<Rightarrow> kflags \<times> 'w) list"
  kmemory :: memory
  kobservation :: "(int \<times> observation) option"
  kchild :: bool
  trace :: "'w action list"

definition tick :: "'w kstate \<Rightarrow> 'w kstate" where
  "tick s = (case interference s of
       [] \<Rightarrow> s
     | f # fs \<Rightarrow> s\<lparr>flags := fst (f (flags s, world s)), world := snd (f (flags s, world s)), interference := fs\<rparr>)"

definition log_action :: "'w action \<Rightarrow> 'w kstate \<Rightarrow> 'w kstate" where
  "log_action a s = s\<lparr>trace := trace s @ [a]\<rparr>"

definition tenure_active :: "tenure \<Rightarrow> kflags \<Rightarrow> bool" where
  "tenure_active t f \<longleftrightarrow> tenure_id t \<notin> retired f"

definition allows :: "tenure \<Rightarrow> kflags \<Rightarrow> bool" where
  "allows t f \<longleftrightarrow> \<not> is_stopped f \<and> tenure_active t f \<and> may_work (leads f)"

definition check :: "tenure \<Rightarrow> 'w kstate \<Rightarrow> (keeper_error + unit) \<times> 'w kstate" where
  "check t s =
     (let s1 = tick s in
      if allows t (flags s1) then (Inr (), log_action (Checked (flags s1)) s1) else (Inl Interrupted, s1))"

definition mark_never_submitted :: "int \<Rightarrow> 'w kstate \<Rightarrow> 'w kstate" where
  "mark_never_submitted g s = s\<lparr>kmemory := (kmemory s)\<lparr>never_submitted := insert g (never_submitted (kmemory s))\<rparr>\<rparr>"

definition discard_never_submitted :: "int \<Rightarrow> 'w kstate \<Rightarrow> 'w kstate" where
  "discard_never_submitted g s = s\<lparr>kmemory := (kmemory s)\<lparr>never_submitted := never_submitted (kmemory s) - {g}\<rparr>\<rparr>"

section \<open>Settings of a generation\<close>

record keeper_config =
  cfg_source :: string
  cfg_sink :: string
  cfg_group :: string
  cfg_base :: string
  cfg_window :: int
  cfg_checkpoint :: int
  cfg_idle :: int

definition job_settings :: "keeper_config \<Rightarrow> int \<Rightarrow> settings_error + settings" where
  "job_settings c g = make_settings
     (default_settings\<lparr>source_topic := cfg_source c, sink_topic := cfg_sink c, group := cfg_group c,
        job_name_of := job_name (cfg_base c) g, window_seconds := cfg_window c,
        checkpoint_seconds := cfg_checkpoint c, idle_timeout_seconds := cfg_idle c, generation_number := g\<rparr>)"

section \<open>One cycle\<close>

text \<open>\<open>_write\<close>: issued after a check, never assumed to have failed or succeeded.\<close>

definition write_outcome :: "(zk_error + zresult list) \<Rightarrow> keeper_error + int" where
  "write_outcome r =
     (case r of
        Inl e \<Rightarrow>
          Inl (if e \<in> {KazooTimeoutError, ConnectionLoss, ConnectionClosedError, SessionExpiredError}
               then WriteUncertain else CoordRaised (ZkExn e))
      | Inr results \<Rightarrow>
          (case flink_record_outcome results of Inl e \<Rightarrow> Inl (CoordRaised e) | Inr v \<Rightarrow> Inr v))"

definition write_record ::
    "'w kazoo \<Rightarrow> string \<Rightarrow> tenure \<Rightarrow> keeper_record \<Rightarrow> int \<Rightarrow> 'w kstate \<Rightarrow> (keeper_error + int) \<times> 'w kstate" where
  "write_record zk zroot t r version s =
     (case check t s of
        (Inl e, s1) \<Rightarrow> (Inl e, s1)
      | (Inr _, s1) \<Rightarrow>
          (case zcommit zk (world s1) (flink_record_transaction zroot (tenure_epoch t) (to_json r) version) of
             (answer, w) \<Rightarrow>
               (write_outcome answer,
                log_action (WriteRecord r version (write_outcome answer) (world s1) w) (s1\<lparr>world := w\<rparr>))))"

definition list_jobs ::
    "'w flink_services \<Rightarrow> string \<Rightarrow> tenure \<Rightarrow> 'w kstate \<Rightarrow> (keeper_error + listed list option) \<times> 'w kstate" where
  "list_jobs api base t s =
     (case check t s of
        (Inl e, s1) \<Rightarrow> (Inl e, s1)
      | (Inr _, s1) \<Rightarrow>
          (case jobs_overview api (world s1) of
             (answer, w) \<Rightarrow>
               (case answer of
                  Inl e \<Rightarrow> if is_flink_error e then Inr None else Inl FlinkRaised
                | Inr rows \<Rightarrow>
                    Inr (Some (List.map_filter
                      (\<lambda>r. map_option (\<lambda>g. \<lparr>listed_id = row_id r, listed_generation = g, listed_state = row_state r\<rparr>)
                         (generation_of base (row_name r))) rows)),
                log_action ListJobs (s1\<lparr>world := w\<rparr>))))"

fun look_up_states ::
    "'w flink_services \<Rightarrow> tenure \<Rightarrow> string list \<Rightarrow> (string \<rightharpoonup> string) \<Rightarrow> 'w kstate
      \<Rightarrow> (keeper_error + (string \<rightharpoonup> string)) \<times> 'w kstate" where
  "look_up_states api t [] states s = (Inr states, s)"
| "look_up_states api t (i # ids) states s =
     (case check t s of
        (Inl e, s1) \<Rightarrow> (Inl e, s1)
      | (Inr _, s1) \<Rightarrow>
          (case job_state api i (world s1) of
             (answer, w) \<Rightarrow>
               (let s2 = log_action (LookUp i) (s1\<lparr>world := w\<rparr>) in
                case answer of
                  Inr st \<Rightarrow> look_up_states api t ids (states(i \<mapsto> st)) s2
                | Inl e \<Rightarrow>
                    if e = NotFound then look_up_states api t ids (states(i \<mapsto> NOT_FOUND)) s2
                    else if is_flink_error e then look_up_states api t ids states s2
                    else (Inl FlinkRaised, s2))))"

fun cancel_jobs ::
    "'w flink_services \<Rightarrow> tenure \<Rightarrow> string list \<Rightarrow> 'w kstate \<Rightarrow> (keeper_error + unit) \<times> 'w kstate" where
  "cancel_jobs api t [] s = (Inr (), s)"
| "cancel_jobs api t (i # ids) s =
     (case check t s of
        (Inl e, s1) \<Rightarrow> (Inl e, s1)
      | (Inr _, s1) \<Rightarrow>
          (case cancel_job api i (world s1) of
             (answer, w) \<Rightarrow>
               (let s2 = log_action (CancelJob i) (s1\<lparr>world := w\<rparr>) in
                case answer of
                  Inr _ \<Rightarrow> cancel_jobs api t ids s2
                | Inl e \<Rightarrow> if is_flink_error e then cancel_jobs api t ids s2 else (Inl FlinkRaised, s2))))"

text \<open>\<open>_submit\<close>: \<open>r\<close> is the record as written, \<open>version\<close> the version the write returned.\<close>

definition finish_submission ::
    "'w kazoo \<Rightarrow> string \<Rightarrow> tenure \<Rightarrow> keeper_record \<Rightarrow> int \<Rightarrow> int \<Rightarrow> flink_error + string \<Rightarrow> 'w kstate
      \<Rightarrow> (keeper_error + unit) \<times> 'w kstate" where
  "finish_submission zk zroot t r version g outcome s =
     (let settle = (\<lambda>ats st.
            case write_record zk zroot t (r\<lparr>attempts := ats\<rparr>) version st of
              (Inl e, s1) \<Rightarrow> (Inl e, s1)
            | (Inr _, s1) \<Rightarrow> (Inr (), s1))
      in case outcome of
        Inl e \<Rightarrow>
          if e = SubmissionUncertain then (Inr (), s)
          else if is_flink_error e then settle (AList.delete g (attempts r)) (mark_never_submitted g s)
          else (Inl FlinkRaised, s)
      | Inr i \<Rightarrow>
          (case map_of (attempts r) g of
             None \<Rightarrow> (Inl BadRecord, s)
           | Some a \<Rightarrow> settle (AList.update g (a\<lparr>job_id := Some i\<rparr>) (attempts r)) s))"

text \<open>
  \<open>_track\<close>, called once the client runs: its handle is kept for \<open>stop\<close>, unless the keeper has
  stopped already, when the client is terminated at once. What a terminated client reports is
  among the results \<open>popen\<close> may give.
\<close>

definition track :: "'w kstate \<Rightarrow> 'w kstate" where
  "track s = (let s1 = tick s in if is_stopped (flags s1) then s1 else s1\<lparr>kchild := True\<rparr>)"

definition forget_child :: "'w kstate \<Rightarrow> 'w kstate" where
  "forget_child s = s\<lparr>kchild := False\<rparr>"

definition submit_generation ::
    "'w kazoo \<Rightarrow> string \<Rightarrow> 'w flink_services \<Rightarrow> (int \<Rightarrow> settings_error + settings) \<Rightarrow> tenure
      \<Rightarrow> keeper_record \<Rightarrow> int \<Rightarrow> int \<Rightarrow> 'w kstate \<Rightarrow> (keeper_error + unit) \<times> 'w kstate" where
  "submit_generation zk zroot api settings_of t r version g s =
     (case check t s of
        (Inl e, s1) \<Rightarrow> (Inl e, mark_never_submitted g s1)
      | (Inr _, s1) \<Rightarrow>
          (case settings_of g of
             Inl _ \<Rightarrow> (Inl BadSettings, s1)
           | Inr st \<Rightarrow>
               (case popen api (world s1) (submit_command st) of
                  (result, w) \<Rightarrow>
                    finish_submission zk zroot t r version g (submit_outcome result)
                      (forget_child (log_action (SubmitJob g result)
                        (track (discard_never_submitted g (s1\<lparr>world := w\<rparr>))))))))"

definition observe :: "tenure \<Rightarrow> observation \<Rightarrow> 'w kstate \<Rightarrow> 'w kstate" where
  "observe t ob s =
     (let s1 = tick s in
      if tenure_active t (flags s1) \<and> \<not> is_stopped (flags s1)
      then s1\<lparr>kobservation := Some (tenure_epoch t, ob)\<rparr> else s1)"

text \<open>The write of the plan's record and the submission it may lead to.\<close>

definition act_on_record ::
    "'w kazoo \<Rightarrow> string \<Rightarrow> 'w flink_services \<Rightarrow> (int \<Rightarrow> settings_error + settings) \<Rightarrow> tenure
      \<Rightarrow> plan \<Rightarrow> int \<Rightarrow> 'w kstate \<Rightarrow> (keeper_error + unit) \<times> 'w kstate" where
  "act_on_record zk zroot api settings_of t p version s =
     (case new_record p of
        None \<Rightarrow> (Inr (), s)
      | Some new \<Rightarrow>
          (let written = new\<lparr>epoch := Some (tenure_epoch t)\<rparr> in
           case write_record zk zroot t written version s of
             (Inl e, s1) \<Rightarrow>
               (case submit p of
                  Some g \<Rightarrow> (Inl e, if e = WriteUncertain then mark_never_submitted g s1 else s1)
                | None \<Rightarrow> (Inl e, s1))
           | (Inr v, s1) \<Rightarrow>
               (case submit p of
                  None \<Rightarrow> (Inr (), s1)
                | Some g \<Rightarrow> submit_generation zk zroot api settings_of t written v g s1)))"

definition read_record ::
    "'w kazoo \<Rightarrow> string \<Rightarrow> tenure \<Rightarrow> 'w kstate \<Rightarrow> (keeper_error + keeper_record \<times> int) \<times> 'w kstate" where
  "read_record zk zroot t s =
     (case check t s of
        (Inl e, s1) \<Rightarrow> (Inl e, s1)
      | (Inr _, s1) \<Rightarrow>
          (let found = (case read_flink_record zk zroot (world s1) of
             Inl e \<Rightarrow> Inl (CoordRaised e)
           | Inr (raw, version) \<Rightarrow>
               (case parse_record raw of None \<Rightarrow> Inl BadRecord | Some r \<Rightarrow> Inr (r, version)))
           in (found, log_action (ReadRecord found) s1)))"

text \<open>
  \<open>cycle\<close>: \<open>now\<close> and \<open>wall\<close> are the two clocks when it decides. Lookups go in the order of
  the sorted identifiers.
\<close>

definition gather ::
    "'w flink_services \<Rightarrow> string \<Rightarrow> tenure \<Rightarrow> keeper_record \<Rightarrow> 'w kstate
      \<Rightarrow> (keeper_error + listed list option \<times> (string \<rightharpoonup> string)) \<times> 'w kstate" where
  "gather api base t r s =
     (case list_jobs api base t s of
        (Inl e, s1) \<Rightarrow> (Inl e, s1)
      | (Inr None, s1) \<Rightarrow> (Inr (None, Map.empty), s1)
      | (Inr (Some jobs), s1) \<Rightarrow>
          (case look_up_states api t (sorted_list_of_set (lookups_needed r jobs)) Map.empty s1 of
             (Inl e, s2) \<Rightarrow> (Inl e, s2)
           | (Inr states, s2) \<Rightarrow> (Inr (Some jobs, states), s2)))"

definition act ::
    "'w kazoo \<Rightarrow> string \<Rightarrow> 'w flink_services \<Rightarrow> (int \<Rightarrow> settings_error + settings) \<Rightarrow> tenure
      \<Rightarrow> plan \<Rightarrow> int \<Rightarrow> 'w kstate \<Rightarrow> (keeper_error + string) \<times> 'w kstate" where
  "act zk zroot api settings_of t p version s =
     (case cancel_jobs api t (cancel p) s of
        (Inl e, s1) \<Rightarrow> (Inl e, s1)
      | (Inr _, s1) \<Rightarrow>
          (case act_on_record zk zroot api settings_of t p version s1 of
             (Inl e, s2) \<Rightarrow> (Inl e, s2)
           | (Inr _, s2) \<Rightarrow> (Inr (obs_status (plan_observation p)), observe t (plan_observation p) s2)))"

definition cycle ::
    "'w kazoo \<Rightarrow> string \<Rightarrow> 'w flink_services \<Rightarrow> string \<Rightarrow> (int \<Rightarrow> settings_error + settings) \<Rightarrow> tenure
      \<Rightarrow> seconds \<Rightarrow> string \<Rightarrow> 'w kstate \<Rightarrow> (keeper_error + string) \<times> 'w kstate" where
  "cycle zk zroot api base settings_of t now wall s =
     (case read_record zk zroot t s of
        (Inl e, s1) \<Rightarrow> (Inl e, s1)
      | (Inr (r, version), s1) \<Rightarrow>
          (case gather api base t r s1 of
             (Inl e, s2) \<Rightarrow> (Inl e, s2)
           | (Inr (listing, states), s2) \<Rightarrow>
               (case decide r listing states (kmemory s2) now wall of
                  (p, m) \<Rightarrow> act zk zroot api settings_of t p version (s2\<lparr>kmemory := m\<rparr>))))"

section \<open>The loop and its owner\<close>

record 'w worker =
  wstate :: "'w kstate"
  wcurrent :: "tenure option"
  wquiet :: int

definition observation_for :: "int \<Rightarrow> 'w kstate \<Rightarrow> observation option" where
  "observation_for ep s = (case kobservation s of
       Some (e, ob) \<Rightarrow> if e = ep then Some ob else None | None \<Rightarrow> None)"

text \<open>\<open>stop\<close>, and whether it has a client to terminate.\<close>

definition stop_keeper :: "'w kstate \<Rightarrow> bool \<times> 'w kstate" where
  "stop_keeper s = (kchild s, s\<lparr>flags := (flags s)\<lparr>is_stopped := True\<rparr>\<rparr>)"

definition retire :: "tenure \<Rightarrow> 'w kstate \<Rightarrow> 'w kstate" where
  "retire t s = s\<lparr>flags := (flags s)\<lparr>retired := insert (tenure_id t) (retired (flags s))\<rparr>\<rparr>"

definition failed_observation :: "string \<Rightarrow> observation" where
  "failed_observation what = \<lparr>obs_generation = None, obs_status = ''error'', obs_at = None,
     obs_note = Some (CycleFailed what), obs_detail = None\<rparr>"

text \<open>What the loop makes of a cycle's outcome: the status, and the state after the handler.\<close>

definition after_cycle :: "tenure \<Rightarrow> (keeper_error + string) \<times> 'w kstate \<Rightarrow> string \<times> 'w kstate" where
  "after_cycle t res =
     (case res of
        (Inr st, s) \<Rightarrow> (st, s)
      | (Inl e, s) \<Rightarrow>
          if e = Interrupted then (''interrupted'', s)
          else if e = CoordRaised RecordChanged \<or> e = WriteUncertain then (''changed'', s)
          else if e = CoordRaised StaleLeader then (''stale'', retire t s)
          else (''error'', observe t (failed_observation ''cycle'') s))"

text \<open>
  One turn of \<open>_run\<close>'s loop for the tenure it finds, and how long it waits; none once the
  keeper is stopped. A tenure that is not the one served last starts with a fresh memory.
\<close>

definition adopt_tenure :: "tenure option \<Rightarrow> 'w worker \<Rightarrow> 'w worker" where
  "adopt_tenure served k =
     (if served \<noteq> wcurrent k
      then k\<lparr>wcurrent := served, wquiet := 0, wstate := (wstate k)\<lparr>kmemory := fresh_memory\<rparr>\<rparr> else k)"

definition run_once ::
    "'w kazoo \<Rightarrow> string \<Rightarrow> 'w flink_services \<Rightarrow> string \<Rightarrow> (int \<Rightarrow> settings_error + settings) \<Rightarrow> seconds
      \<Rightarrow> tenure option \<Rightarrow> seconds \<Rightarrow> string \<Rightarrow> 'w worker \<Rightarrow> (seconds \<times> 'w worker) option" where
  "run_once zk zroot api base settings_of interval served now wall k =
     (if is_stopped (flags (wstate k)) then None
      else let k1 = adopt_tenure served k; f = flags (wstate k1) in
        Some (case served of
          None \<Rightarrow> (interval, k1)
        | Some t \<Rightarrow>
            if tenure_active t f \<and> may_work (leads f) then
              (case after_cycle t (cycle zk zroot api base settings_of t now wall (wstate k1)) of
                 (st, s) \<Rightarrow>
                   (let quiet = (if st = ''unavailable'' \<or> st = ''error'' then wquiet k1 + 1 else 0)
                    in (if quiet \<noteq> 0 then quiet_wait interval quiet else interval,
                        k1\<lparr>wstate := s, wquiet := quiet\<rparr>)))
            else if tenure_active t f then (1 / 2, k1)
            else (interval, k1)))"

section \<open>What a run adds to the trace\<close>

text \<open>Every call directly follows a check that passed.\<close>

fun guarded :: "tenure \<Rightarrow> bool \<Rightarrow> 'w action list \<Rightarrow> bool" where
  "guarded t ok [] = True"
| "guarded t ok (Checked f # as) = (allows t f \<and> guarded t True as)"
| "guarded t ok (a # as) = (ok \<and> guarded t False as)"

lemma guarded_weaken: "guarded t False as \<Longrightarrow> guarded t ok as"
  by (cases as rule: guarded.cases [of "(t, ok, as)" for as, simplified]) (auto elim: guarded.elims)

lemma guarded_append: "guarded t ok as \<Longrightarrow> guarded t False bs \<Longrightarrow> guarded t ok (as @ bs)"
  by (induction t ok as rule: guarded.induct) (auto intro: guarded_weaken)

definition is_submit :: "'w action \<Rightarrow> bool" where
  "is_submit a \<longleftrightarrow> (\<exists>g r. a = SubmitJob g r)"

definition adds :: "tenure \<Rightarrow> 'w kstate \<Rightarrow> 'w action list \<Rightarrow> 'w kstate \<Rightarrow> bool" where
  "adds t s acts s' \<longleftrightarrow> trace s' = trace s @ acts \<and> guarded t False acts"

text \<open>A run that submits nothing, and one that besides leaves the memory alone.\<close>

definition adds_quietly :: "tenure \<Rightarrow> 'w kstate \<Rightarrow> 'w kstate \<Rightarrow> bool" where
  "adds_quietly t s s' \<longleftrightarrow> (\<exists>acts. adds t s acts s' \<and> \<not> list_ex is_submit acts) \<and> kmemory s' = kmemory s"

lemma adds_quietly_refl: "adds_quietly t s s"
  unfolding adds_quietly_def adds_def by (intro conjI exI [of _ "[]"]) auto

lemma adds_quietly_trans: "adds_quietly t s1 s2 \<Longrightarrow> adds_quietly t s2 s3 \<Longrightarrow> adds_quietly t s1 s3"
  unfolding adds_quietly_def adds_def by (fastforce intro: guarded_append)

lemma tick_fixed [simp]: "trace (tick s) = trace s" "kmemory (tick s) = kmemory s" "kobservation (tick s) = kobservation s"
  by (simp_all add: tick_def split: list.splits)

lemma log_fixed [simp]: "kmemory (log_action a s) = kmemory s" "trace (log_action a s) = trace s @ [a]"
  by (simp_all add: log_action_def)

lemma child_fixed [simp]:
  "trace (track s) = trace s" "kmemory (track s) = kmemory s"
  "trace (forget_child s) = trace s" "kmemory (forget_child s) = kmemory s"
  by (simp_all add: track_def forget_child_def Let_def)

lemma check_failed:
  assumes "check t s = (Inl e, s1)"
  shows "e = Interrupted \<and> trace s1 = trace s \<and> kmemory s1 = kmemory s"
  using assms by (auto simp: check_def Let_def split: if_splits)

lemma check_passed:
  assumes "check t s = (Inr u, s1)"
  shows "\<exists>f. trace s1 = trace s @ [Checked f] \<and> allows t f \<and> kmemory s1 = kmemory s"
  using assms by (auto simp: check_def Let_def split: if_splits)

lemma failed_check_quiet: "check t s = (Inl e, s1) \<Longrightarrow> adds_quietly t s s1"
  using check_failed [of t s e s1] unfolding adds_quietly_def adds_def by (intro conjI exI [of _ "[]"]) auto

text \<open>A call after a check that passed.\<close>

lemma checked_call_quiet:
  assumes "check t s = (Inr u, s1)" and "trace s2 = trace s1 @ [a]" and "kmemory s2 = kmemory s1"
    and "\<not> is_submit a" and "\<forall>f. a \<noteq> Checked f"
  shows "adds_quietly t s s2"
proof -
  obtain f where f: "trace s1 = trace s @ [Checked f]" "allows t f" "kmemory s1 = kmemory s"
    using check_passed [OF assms(1)] by blast
  have "guarded t False [Checked f, a]" using f(2) assms(5) by (cases a) auto
  then show ?thesis using f assms(2-4)
    unfolding adds_quietly_def adds_def by (intro conjI exI [of _ "[Checked f, a]"]) (auto simp: is_submit_def)
qed

text \<open>What a write of the record asked of the service, and how its answer was read.\<close>

definition committed_as ::
    "'w kazoo \<Rightarrow> string \<Rightarrow> tenure \<Rightarrow> keeper_record \<Rightarrow> int \<Rightarrow> keeper_error + int \<Rightarrow> 'w \<Rightarrow> 'w \<Rightarrow> bool" where
  "committed_as zk zroot t r version res w w' \<longleftrightarrow>
     (\<exists>answer. zcommit zk w (flink_record_transaction zroot (tenure_epoch t) (to_json r) version) = (answer, w')
        \<and> res = write_outcome answer)"

lemma write_record_cases:
  assumes "write_record zk zroot t r version s = (res, s')"
  obtains (blocked) "res = Inl Interrupted" "adds t s [] s'" "kmemory s' = kmemory s"
  | (issued) f w w' where "adds t s [Checked f, WriteRecord r version res w w'] s'" "kmemory s' = kmemory s"
      "committed_as zk zroot t r version res w w'"
proof (cases "check t s")
  case (Pair c s1)
  show ?thesis
  proof (cases c)
    case (Inl e)
    then show ?thesis using assms Pair check_failed [of t s e s1] blocked
      by (auto simp: write_record_def adds_def)
  next
    case (Inr u)
    obtain f where f: "trace s1 = trace s @ [Checked f]" "allows t f" "kmemory s1 = kmemory s"
      using check_passed [of t s u s1] Pair Inr by blast
    show ?thesis using assms Pair Inr f issued [of f]
      by (auto simp: write_record_def adds_def committed_as_def split: prod.splits)
  qed
qed

lemma write_record_quiet: "write_record zk zroot t r version s = (res, s') \<Longrightarrow> adds_quietly t s s'"
  by (erule write_record_cases) (auto simp: adds_quietly_def is_submit_def intro!: exI)

lemma read_record_quiet: "read_record zk zroot t s = (res, s') \<Longrightarrow> adds_quietly t s s'"
  unfolding read_record_def Let_def
  by (auto split: prod.splits sum.splits
      intro: failed_check_quiet checked_call_quiet simp: is_submit_def)

lemma read_record_found:
  assumes "read_record zk zroot t s = (Inr rv, s')"
  shows "\<exists>f. adds t s [Checked f, ReadRecord (Inr rv)] s' \<and> kmemory s' = kmemory s"
proof (cases "check t s")
  case (Pair c s1)
  then obtain u where u: "c = Inr u" using assms by (cases c) (auto simp: read_record_def)
  from check_passed [of t s u s1] Pair u obtain f where
    "trace s1 = trace s @ [Checked f]" "allows t f" "kmemory s1 = kmemory s" by blast
  then show ?thesis using assms Pair u by (auto simp: read_record_def Let_def adds_def intro!: exI [of _ f])
qed

lemma list_jobs_quiet: "list_jobs api base t s = (res, s') \<Longrightarrow> adds_quietly t s s'"
  unfolding list_jobs_def
  by (auto split: prod.splits sum.splits if_splits
      intro: failed_check_quiet checked_call_quiet simp: is_submit_def)

lemma look_up_states_quiet: "look_up_states api t ids states s = (res, s') \<Longrightarrow> adds_quietly t s s'"
proof (induction ids arbitrary: states s)
  case Nil
  then show ?case by (simp add: adds_quietly_refl)
next
  case (Cons i ids)
  show ?case
  proof (cases "check t s")
    case (Pair c s1)
    show ?thesis
    proof (cases c)
      case (Inl e)
      then show ?thesis using Cons.prems Pair failed_check_quiet [of t s e s1] by simp
    next
      case (Inr u)
      obtain answer w where w: "job_state api i (world s1) = (answer, w)" by (cases "job_state api i (world s1)")
      have "adds_quietly t s (log_action (LookUp i) (s1\<lparr>world := w\<rparr>))"
        using Pair Inr by (intro checked_call_quiet) (auto simp: is_submit_def)
      then show ?thesis using Cons Pair Inr w
        by (auto simp: Let_def split: sum.splits if_splits intro: adds_quietly_trans)
    qed
  qed
qed

lemma cancel_jobs_quiet: "cancel_jobs api t ids s = (res, s') \<Longrightarrow> adds_quietly t s s'"
proof (induction ids arbitrary: s)
  case Nil
  then show ?case by (simp add: adds_quietly_refl)
next
  case (Cons i ids)
  show ?case
  proof (cases "check t s")
    case (Pair c s1)
    show ?thesis
    proof (cases c)
      case (Inl e)
      then show ?thesis using Cons.prems Pair failed_check_quiet [of t s e s1] by simp
    next
      case (Inr u)
      obtain answer w where w: "cancel_job api i (world s1) = (answer, w)" by (cases "cancel_job api i (world s1)")
      have "adds_quietly t s (log_action (CancelJob i) (s1\<lparr>world := w\<rparr>))"
        using Pair Inr by (intro checked_call_quiet) (auto simp: is_submit_def)
      then show ?thesis using Cons Pair Inr w
        by (auto simp: Let_def split: sum.splits if_splits intro: adds_quietly_trans)
    qed
  qed
qed

lemma gather_quiet: "gather api base t r s = (res, s') \<Longrightarrow> adds_quietly t s s'"
  unfolding gather_def
  by (auto split: prod.splits sum.splits option.splits dest!: list_jobs_quiet look_up_states_quiet
      intro: adds_quietly_trans)

lemma marks_fixed [simp]:
  "trace (mark_never_submitted g s) = trace s" "trace (discard_never_submitted g s) = trace s"
  "g \<notin> never_submitted (kmemory (discard_never_submitted g s))"
  by (simp_all add: mark_never_submitted_def discard_never_submitted_def)

lemma adds_append: "adds t s as s1 \<Longrightarrow> adds t s1 bs s2 \<Longrightarrow> adds t s (as @ bs) s2"
  by (auto simp: adds_def intro: guarded_append)

lemma adds_marked: "adds t s as (mark_never_submitted g s') = adds t s as s'"
  "adds t (mark_never_submitted g s) as s' = adds t s as s'"
  by (simp_all add: adds_def)

lemma quietly_obtains:
  assumes "adds_quietly t s s'"
  obtains acts where "adds t s acts s'" "\<not> list_ex is_submit acts" "kmemory s' = kmemory s"
  using assms by (auto simp: adds_quietly_def)

text \<open>After the client returns: no further submission, and only a command that never ran is marked.\<close>

lemma finish_submission_adds:
  assumes "finish_submission zk zroot t r version g (submit_outcome result) s = (res, s')"
  shows "\<exists>acts. adds t s acts s' \<and> \<not> list_ex is_submit acts
    \<and> (result \<noteq> CannotRun \<longrightarrow> kmemory s' = kmemory s)"
proof -
  have none: "\<exists>acts. adds t s acts s \<and> \<not> list_ex is_submit acts"
    using quietly_obtains [OF adds_quietly_refl] by metis
  have settled: "\<exists>acts. adds t st acts s' \<and> \<not> list_ex is_submit acts \<and> kmemory s' = kmemory st"
    if "write_record zk zroot t (r\<lparr>attempts := ats\<rparr>) version st = (x, s')" for ats st x
    using quietly_obtains [OF write_record_quiet [OF that]] by metis
  show ?thesis
  proof (cases "submit_outcome result")
    case (Inr i)
    with assms none show ?thesis
      by (auto simp: finish_submission_def Let_def split: option.splits prod.splits sum.splits dest!: settled)
  next
    case (Inl e)
    show ?thesis
    proof (cases "e = FlinkError")
      case True
      then have "result = CannotRun" using Inl by (auto simp: submit_outcome_def split: process_result.splits sum.splits)
      with assms Inl True show ?thesis
        by (auto simp: finish_submission_def is_flink_error_def adds_marked split: prod.splits sum.splits dest!: settled)
    next
      case False
      then have "e = SubmissionUncertain" using Inl by (auto simp: submit_outcome_def split: process_result.splits sum.splits)
      with assms Inl none show ?thesis by (auto simp: finish_submission_def)
    qed
  qed
qed

lemma submit_generation_cases:
  assumes "submit_generation zk zroot api settings_of t r version g s = (res, s')"
  obtains (quiet) acts where "adds t s acts s'" "\<not> list_ex is_submit acts"
  | (submitted) f pr acts where "adds t s ([Checked f, SubmitJob g pr] @ acts) s'" "\<not> list_ex is_submit acts"
      "pr \<noteq> CannotRun \<longrightarrow> g \<notin> never_submitted (kmemory s')"
proof (cases "check t s")
  case (Pair c s1)
  show ?thesis
  proof (cases c)
    case (Inl e)
    then show ?thesis using assms Pair check_failed [of t s e s1] quiet [of "[]"]
      by (auto simp: submit_generation_def adds_def)
  next
    case (Inr u)
    obtain f where f: "trace s1 = trace s @ [Checked f]" "allows t f"
      using check_passed [of t s u s1] Pair Inr by blast
    show ?thesis
    proof (cases "settings_of g")
      case Bad: (Inl b)
      then show ?thesis using assms Pair Inr f quiet [of "[Checked f]"]
        by (simp add: submit_generation_def adds_def is_submit_def)
    next
      case Good: (Inr st)
      obtain pr w where pr: "popen api (world s1) (submit_command st) = (pr, w)"
        by (cases "popen api (world s1) (submit_command st)")
      let ?s2 = "forget_child (log_action (SubmitJob g pr) (track (discard_never_submitted g (s1\<lparr>world := w\<rparr>))))"
      have start: "adds t s [Checked f, SubmitJob g pr] ?s2" using f by (simp add: adds_def)
      have "finish_submission zk zroot t r version g (submit_outcome pr) ?s2 = (res, s')"
        using assms Pair Inr Good pr by (simp add: submit_generation_def)
      from finish_submission_adds [OF this] obtain acts where
        acts: "adds t ?s2 acts s'" "\<not> list_ex is_submit acts" "pr \<noteq> CannotRun \<longrightarrow> kmemory s' = kmemory ?s2"
        by blast
      show ?thesis using submitted [OF adds_append [OF start acts(1)] acts(2)] acts(3) by auto
    qed
  qed
qed

text \<open>Acting on a plan: nothing is submitted, or the intent was confirmed just before.\<close>

lemma act_on_record_cases:
  assumes "act_on_record zk zroot api settings_of t p version s = (res, s')"
  obtains (quiet) acts where "adds t s acts s'" "\<not> list_ex is_submit acts"
  | (submitted) new g v w w' f1 f2 pr acts where "new_record p = Some new" "submit p = Some g"
      "committed_as zk zroot t (new\<lparr>epoch := Some (tenure_epoch t)\<rparr>) version (Inr v) w w'"
      "adds t s ([Checked f1, WriteRecord (new\<lparr>epoch := Some (tenure_epoch t)\<rparr>) version (Inr v) w w',
         Checked f2, SubmitJob g pr] @ acts) s'"
      "\<not> list_ex is_submit acts" "pr \<noteq> CannotRun \<longrightarrow> g \<notin> never_submitted (kmemory s')"
proof (cases "new_record p")
  case None
  then show ?thesis using assms quiet [of "[]"] by (simp add: act_on_record_def adds_def)
next
  case (Some new)
  let ?r = "new\<lparr>epoch := Some (tenure_epoch t)\<rparr>"
  obtain x s1 where w: "write_record zk zroot t ?r version s = (x, s1)"
    by (cases "write_record zk zroot t ?r version s")
  from quietly_obtains [OF write_record_quiet [OF w]] obtain a1 where
    a1: "adds t s a1 s1" "\<not> list_ex is_submit a1" by metis
  show ?thesis
  proof (cases "\<exists>v g. x = Inr v \<and> submit p = Some g")
    case False
    then have "\<exists>acts. adds t s acts s' \<and> \<not> list_ex is_submit acts"
      using assms Some w a1
      by (cases x; cases "submit p") (auto simp: act_on_record_def adds_marked split: if_splits)
    then show ?thesis using quiet by blast
  next
    case True
    then obtain v g where v: "x = Inr v" "submit p = Some g" by blast
    have sub: "submit_generation zk zroot api settings_of t ?r v g s1 = (res, s')"
      using assms Some w v by (simp add: act_on_record_def)
    obtain f1 u u' where f1: "adds t s [Checked f1, WriteRecord ?r version (Inr v) u u'] s1"
      and u: "committed_as zk zroot t ?r version (Inr v) u u'"
      using w v by (auto elim: write_record_cases)
    from sub show ?thesis
    proof (cases rule: submit_generation_cases)
      case (quiet acts)
      then show ?thesis using that(1) [OF adds_append [OF a1(1) quiet(1)]] a1(2) by simp
    next
      case (submitted f pr acts)
      then show ?thesis using that(2) [OF Some v(2) u] adds_append [OF f1 submitted(1)] by auto
    qed
  qed
qed

lemma observe_fixed [simp]: "trace (observe t ob s) = trace s" "kmemory (observe t ob s) = kmemory s"
  by (simp_all add: observe_def Let_def)

text \<open>
  A submission in a run: the only one, right after a confirmed write of its intent and a check.
  The relation \<open>effect\<close> says what that write did to the service.
\<close>

definition intent_first ::
    "(keeper_record \<Rightarrow> int \<Rightarrow> int \<Rightarrow> 'w \<Rightarrow> 'w \<Rightarrow> bool) \<Rightarrow> tenure \<Rightarrow> 'w action list \<Rightarrow> int \<Rightarrow> process_result \<Rightarrow> bool" where
  "intent_first effect t acts g pr \<longleftrightarrow>
     (\<exists>pre post f1 f2 r v v' w w' wall.
        acts = pre @ [Checked f1, WriteRecord r v (Inr v') w w', Checked f2, SubmitJob g pr] @ post
        \<and> effect r v v' w w' \<and> \<not> list_ex is_submit pre \<and> \<not> list_ex is_submit post
        \<and> generation r = g \<and> epoch r = Some (tenure_epoch t)
        \<and> map_of (attempts r) g = Some \<lparr>job_id = None, submitted_at = Some wall\<rparr>)"

abbreviation confirmed_by :: "'w kazoo \<Rightarrow> string \<Rightarrow> tenure \<Rightarrow> int \<Rightarrow> keeper_record \<Rightarrow> int \<Rightarrow> int \<Rightarrow> 'w \<Rightarrow> 'w \<Rightarrow> bool" where
  "confirmed_by zk zroot t version \<equiv> \<lambda>r v v' w w'. v = version \<and> committed_as zk zroot t r v (Inr v') w w'"

text \<open>A cycle that submits has read a record first: the submission is of the next generation after it.\<close>

definition submits_next ::
    "(int \<Rightarrow> keeper_record \<Rightarrow> int \<Rightarrow> int \<Rightarrow> 'w \<Rightarrow> 'w \<Rightarrow> bool) \<Rightarrow> tenure \<Rightarrow> 'w action list \<Rightarrow> int \<Rightarrow> process_result \<Rightarrow> bool" where
  "submits_next effect t acts g pr \<longleftrightarrow>
     (\<exists>f r0 version rest. acts = [Checked f, ReadRecord (Inr (r0, version))] @ rest \<and> g = generation r0 + 1
        \<and> intent_first (effect version) t rest g pr)"

lemma act_adds:
  assumes "act zk zroot api settings_of t p version s = (res, s')"
    and plan: "p = fst (decide r listing states m now wall)"
  shows "\<exists>acts. adds t s acts s' \<and>
    (list_ex is_submit acts \<longrightarrow> (\<exists>g pr. g = generation r + 1 \<and> intent_first (confirmed_by zk zroot t version) t acts g pr
       \<and> (pr \<noteq> CannotRun \<longrightarrow> g \<notin> never_submitted (kmemory s'))))"
proof -
  obtain c s1 where c: "cancel_jobs api t (cancel p) s = (c, s1)" by (cases "cancel_jobs api t (cancel p) s")
  obtain a1 where a1: "adds t s a1 s1" "\<not> list_ex is_submit a1"
    using quietly_obtains [OF cancel_jobs_quiet [OF c]] by metis
  show ?thesis
  proof (cases c)
    case (Inl e)
    then show ?thesis using assms(1) c a1 by (auto simp: act_def)
  next
    case (Inr u)
    obtain x s2 where x: "act_on_record zk zroot api settings_of t p version s1 = (x, s2)"
      by (cases "act_on_record zk zroot api settings_of t p version s1")
    have s': "trace s' = trace s2 \<and> kmemory s' = kmemory s2"
      using assms(1) c Inr x by (auto simp: act_def split: sum.splits)
    have to_s': "adds t s acts s2 \<Longrightarrow> adds t s acts s'" for acts using s' by (simp add: adds_def)
    from x show ?thesis
    proof (cases rule: act_on_record_cases)
      case (quiet acts)
      then show ?thesis using to_s' [OF adds_append [OF a1(1) quiet(1)]] a1(2) by auto
    next
      case (submitted new g v w w' f1 f2 pr acts)
      from decide_records_intent [of r listing states m now wall g] submitted(1,2) plan
      have new: "g = generation r + 1" "generation new = g" "map_of (attempts new) g = Some \<lparr>job_id = None, submitted_at = Some wall\<rparr>"
        by auto
      have "adds t s (a1 @ [Checked f1, WriteRecord (new\<lparr>epoch := Some (tenure_epoch t)\<rparr>) version (Inr v) w w',
          Checked f2, SubmitJob g pr] @ acts) s'"
        by (rule to_s' [OF adds_append [OF a1(1) submitted(4)]])
      moreover have "intent_first (confirmed_by zk zroot t version) t (a1 @ [Checked f1, WriteRecord (new\<lparr>epoch := Some (tenure_epoch t)\<rparr>) version (Inr v) w w',
          Checked f2, SubmitJob g pr] @ acts) g pr"
        unfolding intent_first_def using a1(2) submitted(3,5) new
        by (intro exI [of _ a1] exI [of _ acts] exI [of _ f1] exI [of _ f2]
            exI [of _ "new\<lparr>epoch := Some (tenure_epoch t)\<rparr>"] exI [of _ version] exI [of _ v]
            exI [of _ w] exI [of _ w'] exI [of _ wall]) simp
      moreover have "pr \<noteq> CannotRun \<longrightarrow> g \<notin> never_submitted (kmemory s')" using submitted(6) s' by simp
      ultimately show ?thesis using new(1) by blast
    qed
  qed
qed

lemma intent_first_append:
  assumes "\<not> list_ex is_submit as" and "intent_first effect t bs g pr"
  shows "intent_first effect t (as @ bs) g pr"
proof -
  obtain pre post f1 f2 r v v' w w' wall where d:
    "bs = pre @ [Checked f1, WriteRecord r v (Inr v') w w', Checked f2, SubmitJob g pr] @ post" "effect r v v' w w'"
    "\<not> list_ex is_submit pre" "\<not> list_ex is_submit post" "generation r = g" "epoch r = Some (tenure_epoch t)"
    "map_of (attempts r) g = Some \<lparr>job_id = None, submitted_at = Some wall\<rparr>"
    using assms(2) unfolding intent_first_def by blast
  show ?thesis unfolding intent_first_def
    by (intro exI [of _ "as @ pre"] exI [of _ post] exI [of _ f1] exI [of _ f2]
            exI [of _ r] exI [of _ v] exI [of _ v'] exI [of _ w] exI [of _ w'] exI [of _ wall]) (use d assms(1) in simp)
qed

lemma cycle_adds:
  assumes "cycle zk zroot api base settings_of t now wall s = (res, s')"
  shows "\<exists>acts. adds t s acts s' \<and>
    (list_ex is_submit acts \<longrightarrow> (\<exists>g pr. submits_next (confirmed_by zk zroot t) t acts g pr
       \<and> (pr \<noteq> CannotRun \<longrightarrow> g \<notin> never_submitted (kmemory s'))))"
proof -
  obtain c s1 where c: "read_record zk zroot t s = (c, s1)" by (cases "read_record zk zroot t s")
  obtain a1 where a1: "adds t s a1 s1" "\<not> list_ex is_submit a1"
    using quietly_obtains [OF read_record_quiet [OF c]] by metis
  show ?thesis
  proof (cases c)
    case (Inl e)
    then show ?thesis using assms c a1 by (auto simp: cycle_def)
  next
    case (Inr rv)
    obtain r version where rv: "rv = (r, version)" by (cases rv)
    obtain d s2 where d: "gather api base t r s1 = (d, s2)" by (cases "gather api base t r s1")
    obtain a2 where a2: "adds t s1 a2 s2" "\<not> list_ex is_submit a2"
      using quietly_obtains [OF gather_quiet [OF d]] by metis
    obtain f where f: "adds t s [Checked f, ReadRecord (Inr (r, version))] s1"
      using read_record_found [of zk zroot t s rv s1] c Inr rv by auto
    have a12: "adds t s ([Checked f, ReadRecord (Inr (r, version))] @ a2) s2" by (rule adds_append [OF f a2(1)])
    have quiet: "\<not> list_ex is_submit ([Checked f, ReadRecord (Inr (r, version))] @ a2)" using a2(2) by (simp add: is_submit_def)
    show ?thesis
    proof (cases d)
      case Bad: (Inl e)
      then have "s' = s2" using assms c Inr rv d by (auto simp: cycle_def)
      with a12 quiet show ?thesis by blast
    next
      case Good: (Inr ls)
      obtain listing states where ls: "ls = (listing, states)" by (cases ls)
      obtain p m where p: "decide r listing states (kmemory s2) now wall = (p, m)"
        by (cases "decide r listing states (kmemory s2) now wall")
      have "act zk zroot api settings_of t p version (s2\<lparr>kmemory := m\<rparr>) = (res, s')"
        using assms c Inr rv d Good ls p by (simp add: cycle_def)
      from act_adds [OF this, of r listing states "kmemory s2" now wall] p obtain a3 where
        a3: "adds t (s2\<lparr>kmemory := m\<rparr>) a3 s'"
          "list_ex is_submit a3 \<longrightarrow> (\<exists>g pr. g = generation r + 1 \<and> intent_first (confirmed_by zk zroot t version) t a3 g pr
          \<and> (pr \<noteq> CannotRun \<longrightarrow> g \<notin> never_submitted (kmemory s')))" by auto
      have "adds t s2 a3 s'" using a3(1) by (simp add: adds_def)
      then have run: "adds t s (([Checked f, ReadRecord (Inr (r, version))] @ a2) @ a3) s'" by (rule adds_append [OF a12])
      have "\<exists>g pr. submits_next (confirmed_by zk zroot t) t (([Checked f, ReadRecord (Inr (r, version))] @ a2) @ a3) g pr
          \<and> (pr \<noteq> CannotRun \<longrightarrow> g \<notin> never_submitted (kmemory s'))"
        if "list_ex is_submit (([Checked f, ReadRecord (Inr (r, version))] @ a2) @ a3)"
      proof -
        from that quiet have "list_ex is_submit a3" by simp
        with a3(2) obtain g pr where g: "g = generation r + 1" "intent_first (confirmed_by zk zroot t version) t a3 g pr"
          "pr \<noteq> CannotRun \<longrightarrow> g \<notin> never_submitted (kmemory s')" by blast
        have "submits_next (confirmed_by zk zroot t) t (([Checked f, ReadRecord (Inr (r, version))] @ a2) @ a3) g pr"
          unfolding submits_next_def using g(1) intent_first_append [OF a2(2) g(2)] by auto
        with g(3) show ?thesis by blast
      qed
      with run show ?thesis by blast
    qed
  qed
qed

lemma intent_first_unique:
  assumes "intent_first effect t acts g pr" and "SubmitJob g' pr' \<in> set acts"
  shows "g' = g \<and> pr' = pr"
proof -
  have none: "SubmitJob g' pr' \<notin> set xs" if "\<not> list_ex is_submit xs" for xs
    using that unfolding list_ex_iff is_submit_def by blast
  from assms show ?thesis unfolding intent_first_def by (auto dest!: none)
qed

lemma intent_first_mono:
  assumes "intent_first effect t acts g pr" and "\<And>r v v' w w'. effect r v v' w w' \<Longrightarrow> effect' r v v' w w'"
  shows "intent_first effect' t acts g pr"
  using assms unfolding intent_first_def by blast

text \<open>
  What a fenced write means to the tree: when it was applied the epoch node was at the tenure's
  epoch and the record at the version read, and only the record changed, to the new document and
  its next version.
\<close>

definition fenced_write ::
    "('w \<Rightarrow> ztree) \<Rightarrow> string \<Rightarrow> tenure \<Rightarrow> keeper_record \<Rightarrow> int \<Rightarrow> int \<Rightarrow> 'w \<Rightarrow> 'w \<Rightarrow> bool" where
  "fenced_write tree zroot t r v v' w w' \<longleftrightarrow>
     (\<exists>n f. tree w (epoch_path zroot) = Some n \<and> zversion n = tenure_epoch t
        \<and> tree w (flink_path zroot) = Some f \<and> zversion f = v \<and> v' = v + 1
        \<and> tree w' = (tree w)(flink_path zroot \<mapsto> f\<lparr>zdata := Doc (to_json r), zversion := v'\<rparr>))"

context zookeeper_answers
begin

lemma confirmed_is_fenced:
  assumes "committed_as zk zroot t r v (Inr v') w w'"
  shows "fenced_write tree zroot t r v v' w w'"
proof -
  let ?ops = "flink_record_transaction zroot (tenure_epoch t) (to_json r) v"
  obtain rs where c: "zcommit zk w ?ops = (Inr rs, w')" "flink_record_outcome rs = Inr v'"
  proof -
    from assms obtain answer where "zcommit zk w ?ops = (answer, w')" "Inr v' = write_outcome answer"
      by (auto simp: committed_as_def)
    then show ?thesis using that
      by (cases answer) (auto simp: write_outcome_def split: sum.splits)
  qed
  show ?thesis using answered_commit_law [OF c(1)] c(2)
    by (auto simp: fenced_write_def flink_record_transaction_def failed_results_def upt_rec
        split: option.splits if_splits sum.splits)
qed

end

lemma submits_next_mono:
  assumes "submits_next effect t acts g pr" and "\<And>u r v v' w w'. effect u r v v' w w' \<Longrightarrow> effect' u r v v' w w'"
  shows "submits_next effect' t acts g pr"
  using assms intent_first_mono [of "effect _" t _ g pr "effect' _"] unfolding submits_next_def by blast

lemma submits_next_unique:
  assumes "submits_next effect t acts g pr" and "SubmitJob g' pr' \<in> set acts"
  shows "g' = g \<and> pr' = pr"
  using assms intent_first_unique [of "effect _" t _ g pr] unfolding submits_next_def by fastforce

abbreviation fenced_at :: "('w \<Rightarrow> ztree) \<Rightarrow> string \<Rightarrow> tenure \<Rightarrow> int \<Rightarrow> keeper_record \<Rightarrow> int \<Rightarrow> int \<Rightarrow> 'w \<Rightarrow> 'w \<Rightarrow> bool" where
  "fenced_at tree zroot t version \<equiv> \<lambda>r v v' w w'. v = version \<and> fenced_write tree zroot t r v v' w w'"

section \<open>Properties\<close>

text \<open>
  C1: A cycle submits at most one generation, the next after the record it read first, and only
  right after a confirmed write of the record and a further check. That write was fenced: when
  ZooKeeper applied it, the epoch node was at the tenure's epoch and the record at the version the
  cycle had read, and it changed the record alone, to one of that generation and epoch with an
  attempt that has no job id yet. So the intent is durable before Flink hears of it, and no deposed
  leader's. If the client ran, whatever it reported, the memory does not call the generation never
  submitted. ZooKeeper's part is the contract \<open>zookeeper_answers\<close>: an answered transaction was
  applied whole or not at all.
\<close>

theorem submission_follows_recorded_intent:
  assumes "zookeeper_answers zk tree live"
    and "cycle zk zroot api base settings_of t now wall s = (res, s')"
    and "trace s' = trace s @ acts" and "SubmitJob g pr \<in> set acts"
  shows "submits_next (fenced_at tree zroot t) t acts g pr
    \<and> (pr \<noteq> CannotRun \<longrightarrow> g \<notin> never_submitted (kmemory s'))"
proof -
  from cycle_adds [OF assms(2)] obtain acts' where a: "adds t s acts' s'"
    "list_ex is_submit acts' \<longrightarrow> (\<exists>g pr. submits_next (confirmed_by zk zroot t) t acts' g pr
       \<and> (pr \<noteq> CannotRun \<longrightarrow> g \<notin> never_submitted (kmemory s')))" by blast
  from a(1) assms(3) have "acts' = acts" by (simp add: adds_def)
  moreover have "list_ex is_submit acts" using assms(4) by (auto simp: list_ex_iff is_submit_def)
  ultimately have run: "submits_next (confirmed_by zk zroot t) t acts g pr
      \<and> (pr \<noteq> CannotRun \<longrightarrow> g \<notin> never_submitted (kmemory s'))"
    using a(2) submits_next_unique [of _ t acts] assms(4) by blast
  moreover from run have "submits_next (fenced_at tree zroot t) t acts g pr"
    using zookeeper_answers.confirmed_is_fenced [OF assms(1)] by (auto elim!: submits_next_mono)
  ultimately show ?thesis by blast
qed

text \<open>
  Every call a cycle makes, to ZooKeeper or to Flink, directly follows a check that found the
  keeper running, the tenure active and leadership known. However the flags change meanwhile,
  nothing is started on an older verdict.
\<close>

theorem every_call_is_checked:
  "\<exists>acts. trace (snd (cycle zk zroot api base settings_of t now wall s)) = trace s @ acts \<and> guarded t False acts"
  using cycle_adds [of zk zroot api base settings_of t now wall s] by (fastforce simp: adds_def prod_eq_iff)

section \<open>Witness\<close>

definition ex_services :: "tree_world flink_services" where
  "ex_services =
     \<lparr>fetch = (\<lambda>w path m. (Body (JObj [(''jobs'', JArr [])]), w)),
      popen = (\<lambda>w command. (Ran False 0 (submitted_prefix @ ex_id), w))\<rparr>"

definition ex_tenure :: tenure where "ex_tenure = \<lparr>tenure_id = 0, tenure_epoch = 1\<rparr>"

definition ex_kstate :: "tree_world kstate" where
  "ex_kstate = \<lparr>world = ex_world, flags = \<lparr>is_stopped = False, retired = {}, leads = \<lparr>connected = True, tenure_void = False\<rparr>\<rparr>,
     interference = [], kmemory = fresh_memory, kobservation = None, kchild = False, trace = []\<rparr>"

definition ex_cycle :: "(keeper_error + string) \<times> tree_world kstate" where
  "ex_cycle = cycle tree_client ''/p'' ex_services ''w'' (\<lambda>g. Inr default_settings) ex_tenure 5 ''t'' ex_kstate"

fun submissions :: "'w action list \<Rightarrow> (int \<times> process_result) list" where
  "submissions [] = []"
| "submissions (SubmitJob g pr # as) = (g, pr) # submissions as"
| "submissions (_ # as) = submissions as"

lemma submissions_made: "(g, pr) \<in> set (submissions as) \<Longrightarrow> SubmitJob g pr \<in> set as"
  by (induction as rule: submissions.induct) auto

lemma ex_cycle_submits: "SubmitJob 1 (Ran False 0 (submitted_prefix @ ex_id)) \<in> set (trace (snd ex_cycle))"
  by (rule submissions_made) code_simp

theorem submission_follows_recorded_intent_witness:
  "submits_next (fenced_at wnodes ''/p'' ex_tenure) ex_tenure (trace (snd ex_cycle)) 1 (Ran False 0 (submitted_prefix @ ex_id))
     \<and> 1 \<notin> never_submitted (kmemory (snd ex_cycle))"
proof -
  have c: "cycle tree_client ''/p'' ex_services ''w'' (\<lambda>g. Inr default_settings) ex_tenure 5 ''t'' ex_kstate
      = (fst ex_cycle, snd ex_cycle)"
    by (simp add: ex_cycle_def)
  from submission_follows_recorded_intent [OF ref_answers.zookeeper_answers_axioms c _ ex_cycle_submits] show ?thesis
    by (simp add: ex_kstate_def)
qed

end
