(* ===== verification/Fanout.thy ===== *)
theory Fanout
  imports Pipeline_Prelude "HOL-Library.Sublist"
begin

text \<open>
  \<open>fanout.py\<close> with the WebSocket route of \<open>api.py\<close> that owns its admission: the hub's
  counters and members, the bounded queues, and one socket's life as phases. Everything runs on
  one event loop, so a step of the relation is what runs between two awaits.

  The hub holds every socket it ever saw, by number; \<open>_members\<close> is a list of such numbers. Two
  fields are the model's own and no operation reads them: \<open>history\<close>, the texts broadcast so far,
  and \<open>joined_at\<close>, its length when a socket joined.
\<close>

section \<open>State\<close>

definition TRY_AGAIN_LATER :: nat where "TRY_AGAIN_LATER = 1013"

datatype socket_phase = Accepting | Serving | Closing bool | Left | Done

record member =
  phase :: socket_phase
  queue :: "string list"
  evicted :: bool
  sent :: "string list"
  closed_with :: "nat option"
  first_text :: string
  joined_at :: nat

record hub =
  hub_limit :: int
  queue_size :: nat
  admitted :: int
  members :: "nat list"
  evictions :: nat
  sockets :: "member list"
  history :: "string list"

definition new_hub :: "int \<Rightarrow> nat \<Rightarrow> hub" where
  "new_hub cap qs =
     \<lparr>hub_limit = cap, queue_size = qs, admitted = 0, members = [], evictions = 0, sockets = [], history = []\<rparr>"

section \<open>The hub\<close>

definition hub_admit :: "hub \<Rightarrow> bool \<times> hub" where
  "hub_admit h = (if admitted h \<ge> hub_limit h then (False, h) else (True, h\<lparr>admitted := admitted h + 1\<rparr>))"

definition hub_release :: "hub \<Rightarrow> hub" where
  "hub_release h = h\<lparr>admitted := admitted h - 1\<rparr>"

definition set_socket :: "nat \<Rightarrow> member \<Rightarrow> hub \<Rightarrow> hub" where
  "set_socket i m h = h\<lparr>sockets := (sockets h)[i := m]\<rparr>"

text \<open>\<open>asyncio.Queue(maxsize)\<close> is unbounded for a size of zero.\<close>

definition queue_full :: "hub \<Rightarrow> member \<Rightarrow> bool" where
  "queue_full h m \<longleftrightarrow> 0 < queue_size h \<and> queue_size h \<le> length (queue m)"

definition join :: "string \<Rightarrow> nat \<Rightarrow> hub \<Rightarrow> hub" where
  "join first i h =
     (set_socket i ((sockets h ! i)\<lparr>phase := Serving, queue := [first], evicted := False,
        first_text := first, joined_at := length (history h)\<rparr>) h)\<lparr>members := members h @ [i]\<rparr>"

definition leave :: "nat \<Rightarrow> hub \<Rightarrow> hub" where
  "leave i h = h\<lparr>members := removeAll i (members h)\<rparr>"

definition evict :: "nat \<Rightarrow> hub \<Rightarrow> hub" where
  "evict i h =
     (let h1 = h\<lparr>members := removeAll i (members h), evictions := evictions h + 1\<rparr>
      in set_socket i ((sockets h1 ! i)\<lparr>evicted := True\<rparr>) h1)"

text \<open>One turn of the broadcast's loop: \<open>put_nowait\<close>, and \<open>QueueFull\<close>.\<close>

definition offer :: "string \<Rightarrow> nat \<Rightarrow> hub \<Rightarrow> hub" where
  "offer t i h =
     (let m = sockets h ! i in
      if queue_full h m then evict i h else set_socket i (m\<lparr>queue := queue m @ [t]\<rparr>) h)"

definition broadcast :: "string \<Rightarrow> hub \<Rightarrow> hub" where
  "broadcast t h = (fold (offer t) (members h) h)\<lparr>history := history h @ [t]\<rparr>"

section \<open>One socket's life\<close>

text \<open>\<open>pageviews\<close> up to \<open>accept\<close>: a foreign or missing origin and a full hub are refused.\<close>

definition allowed_origins :: "nat \<Rightarrow> string list" where
  "allowed_origins port = [''http://localhost:'' @ show_nat port, ''http://127.0.0.1:'' @ show_nat port]"

definition origin_allowed :: "string option \<Rightarrow> string list \<Rightarrow> bool" where
  "origin_allowed origin allowed = (case origin of None \<Rightarrow> False | Some s \<Rightarrow> s \<in> set allowed)"

definition new_socket :: member where
  "new_socket = \<lparr>phase = Accepting, queue = [], evicted = False, sent = [], closed_with = None,
     first_text = [], joined_at = 0\<rparr>"

definition handshake :: "string option \<Rightarrow> string list \<Rightarrow> hub \<Rightarrow> bool \<times> hub" where
  "handshake origin allowed h =
     (if \<not> origin_allowed origin allowed then (False, h)
      else case hub_admit h of
        (False, h1) \<Rightarrow> (False, h1)
      | (True, h1) \<Rightarrow> (True, h1\<lparr>sockets := sockets h1 @ [new_socket]\<rparr>))"

text \<open>
  \<open>Member.send_all\<close>: the next text leaves the queue for the socket. The task group ends when
  the sender or the receiver ends or the eviction is noticed; the flag is what
  \<open>watch_eviction\<close> recorded. Only then, with the sender gone, an evicted socket is closed.
\<close>

definition send_next :: "nat \<Rightarrow> hub \<Rightarrow> hub" where
  "send_next i h =
     (let m = sockets h ! i in
      case queue m of [] \<Rightarrow> h | t # rest \<Rightarrow> set_socket i (m\<lparr>queue := rest, sent := sent m @ [t]\<rparr>) h)"

definition end_service :: "bool \<Rightarrow> nat \<Rightarrow> hub \<Rightarrow> hub" where
  "end_service saw_eviction i h = set_socket i ((sockets h ! i)\<lparr>phase := Closing saw_eviction\<rparr>) h"

definition finish_attend :: "nat \<Rightarrow> hub \<Rightarrow> hub" where
  "finish_attend i h =
     (let m = sockets h ! i;
          m1 = (case phase m of
                  Closing True \<Rightarrow> m\<lparr>closed_with := Some TRY_AGAIN_LATER, phase := Left\<rparr>
                | _ \<Rightarrow> m\<lparr>phase := Left\<rparr>)
      in leave i (set_socket i m1 h))"

definition finish_route :: "nat \<Rightarrow> hub \<Rightarrow> hub" where
  "finish_route i h = hub_release (set_socket i ((sockets h ! i)\<lparr>phase := Done\<rparr>) h)"

text \<open>
  The interleavings. \<open>accept\<close> may fail, and a cancellation may end the service at any time:
  both lead through the \<open>finally\<close> clauses.
\<close>

inductive hub_step :: "hub \<Rightarrow> hub \<Rightarrow> bool" where
  opens: "handshake origin allowed h = (ok, h1) \<Longrightarrow> hub_step h h1"
| accept_fails: "i < length (sockets h) \<Longrightarrow> phase (sockets h ! i) = Accepting \<Longrightarrow> hub_step h (finish_route i h)"
| attends: "i < length (sockets h) \<Longrightarrow> phase (sockets h ! i) = Accepting \<Longrightarrow> hub_step h (join first i h)"
| sends: "i < length (sockets h) \<Longrightarrow> phase (sockets h ! i) = Serving \<Longrightarrow> hub_step h (send_next i h)"
| broadcasts: "hub_step h (broadcast t h)"
| stops: "i < length (sockets h) \<Longrightarrow> phase (sockets h ! i) = Serving \<Longrightarrow>
    saw \<longrightarrow> evicted (sockets h ! i) \<Longrightarrow> hub_step h (end_service saw i h)"
| leaves: "i < length (sockets h) \<Longrightarrow> phase (sockets h ! i) = Closing saw \<Longrightarrow> hub_step h (finish_attend i h)"
| releases: "i < length (sockets h) \<Longrightarrow> phase (sockets h ! i) = Left \<Longrightarrow> hub_step h (finish_route i h)"

section \<open>The broadcast\<close>

lemma set_socket_simps [simp]:
  "hub_limit (set_socket i m h) = hub_limit h" "queue_size (set_socket i m h) = queue_size h"
  "admitted (set_socket i m h) = admitted h" "members (set_socket i m h) = members h"
  "history (set_socket i m h) = history h" "sockets (set_socket i m h) = (sockets h)[i := m]"
  "evictions (set_socket i m h) = evictions h"
  by (simp_all add: set_socket_def)

definition offered :: "string \<Rightarrow> hub \<Rightarrow> member \<Rightarrow> member" where
  "offered t h m = (if queue_full h m then m\<lparr>evicted := True\<rparr> else m\<lparr>queue := queue m @ [t]\<rparr>)"

lemma offer_fixed [simp]:
  "hub_limit (offer t i h) = hub_limit h" "queue_size (offer t i h) = queue_size h"
  "admitted (offer t i h) = admitted h" "history (offer t i h) = history h"
  "sockets (offer t i h) = (sockets h)[i := offered t h (sockets h ! i)]"
  "members (offer t i h) = (if queue_full h (sockets h ! i) then removeAll i (members h) else members h)"
  "evictions (offer t i h) = evictions h + (if queue_full h (sockets h ! i) then 1 else 0)"
  by (simp_all add: offer_def evict_def offered_def Let_def)

lemma queue_full_offer [simp]: "queue_full (offer t i h) m = queue_full h m"
  by (simp add: queue_full_def)

lemma offered_offer [simp]: "offered t (offer t' i h) m = offered t h m"
  by (simp add: offered_def)

lemma fold_offer:
  assumes "distinct is" and "\<forall>i \<in> set is. i < length (sockets h)"
  shows "hub_limit (fold (offer t) is h) = hub_limit h \<and> queue_size (fold (offer t) is h) = queue_size h
    \<and> admitted (fold (offer t) is h) = admitted h
    \<and> length (sockets (fold (offer t) is h)) = length (sockets h)
    \<and> (\<forall>j < length (sockets h). sockets (fold (offer t) is h) ! j
        = (if j \<in> set is then offered t h (sockets h ! j) else sockets h ! j))
    \<and> members (fold (offer t) is h)
        = filter (\<lambda>j. \<not> (j \<in> set is \<and> queue_full h (sockets h ! j))) (members h)"
  using assms
proof (induction "is" arbitrary: h)
  case Nil
  then show ?case by simp
next
  case (Cons i "is")
  have keep: "sockets (offer t i h) ! j = sockets h ! j" if "j \<noteq> i" for j
    using that by simp
  have IH: "hub_limit (fold (offer t) is (offer t i h)) = hub_limit h
    \<and> queue_size (fold (offer t) is (offer t i h)) = queue_size h
    \<and> admitted (fold (offer t) is (offer t i h)) = admitted h
    \<and> length (sockets (fold (offer t) is (offer t i h))) = length (sockets h)
    \<and> (\<forall>j < length (sockets h). sockets (fold (offer t) is (offer t i h)) ! j
        = (if j \<in> set is then offered t h (sockets (offer t i h) ! j) else sockets (offer t i h) ! j))
    \<and> members (fold (offer t) is (offer t i h))
        = filter (\<lambda>j. \<not> (j \<in> set is \<and> queue_full h (sockets (offer t i h) ! j))) (members (offer t i h))"
    using Cons.IH [of "offer t i h"] Cons.prems by auto
  have ni: "i \<notin> set is" "i < length (sockets h)" using Cons.prems by auto
  have socks: "sockets (fold (offer t) (i # is) h) ! j
      = (if j \<in> set (i # is) then offered t h (sockets h ! j) else sockets h ! j)"
    if "j < length (sockets h)" for j
    using IH ni that by (cases "j = i") auto
  have eq: "(j \<in> set is \<and> queue_full h (sockets (offer t i h) ! j))
      = (j \<in> set is \<and> queue_full h (sockets h ! j))" for j
    using keep ni(1) by metis
  have mem: "members (fold (offer t) (i # is) h)
      = filter (\<lambda>j. \<not> (j \<in> set (i # is) \<and> queue_full h (sockets h ! j))) (members h)"
    using IH unfolding eq by (auto simp: removeAll_filter_not_eq intro!: filter_cong)
  from IH socks mem show ?case by simp
qed

text \<open>Hence a broadcast offers the text to every member once, in whatever order they are visited.\<close>

lemma broadcast_spec:
  assumes "distinct (members h)" and "\<forall>i \<in> set (members h). i < length (sockets h)"
  shows "hub_limit (broadcast t h) = hub_limit h" "queue_size (broadcast t h) = queue_size h"
    "admitted (broadcast t h) = admitted h" "history (broadcast t h) = history h @ [t]"
    "length (sockets (broadcast t h)) = length (sockets h)"
    "j < length (sockets h) \<Longrightarrow> sockets (broadcast t h) ! j
        = (if j \<in> set (members h) then offered t h (sockets h ! j) else sockets h ! j)"
    "members (broadcast t h) = filter (\<lambda>j. \<not> queue_full h (sockets h ! j)) (members h)"
  using fold_offer [OF assms, of t] by (auto simp: broadcast_def intro: filter_cong)

section \<open>The invariant\<close>

definition delivery_ok :: "hub \<Rightarrow> nat \<Rightarrow> member \<Rightarrow> bool" where
  "delivery_ok h i m \<longleftrightarrow>
     sent m @ queue m = [] \<and> i \<notin> set (members h) \<or>
     (\<exists>pre. sent m @ queue m = first_text m # pre \<and> joined_at m \<le> length (history h)
        \<and> prefix pre (drop (joined_at m) (history h))
        \<and> (i \<in> set (members h) \<longrightarrow> pre = drop (joined_at m) (history h)))"

definition socket_ok :: "hub \<Rightarrow> nat \<Rightarrow> member \<Rightarrow> bool" where
  "socket_ok h i m \<longleftrightarrow> delivery_ok h i m
     \<and> (i \<in> set (members h) \<longrightarrow> \<not> evicted m \<and> (phase m = Serving \<or> (\<exists>e. phase m = Closing e)))
     \<and> (phase m = Serving \<and> i \<notin> set (members h) \<longrightarrow> evicted m)
     \<and> (phase m = Accepting \<longrightarrow> sent m = [] \<and> queue m = [])
     \<and> (phase m = Closing True \<longrightarrow> evicted m)
     \<and> (closed_with m \<noteq> None \<longrightarrow> evicted m \<and> (phase m = Left \<or> phase m = Done))
     \<and> (0 < queue_size h \<longrightarrow> length (queue m) \<le> queue_size h)"

definition hub_inv :: "hub \<Rightarrow> bool" where
  "hub_inv h \<longleftrightarrow> distinct (members h) \<and> (\<forall>i \<in> set (members h). i < length (sockets h))
     \<and> admitted h = int (length (filter (\<lambda>m. phase m \<noteq> Done) (sockets h)))
     \<and> admitted h \<le> max 0 (hub_limit h)
     \<and> (\<forall>i < length (sockets h). socket_ok h i (sockets h ! i))"

lemma count_update:
  "i < length xs \<Longrightarrow> int (length (filter P (xs[i := y])))
     = int (length (filter P xs)) + of_bool (P y) - of_bool (P (xs ! i))"
proof (induction xs arbitrary: i)
  case (Cons x xs)
  then show ?case by (cases i) auto
qed simp

lemma socket_ok_cong:
  assumes "i \<in> set (members h) \<longleftrightarrow> i \<in> set (members h1)" and "history h1 = history h" and "queue_size h1 = queue_size h"
  shows "socket_ok h1 i m = socket_ok h i m"
  using assms by (simp add: socket_ok_def delivery_ok_def)

text \<open>A step on one socket: the others keep their membership, the history stays.\<close>

lemma inv_one_socket:
  assumes inv: "hub_inv h" and i: "i < length (sockets h)"
    and socks: "sockets h1 = (sockets h)[i := m]"
    and same: "history h1 = history h" "queue_size h1 = queue_size h" "hub_limit h1 = hub_limit h"
    and mem: "distinct (members h1)" "set (members h1) - {i} = set (members h) - {i}"
    and adm: "admitted h1 = admitted h + of_bool (phase m \<noteq> Done) - of_bool (phase (sockets h ! i) \<noteq> Done)"
    and grow: "phase m \<noteq> Done \<longrightarrow> phase (sockets h ! i) \<noteq> Done"
    and ok: "socket_ok h1 i m"
  shows "hub_inv h1"
proof -
  have "socket_ok h1 j (sockets h1 ! j)" if "j < length (sockets h1)" for j
  proof (cases "j = i")
    case True
    then show ?thesis using ok socks i by simp
  next
    case False
    then have "j \<in> set (members h1) \<longleftrightarrow> j \<in> set (members h)" using mem(2) by auto
    then have "socket_ok h1 j (sockets h ! j) = socket_ok h j (sockets h ! j)"
      using same by (intro socket_ok_cong) auto
    then show ?thesis using inv that False by (simp add: hub_inv_def socks)
  qed
  moreover have "\<forall>j \<in> set (members h1). j < length (sockets h1)"
    using inv mem(2) i unfolding hub_inv_def socks by (metis Diff_iff length_list_update singletonD singletonI)
  moreover have "admitted h1 \<le> max 0 (hub_limit h1)"
    using inv adm grow same(3) by (auto simp: hub_inv_def)
  moreover have "admitted h1 = int (length (filter (\<lambda>m. phase m \<noteq> Done) (sockets h1)))"
    using inv adm socks count_update [OF i, of "\<lambda>m. phase m \<noteq> Done" m] by (simp add: hub_inv_def)
  ultimately show ?thesis using mem(1) by (simp add: hub_inv_def)
qed

lemma inv_socket: "hub_inv h \<Longrightarrow> i < length (sockets h) \<Longrightarrow> socket_ok h i (sockets h ! i)"
  by (simp add: hub_inv_def)

lemma inv_members: "hub_inv h \<Longrightarrow> distinct (members h) \<and> (\<forall>i \<in> set (members h). i < length (sockets h))"
  by (simp add: hub_inv_def)

lemma inv_new_hub: "hub_inv (new_hub cap qs)"
  by (simp add: hub_inv_def new_hub_def)

lemma inv_opens:
  assumes "hub_inv h" and "handshake origin allowed h = (ok, h1)"
  shows "hub_inv h1"
proof (cases "origin_allowed origin allowed \<and> admitted h < hub_limit h")
  case True
  then have h1: "h1 = h\<lparr>admitted := admitted h + 1, sockets := sockets h @ [new_socket]\<rparr>"
    using assms(2) by (auto simp: handshake_def hub_admit_def)
  have out: "length (sockets h) \<notin> set (members h)" using assms(1) by (auto simp: hub_inv_def)
  have same: "socket_ok h1 i m = socket_ok h i m" for i m
    using h1 by (intro socket_ok_cong) auto
  have "socket_ok h (length (sockets h)) new_socket"
    using out by (simp add: socket_ok_def delivery_ok_def new_socket_def)
  then show ?thesis
    using assms(1) True unfolding hub_inv_def same
    by (auto simp: h1 nth_append new_socket_def less_Suc_eq)
next
  case False
  then show ?thesis using assms by (auto simp: handshake_def hub_admit_def split: if_splits)
qed

lemma inv_finish_route:
  assumes "hub_inv h" and i: "i < length (sockets h)"
    and "phase (sockets h ! i) = Accepting \<or> phase (sockets h ! i) = Left"
  shows "hub_inv (finish_route i h)"
proof (rule inv_one_socket [OF assms(1) i])
  let ?m = "(sockets h ! i)\<lparr>phase := Done\<rparr>"
  show "sockets (finish_route i h) = (sockets h)[i := ?m]"
    by (simp add: finish_route_def hub_release_def)
  show "socket_ok (finish_route i h) i ?m"
    using inv_socket [OF assms(1) i] assms(3)
    by (auto simp: finish_route_def hub_release_def socket_ok_def delivery_ok_def)
qed (use assms inv_members [OF assms(1)] in \<open>auto simp: finish_route_def hub_release_def\<close>)

lemma inv_join:
  assumes "hub_inv h" and i: "i < length (sockets h)" and acc: "phase (sockets h ! i) = Accepting"
  shows "hub_inv (join first i h)"
proof (rule inv_one_socket [OF assms(1) i])
  let ?m = "(sockets h ! i)\<lparr>phase := Serving, queue := [first], evicted := False,
        first_text := first, joined_at := length (history h)\<rparr>"
  have ok: "socket_ok h i (sockets h ! i)" by (rule inv_socket [OF assms(1) i])
  then have out: "i \<notin> set (members h)" and clean: "sent (sockets h ! i) = []" "closed_with (sockets h ! i) = None"
    using acc by (auto simp: socket_ok_def)
  show "sockets (join first i h) = (sockets h)[i := ?m]" by (simp add: join_def)
  show "socket_ok (join first i h) i ?m"
    using clean by (auto simp: join_def socket_ok_def delivery_ok_def)
  show "distinct (members (join first i h))" using out inv_members [OF assms(1)] by (simp add: join_def)
qed (use acc in \<open>auto simp: join_def\<close>)

lemma inv_send_next:
  assumes "hub_inv h" and i: "i < length (sockets h)" and srv: "phase (sockets h ! i) = Serving"
  shows "hub_inv (send_next i h)"
proof (cases "queue (sockets h ! i)")
  case Nil
  then show ?thesis using assms(1) by (simp add: send_next_def Let_def)
next
  case (Cons t rest)
  let ?m = "(sockets h ! i)\<lparr>queue := rest, sent := sent (sockets h ! i) @ [t]\<rparr>"
  have eq: "send_next i h = set_socket i ?m h" using Cons by (simp add: send_next_def Let_def)
  show ?thesis unfolding eq
  proof (rule inv_one_socket [OF assms(1) i])
    show "sockets (set_socket i ?m h) = (sockets h)[i := ?m]" by simp
    show "socket_ok (set_socket i ?m h) i ?m"
      using inv_socket [OF assms(1) i] srv Cons by (auto simp: socket_ok_def delivery_ok_def)
  qed (use srv inv_members [OF assms(1)] in auto)
qed

lemma inv_end_service:
  assumes "hub_inv h" and i: "i < length (sockets h)" and srv: "phase (sockets h ! i) = Serving"
    and saw: "saw \<longrightarrow> evicted (sockets h ! i)"
  shows "hub_inv (end_service saw i h)"
  unfolding end_service_def
proof (rule inv_one_socket [OF assms(1) i])
  let ?m = "(sockets h ! i)\<lparr>phase := Closing saw\<rparr>"
  show "sockets (set_socket i ?m h) = (sockets h)[i := ?m]" by simp
  show "socket_ok (set_socket i ?m h) i ?m"
    using inv_socket [OF assms(1) i] srv saw by (auto simp: socket_ok_def delivery_ok_def)
qed (use srv inv_members [OF assms(1)] in auto)

lemma inv_finish_attend:
  assumes "hub_inv h" and i: "i < length (sockets h)" and cl: "phase (sockets h ! i) = Closing saw"
  shows "hub_inv (finish_attend i h)"
proof (rule inv_one_socket [OF assms(1) i])
  let ?m = "(sockets h ! i)\<lparr>closed_with := if saw then Some TRY_AGAIN_LATER else closed_with (sockets h ! i), phase := Left\<rparr>"
  show socks: "sockets (finish_attend i h) = (sockets h)[i := ?m]"
    using cl by (cases saw) (simp_all add: finish_attend_def leave_def)
  show "socket_ok (finish_attend i h) i ?m"
    using inv_socket [OF assms(1) i] cl
    by (cases saw) (auto simp: finish_attend_def leave_def socket_ok_def delivery_ok_def)
qed (use cl inv_members [OF assms(1)] in \<open>auto simp: finish_attend_def leave_def distinct_removeAll Let_def\<close>)

lemma delivery_offered:
  assumes "delivery_ok h i m" and "history h1 = history h @ [t]" and "i \<in> set (members h)"
    and "i \<in> set (members h1) \<longleftrightarrow> \<not> queue_full h m"
  shows "delivery_ok h1 i (offered t h m)"
  using assms by (auto simp: delivery_ok_def offered_def intro: prefix_order.trans)

lemma delivery_others:
  assumes "delivery_ok h i m" and "history h1 = history h @ [t]" and "i \<notin> set (members h)" "i \<notin> set (members h1)"
  shows "delivery_ok h1 i m"
  using assms by (auto simp: delivery_ok_def)

lemma inv_broadcast:
  assumes inv: "hub_inv h"
  shows "hub_inv (broadcast t h)"
proof -
  note spec = broadcast_spec [OF conjunct1 [OF inv_members [OF inv]] conjunct2 [OF inv_members [OF inv]], where t = t]
  have phases: "map phase (sockets (broadcast t h)) = map phase (sockets h)"
    by (rule nth_equalityI) (auto simp: spec offered_def)
  have counts: "length (filter (\<lambda>m. phase m \<noteq> Done) (sockets (broadcast t h)))
      = length (filter (\<lambda>m. phase m \<noteq> Done) (sockets h))"
    using arg_cong [OF phases, of "\<lambda>ps. length (filter (\<lambda>p. p \<noteq> Done) ps)"]
    by (simp add: filter_map comp_def)
  have "socket_ok (broadcast t h) i (sockets (broadcast t h) ! i)" if i: "i < length (sockets h)" for i
  proof -
    have ok: "socket_ok h i (sockets h ! i)" by (rule inv_socket [OF inv i])
    then have d: "delivery_ok h i (sockets h ! i)" by (simp add: socket_ok_def)
    show ?thesis
    proof (cases "i \<in> set (members h)")
      case True
      have "delivery_ok (broadcast t h) i (offered t h (sockets h ! i))"
        by (rule delivery_offered [OF d spec(4) True]) (use True in \<open>simp add: spec(7)\<close>)
      then show ?thesis using ok True
        by (auto simp: socket_ok_def spec(2,6,7) i offered_def queue_full_def)
    next
      case False
      have "delivery_ok (broadcast t h) i (sockets h ! i)"
        by (rule delivery_others [OF d spec(4) False]) (use False in \<open>simp add: spec(7)\<close>)
      then show ?thesis using ok False by (simp add: socket_ok_def spec(2,6,7) i)
    qed
  qed
  with inv counts show ?thesis by (auto simp: hub_inv_def spec)
qed

lemma hub_inv_step: "hub_step h h1 \<Longrightarrow> hub_inv h \<Longrightarrow> hub_inv h1"
  by (induction rule: hub_step.induct)
    (auto intro: inv_opens inv_finish_route inv_join inv_send_next inv_broadcast inv_end_service inv_finish_attend)

lemma hub_inv_reachable: "hub_step\<^sup>*\<^sup>* (new_hub cap qs) h \<Longrightarrow> hub_inv h"
  by (induction rule: rtranclp_induct) (auto intro: inv_new_hub hub_inv_step)

section \<open>Properties\<close>

text \<open>
  Whatever order sockets connect, fail, are evicted and close in, the hub's count of admitted
  sockets is exactly the number whose route has not finished its cleanup, evicted ones included,
  and it never exceeds the limit.
\<close>

theorem hub_admission_follows_cleanup:
  assumes "hub_step\<^sup>*\<^sup>* (new_hub cap qs) h" and "0 \<le> hub_limit h"
  shows "admitted h = int (length (filter (\<lambda>m. phase m \<noteq> Done) (sockets h))) \<and> admitted h \<le> hub_limit h"
  using hub_inv_reachable [OF assms(1)] assms(2) by (auto simp: hub_inv_def)

text \<open>
  C5: A socket that was served gets its greeting first and then consecutive broadcasts from the
  moment it joined, with no gap and no reordering: what was sent and what is queued are the
  greeting followed by a prefix of the broadcasts since, and by all of them while the socket is a
  member. Its queue never exceeds the bound.
\<close>

theorem fanout_delivers_without_gaps:
  assumes "hub_step\<^sup>*\<^sup>* (new_hub cap qs) h" and "i < length (sockets h)" and "m = sockets h ! i"
    and "sent m @ queue m \<noteq> []"
  shows "\<exists>pre. sent m @ queue m = first_text m # pre \<and> prefix pre (drop (joined_at m) (history h))
    \<and> (i \<in> set (members h) \<longrightarrow> pre = drop (joined_at m) (history h))
    \<and> (0 < queue_size h \<longrightarrow> length (queue m) \<le> queue_size h)"
  using inv_socket [OF hub_inv_reachable [OF assms(1)] assms(2)] assms(3,4)
  by (auto simp: socket_ok_def delivery_ok_def)

text \<open>
  A broadcast never waits for a socket: one whose queue is full leaves the fan-out in that
  same broadcast and is marked, every other member gets the text, and a socket is closed with
  \<open>TRY_AGAIN_LATER\<close> only if it was evicted and its sender has stopped.
\<close>

theorem slow_socket_is_evicted:
  assumes "hub_step\<^sup>*\<^sup>* (new_hub cap qs) h" and "i \<in> set (members h)" and "j < length (sockets h)"
  shows "(if queue_full h (sockets h ! i)
      then evicted (sockets (broadcast t h) ! i) \<and> i \<notin> set (members (broadcast t h))
        \<and> queue (sockets (broadcast t h) ! i) = queue (sockets h ! i)
      else i \<in> set (members (broadcast t h))
        \<and> queue (sockets (broadcast t h) ! i) = queue (sockets h ! i) @ [t])
    \<and> (closed_with (sockets h ! j) \<noteq> None \<longrightarrow> evicted (sockets h ! j) \<and> phase (sockets h ! j) \<noteq> Serving)"
proof -
  have inv: "hub_inv h" using assms(1) by (rule hub_inv_reachable)
  have i: "i < length (sockets h)" using inv_members [OF inv] assms(2) by blast
  note spec = broadcast_spec [OF conjunct1 [OF inv_members [OF inv]] conjunct2 [OF inv_members [OF inv]], where t = t]
  have "closed_with (sockets h ! j) \<noteq> None \<longrightarrow> evicted (sockets h ! j) \<and> phase (sockets h ! j) \<noteq> Serving"
    using inv_socket [OF inv assms(3)] by (auto simp: socket_ok_def)
  then show ?thesis using assms(2) i by (simp add: spec offered_def)
qed

section \<open>Witnesses\<close>

definition sample_joined :: hub where
  "sample_joined = join ''ready'' 0 (snd (handshake (Some ''o'') [''o''] (new_hub 1 2)))"

lemma sample_joined_state:
  "sample_joined =
     \<lparr>hub_limit = 1, queue_size = 2, admitted = 1, members = [0], evictions = 0, sockets =
        [\<lparr>phase = Serving, queue = [''ready''], evicted = False, sent = [], closed_with = None,
          first_text = ''ready'', joined_at = 0\<rparr>], history = []\<rparr>"
  by (simp add: sample_joined_def handshake_def hub_admit_def new_hub_def join_def new_socket_def
      origin_allowed_def set_socket_def)

lemma sample_joined_reachable: "hub_step\<^sup>*\<^sup>* (new_hub 1 2) sample_joined"
proof -
  let ?h1 = "snd (handshake (Some ''o'') [''o''] (new_hub 1 2))"
  have h1: "sockets ?h1 = [new_socket]"
    by (simp add: handshake_def hub_admit_def new_hub_def origin_allowed_def)
  have "hub_step (new_hub 1 2) ?h1" by (rule hub_step.opens [OF prod.collapse [symmetric]])
  moreover have "hub_step ?h1 sample_joined"
    unfolding sample_joined_def by (rule hub_step.attends) (simp_all add: h1 new_socket_def)
  ultimately show ?thesis by simp
qed

lemma sample_hub_reachable: "hub_step\<^sup>*\<^sup>* (new_hub 1 2) (broadcast ''a'' sample_joined)"
  using sample_joined_reachable hub_step.broadcasts by (rule rtranclp.rtrancl_into_rtrancl)

lemma sample_hub_state:
  "broadcast ''a'' sample_joined =
     \<lparr>hub_limit = 1, queue_size = 2, admitted = 1, members = [0], evictions = 0, sockets =
        [\<lparr>phase = Serving, queue = [''ready'', ''a''], evicted = False, sent = [], closed_with = None,
          first_text = ''ready'', joined_at = 0\<rparr>], history = [''a'']\<rparr>"
  by (simp add: sample_joined_state broadcast_def offer_def queue_full_def set_socket_def)

theorem hub_admission_follows_cleanup_witness:
  "admitted sample_joined = 1 \<and> length (filter (\<lambda>m. phase m \<noteq> Done) (sockets sample_joined)) = 1"
  using hub_admission_follows_cleanup [OF sample_joined_reachable] by (simp add: sample_joined_state)

theorem fanout_delivers_without_gaps_witness:
  "\<exists>pre. sent (sockets (broadcast ''a'' sample_joined) ! 0) @ queue (sockets (broadcast ''a'' sample_joined) ! 0)
      = ''ready'' # pre \<and> prefix pre (history (broadcast ''a'' sample_joined))"
  using fanout_delivers_without_gaps [OF sample_hub_reachable, of 0 "sockets (broadcast ''a'' sample_joined) ! 0"]
  by (simp add: sample_hub_state)

theorem slow_socket_is_evicted_witness:
  "evicted (sockets (broadcast ''b'' (broadcast ''a'' sample_joined)) ! 0)
    \<and> members (broadcast ''a'' sample_joined) = [0]"
  using slow_socket_is_evicted [OF sample_hub_reachable, of 0 0 "''b''"]
  by (simp add: sample_hub_state queue_full_def)

end
