(* ===== verification/Redis.thy ===== *)
theory Redis
  imports Pipeline_Prelude "HOL-Library.Multiset"
begin

text \<open>
  The Redis commands the pipeline uses. Redis is not part of the repository, so it is a
  parameter: a record of commands over an unknown state \<open>'w\<close> of the server. The locale
  \<open>redis_server\<close> states their documented behaviour through \<open>db\<close>, the keyspace the server shows,
  and \<open>now\<close>, its clock; a command on a key of another type raises, so the laws of typed commands
  assume the key is absent or of their type.

  \<open>ref_redis\<close> is a reference keyspace that satisfies the laws.
\<close>

datatype rvalue = RStr string | RHash "(string \<times> string) list" | RZset "(string \<times> int) list"

type_synonym keyspace = "string \<Rightarrow> rvalue option"

record 'w redis =
  rget :: "'w \<Rightarrow> string \<Rightarrow> string option"
  rset :: "'w \<Rightarrow> string \<Rightarrow> string \<Rightarrow> 'w"
  rincr :: "'w \<Rightarrow> string \<Rightarrow> 'w"
  rdel :: "'w \<Rightarrow> string \<Rightarrow> 'w"
  hget :: "'w \<Rightarrow> string \<Rightarrow> string \<Rightarrow> string option"
  hgetall :: "'w \<Rightarrow> string \<Rightarrow> (string \<times> string) list"
  hset :: "'w \<Rightarrow> string \<Rightarrow> string \<Rightarrow> string \<Rightarrow> 'w"
  hincrby :: "'w \<Rightarrow> string \<Rightarrow> string \<Rightarrow> int \<Rightarrow> 'w"
  expireat :: "'w \<Rightarrow> string \<Rightarrow> int \<Rightarrow> 'w"
  zadd :: "'w \<Rightarrow> string \<Rightarrow> int \<Rightarrow> string \<Rightarrow> 'w"
  zremrangebyscore :: "'w \<Rightarrow> string \<Rightarrow> int \<Rightarrow> 'w"
  zrevrangebyscore :: "'w \<Rightarrow> string \<Rightarrow> int \<Rightarrow> nat \<Rightarrow> string list"

section \<open>Views of the keyspace\<close>

fun as_hash :: "rvalue option \<Rightarrow> (string \<times> string) list" where
  "as_hash (Some (RHash h)) = h"
| "as_hash _ = []"

fun as_zset :: "rvalue option \<Rightarrow> (string \<times> int) list" where
  "as_zset (Some (RZset z)) = z"
| "as_zset _ = []"

fun as_str :: "rvalue option \<Rightarrow> string option" where
  "as_str (Some (RStr s)) = Some s"
| "as_str _ = None"

fun hash_slot :: "rvalue option \<Rightarrow> bool" where
  "hash_slot None = True"
| "hash_slot (Some (RHash _)) = True"
| "hash_slot _ = False"

fun zset_slot :: "rvalue option \<Rightarrow> bool" where
  "zset_slot None = True"
| "zset_slot (Some (RZset _)) = True"
| "zset_slot _ = False"

fun str_slot :: "rvalue option \<Rightarrow> bool" where
  "str_slot None = True"
| "str_slot (Some (RStr _)) = True"
| "str_slot _ = False"

definition int_text :: "string option \<Rightarrow> int option" where
  "int_text s = (case s of None \<Rightarrow> Some 0 | Some t \<Rightarrow> py_int t)"

text \<open>A sorted set that loses its last member is gone.\<close>

definition put_zset :: "(string \<times> int) list \<Rightarrow> rvalue option" where
  "put_zset z = (if z = [] then None else Some (RZset z))"

section \<open>The contract\<close>

text \<open>
  Counters are unbounded here, where Redis stops at 64 bits and raises; a command that raises is
  modelled where it is called (\<open>answered\<close>). Counters are read by \<open>int()\<close>, which accepts every text
  Redis stores for one.
\<close>

locale redis_server =
  fixes rd :: "'w redis"
    and db :: "'w \<Rightarrow> keyspace"
    and now :: "'w \<Rightarrow> int"
  assumes get_law: "rget rd w k = as_str (db w k)"
    and set_law: "db (rset rd w k v) = (db w)(k \<mapsto> RStr v)" "now (rset rd w k v) = now w"
    and incr_law: "str_slot (db w k) \<Longrightarrow> int_text (as_str (db w k)) = Some n \<Longrightarrow>
      db (rincr rd w k) = (db w)(k \<mapsto> RStr (show_int (n + 1)))" "now (rincr rd w k) = now w"
    and del_law: "db (rdel rd w k) = (db w)(k := None)" "now (rdel rd w k) = now w"
    and hget_law: "hget rd w k f = map_of (as_hash (db w k)) f"
    and hgetall_law: "map_of (hgetall rd w k) = map_of (as_hash (db w k))" "distinct_keys (hgetall rd w k)"
    and hset_law: "hash_slot (db w k) \<Longrightarrow>
      db (hset rd w k f v) = (db w)(k \<mapsto> RHash (AList.update f v (as_hash (db w k))))"
      "now (hset rd w k f v) = now w"
    and hincrby_law: "hash_slot (db w k) \<Longrightarrow> int_text (map_of (as_hash (db w k)) f) = Some n \<Longrightarrow>
      db (hincrby rd w k f i) = (db w)(k \<mapsto> RHash (AList.update f (show_int (n + i)) (as_hash (db w k))))"
      "now (hincrby rd w k f i) = now w"
    and expireat_law: "now w < t \<Longrightarrow> db (expireat rd w k t) = db w" "now (expireat rd w k t) = now w"
    and zadd_law: "zset_slot (db w k) \<Longrightarrow>
      db (zadd rd w k score m) = (db w)(k \<mapsto> RZset (AList.update m score (as_zset (db w k))))"
      "now (zadd rd w k score m) = now w"
    and zremrange_law: "zset_slot (db w k) \<Longrightarrow>
      db (zremrangebyscore rd w k upper) = (db w)(k := put_zset (filter (\<lambda>(m, sc). upper < sc) (as_zset (db w k))))"
      "now (zremrangebyscore rd w k upper) = now w"
    and zrevrange_law: "\<exists>z. mset z = mset (filter (\<lambda>(m, sc). low < sc) (as_zset (db w k)))
      \<and> sorted (rev (map snd z)) \<and> zrevrangebyscore rd w k low most = take most (map fst z)"

section \<open>A reference keyspace\<close>

record ref_keyspace =
  ref_db :: keyspace
  ref_now :: int

definition ref_put :: "'z ref_keyspace_scheme \<Rightarrow> string \<Rightarrow> rvalue option \<Rightarrow> 'z ref_keyspace_scheme" where
  "ref_put w k v = w\<lparr>ref_db := (ref_db w)(k := v)\<rparr>"

definition count_text :: "string option \<Rightarrow> int \<Rightarrow> string" where
  "count_text s i = show_int ((case int_text s of None \<Rightarrow> 0 | Some n \<Rightarrow> n) + i)"

definition by_score :: "(string \<times> int) list \<Rightarrow> (string \<times> int) list" where
  "by_score z = rev (sort_key snd z)"

definition ref_redis :: "'z ref_keyspace_scheme redis" where
  "ref_redis =
     \<lparr>rget = (\<lambda>w k. as_str (ref_db w k)),
      rset = (\<lambda>w k v. ref_put w k (Some (RStr v))),
      rincr = (\<lambda>w k. ref_put w k (Some (RStr (count_text (as_str (ref_db w k)) 1)))),
      rdel = (\<lambda>w k. ref_put w k None),
      hget = (\<lambda>w k f. map_of (as_hash (ref_db w k)) f),
      hgetall = (\<lambda>w k. AList.clearjunk (as_hash (ref_db w k))),
      hset = (\<lambda>w k f v. ref_put w k (Some (RHash (AList.update f v (as_hash (ref_db w k)))))),
      hincrby = (\<lambda>w k f i. ref_put w k
        (Some (RHash (AList.update f (count_text (map_of (as_hash (ref_db w k)) f) i) (as_hash (ref_db w k)))))),
      expireat = (\<lambda>w k t. if ref_now w < t then w else ref_put w k None),
      zadd = (\<lambda>w k score m. ref_put w k (Some (RZset (AList.update m score (as_zset (ref_db w k)))))),
      zremrangebyscore = (\<lambda>w k upper.
        ref_put w k (put_zset (filter (\<lambda>(m, sc). upper < sc) (as_zset (ref_db w k))))),
      zrevrangebyscore = (\<lambda>w k low n. take n (map fst (by_score (filter (\<lambda>(m, sc). low < sc) (as_zset (ref_db w k))))))\<rparr>"

lemma by_score_sorts: "mset (by_score z) = mset z \<and> sorted (rev (map snd (by_score z)))"
  by (simp add: by_score_def rev_map)

interpretation ref_server: redis_server ref_redis ref_db ref_now
proof
  fix low w k n
  show "\<exists>z. mset z = mset (filter (\<lambda>(m, sc). low < sc) (as_zset (ref_db w k)))
      \<and> sorted (rev (map snd z)) \<and> zrevrangebyscore ref_redis w k low n = take n (map fst z)"
    by (intro exI [of _ "by_score (filter (\<lambda>(m, sc). low < sc) (as_zset (ref_db w k)))"])
      (simp add: by_score_sorts ref_redis_def)
qed (simp_all add: ref_redis_def ref_put_def count_text_def map_of_clearjunk distinct_clearjunk)

end
