(* ===== verification/Stores.thy ===== *)
theory Stores
  imports Redis
begin

text \<open>
  The three stores as the data path uses them: \<open>redis_store.py\<close> over the commands of Redis,
  \<open>cassandra_store.py\<close> over a driver session, and \<open>jobs_queue.py\<close> over a channel. The session
  and the channel are parameters like Redis; the locale \<open>event_stores\<close> extends Redis's contract
  with theirs and with Redis's PUBLISH, which stores nothing: an insert is an upsert by primary key, its time in milliseconds,
  a routed publication is in the queue, a call that raises may or may not have happened, and one service leaves the others alone.
\<close>

section \<open>Events\<close>

record event =
  event_id :: string
  user_id :: string
  page :: string
  event_time :: rat

section \<open>Redis keys and writes\<close>

definition PAGE_COUNT_PREFIX :: string where "PAGE_COUNT_PREFIX = ''pageviews:''"
definition LAST_PAGE_PREFIX :: string where "LAST_PAGE_PREFIX = ''user:last_page:''"
definition JOBS_RUNS_KEY :: string where "JOBS_RUNS_KEY = ''jobs:runs''"

definition page_count_key :: "string \<Rightarrow> string \<Rightarrow> string" where
  "page_count_key p prefix = prefix @ PAGE_COUNT_PREFIX @ p"

definition last_page_key :: "string \<Rightarrow> string \<Rightarrow> string" where
  "last_page_key u prefix = prefix @ LAST_PAGE_PREFIX @ u"

definition jobs_runs_key :: "string \<Rightarrow> string" where
  "jobs_runs_key prefix = prefix @ JOBS_RUNS_KEY"

lemmas store_keys = page_count_key_def last_page_key_def jobs_runs_key_def
  PAGE_COUNT_PREFIX_def LAST_PAGE_PREFIX_def JOBS_RUNS_KEY_def

text \<open>
  A command that raises did happen, or did not: its reply was lost, or it was. \<open>Done\<close> is a
  command that returned.
\<close>

datatype answer = Done | RaisedAfter | RaisedBefore

definition answered :: "answer \<Rightarrow> ('w \<Rightarrow> 'w) \<Rightarrow> 'w \<Rightarrow> bool \<times> 'w" where
  "answered a f w = (case a of Done \<Rightarrow> (True, f w) | RaisedAfter \<Rightarrow> (False, f w) | RaisedBefore \<Rightarrow> (False, w))"

definition record_pageview :: "'w redis \<Rightarrow> string \<Rightarrow> answer \<times> answer \<Rightarrow> event \<Rightarrow> 'w \<Rightarrow> bool \<times> 'w" where
  "record_pageview rd prefix ans e w =
     (case answered (fst ans) (\<lambda>u. rincr rd u (page_count_key (page e) prefix)) w of
        (False, w1) \<Rightarrow> (False, w1)
      | (True, w1) \<Rightarrow> answered (snd ans) (\<lambda>u. rset rd u (last_page_key (user_id e) prefix) (page e)) w1)"

text \<open>
  \<open>_scan_values\<close>: the server's successive answers to SCAN, each a cursor and a page of keys; the
  sweep stops at the cursor zero. A key may have lost its value by the time it is read.
\<close>

fun scan_values :: "'w redis \<Rightarrow> (int \<times> string list) list \<Rightarrow> 'w \<Rightarrow> (string \<times> string) list" where
  "scan_values rd [] w = []"
| "scan_values rd ((cursor, ks) # rest) w =
     List.map_filter (\<lambda>k. map_option (Pair k) (rget rd w k)) ks
     @ (if cursor = 0 then [] else scan_values rd rest w)"

definition text_counts :: "nat \<Rightarrow> (string \<times> string) list \<Rightarrow> (string \<times> int) list option" where
  "text_counts start kvs =
     foldl (\<lambda>acc (k, v). case (acc, py_int v) of
        (Some d, Some n) \<Rightarrow> Some (AList.update (drop start k) n d) | _ \<Rightarrow> None) (Some []) kvs"

definition page_counts :: "'w redis \<Rightarrow> string \<Rightarrow> (int \<times> string list) list \<Rightarrow> 'w \<Rightarrow> (string \<times> int) list option" where
  "page_counts rd prefix scans w =
     text_counts (length (prefix @ PAGE_COUNT_PREFIX)) (scan_values rd scans w)"

definition last_pages :: "'w redis \<Rightarrow> string \<Rightarrow> (int \<times> string list) list \<Rightarrow> 'w \<Rightarrow> (string \<times> string) list" where
  "last_pages rd prefix scans w =
     foldl (\<lambda>d (k, v). AList.update (drop (length (prefix @ LAST_PAGE_PREFIX)) k) v d) [] (scan_values rd scans w)"

definition page_counts_for :: "'w redis \<Rightarrow> string list \<Rightarrow> string \<Rightarrow> 'w \<Rightarrow> (string \<times> int) list option" where
  "page_counts_for rd pages prefix w =
     (if pages = [] then Some []
      else text_counts 0 (List.map_filter (\<lambda>p. map_option (Pair p) (rget rd w (page_count_key p prefix))) pages))"

definition last_page :: "'w redis \<Rightarrow> string \<Rightarrow> string \<Rightarrow> 'w \<Rightarrow> string option" where
  "last_page rd u prefix w = rget rd w (last_page_key u prefix)"

text \<open>\<open>clear\<close>: refused for an empty prefix; \<open>found\<close> is what \<open>scan_iter\<close> yields for the pattern.\<close>

definition clear :: "'w redis \<Rightarrow> string \<Rightarrow> string list \<Rightarrow> 'w \<Rightarrow> 'w option" where
  "clear rd prefix found w = (if prefix = [] then None else Some (foldl (rdel rd) w found))"

definition record_execution :: "'w redis \<Rightarrow> string \<Rightarrow> string \<Rightarrow> 'w \<Rightarrow> 'w" where
  "record_execution rd i prefix w = hincrby rd w (jobs_runs_key prefix) i 1"

definition job_runs :: "'w redis \<Rightarrow> string \<Rightarrow> 'w \<Rightarrow> (string \<times> int) list option" where
  "job_runs rd prefix w = text_counts 0 (hgetall rd w (jobs_runs_key prefix))"

definition job_summary :: "'w redis \<Rightarrow> string \<Rightarrow> 'w \<Rightarrow> (int \<times> (string \<times> int) list) option" where
  "job_summary rd prefix w = map_option (\<lambda>runs. (sum_list (map snd runs), runs)) (job_runs rd prefix w)"

section \<open>Cassandra\<close>

text \<open>
  \<open>event_timestamp\<close>: \<open>datetime.fromtimestamp(t, tz=UTC)\<close>, in microseconds since the epoch. It rounds
  to the nearest microsecond, a tie to the even one (the seconds are a float; what multiplying its
  fraction rounds off before that is left out), and raises outside the years 1 to 9999.
\<close>

definition FIRST_MICROSECOND :: int where "FIRST_MICROSECOND = - 62135596800000000"
definition LAST_MICROSECOND :: int where "LAST_MICROSECOND = 253402300799999999"

definition round_half_even :: "rat \<Rightarrow> int" where
  "round_half_even x =
     (let f = \<lfloor>x\<rfloor>; d = x - of_int f in if d < 1 / 2 \<or> d = 1 / 2 \<and> even f then f else f + 1)"

definition event_micros :: "event \<Rightarrow> int" where
  "event_micros e = round_half_even (event_time e * 1000000)"

definition event_timestamp :: "event \<Rightarrow> int option" where
  "event_timestamp e =
     (if FIRST_MICROSECOND \<le> event_micros e \<and> event_micros e \<le> LAST_MICROSECOND then Some (event_micros e) else None)"

text \<open>
  The column \<open>event_time timestamp\<close> holds milliseconds: what is bound in microseconds loses the
  rest, towards zero. This is the driver's and the column type's, stated in the contract below.
\<close>

definition millis_of :: "int \<Rightarrow> int" where
  "millis_of t = (if t < 0 then - (- t div 1000) else t div 1000)"

text \<open>
  A row's primary key as it is stored is the user, the time in milliseconds and the event; its
  value is the page. The statement is bound to the user, the time in microseconds, the event and the page.
\<close>

type_synonym row_key = "string \<times> int \<times> string"

record 'w cassandra =
  cinsert :: "'w \<Rightarrow> string \<times> int \<times> string \<Rightarrow> string \<Rightarrow> bool \<times> 'w"

definition row_key_of :: "event \<Rightarrow> row_key" where
  "row_key_of e = (user_id e, millis_of (event_micros e), event_id e)"

definition insert_pageview :: "'w cassandra \<Rightarrow> event \<Rightarrow> 'w \<Rightarrow> bool \<times> 'w" where
  "insert_pageview cass e w =
     (case event_timestamp e of
        None \<Rightarrow> (False, w)
      | Some t \<Rightarrow> cinsert cass w (user_id e, t, event_id e) (page e))"

definition keyspace_match :: "string \<Rightarrow> bool" where
  "keyspace_match s =
     (case before_end s of
        [] \<Rightarrow> False
      | c # rest \<Rightarrow> (97::nat) \<le> of_char c \<and> (of_char c::nat) \<le> 122 \<and> length rest \<le> 47
          \<and> list_all (\<lambda>d. (97::nat) \<le> of_char d \<and> (of_char d::nat) \<le> 122 \<or> is_digit d \<or> d = CHR ''_'') rest)"

definition validate_keyspace :: "string \<Rightarrow> string option" where
  "validate_keyspace s = (if keyspace_match s then Some s else None)"

text \<open>\<open>splitlines\<close>, with \<open>\r\n\<close> as one break and no line after a final break.\<close>

definition line_break :: "char \<Rightarrow> bool" where
  "line_break c \<longleftrightarrow> c \<in> {CHR 0x0A, CHR 0x0B, CHR 0x0C, CHR 0x0D, CHR 0x1C, CHR 0x1D, CHR 0x1E, CHR 0x85}"

fun split_lines :: "string \<Rightarrow> string \<Rightarrow> string list" where
  "split_lines acc [] = (if acc = [] then [] else [rev acc])"
| "split_lines acc [c] = (if line_break c then [rev acc] else [rev (c # acc)])"
| "split_lines acc (c # d # s) =
     (if \<not> line_break c then split_lines (c # acc) (d # s)
      else if c = CHR 0x0D \<and> d = CHR 0x0A then rev acc # split_lines [] s
      else rev acc # split_lines [] (d # s))"

definition strip_comments :: "string \<Rightarrow> string" where
  "strip_comments s = join_lines (filter (\<lambda>l. take 2 (strip l) \<noteq> ''--'') (split_lines [] s))"

definition KEYSPACE_PLACEHOLDER :: string where "KEYSPACE_PLACEHOLDER = ''${KEYSPACE}''"

text \<open>\<open>str.replace\<close>: leftmost first, without overlaps.\<close>

function replace_all :: "string \<Rightarrow> string \<Rightarrow> string \<Rightarrow> string" where
  "replace_all old new s =
     (case s of
        [] \<Rightarrow> []
      | c # rest \<Rightarrow>
          if old \<noteq> [] \<and> take (length old) s = old then new @ replace_all old new (drop (length old) s)
          else c # replace_all old new rest)"
  by auto
termination by (relation "measure (\<lambda>(_, _, s). length s)") auto

declare replace_all.simps [simp del]

definition upper_char :: "char \<Rightarrow> char" where
  "upper_char c = (if (97::nat) \<le> of_char c \<and> (of_char c::nat) \<le> 122 then char_of (of_char c - 32 :: nat) else c)"

datatype schema_call = Execute string | SetKeyspace string

definition schema_statement :: "string \<Rightarrow> string \<Rightarrow> schema_call option" where
  "schema_statement keyspace raw =
     (let st = strip raw in
      if st = [] then None
      else let full = replace_all KEYSPACE_PLACEHOLDER keyspace st in
        if take 4 (map upper_char full) = ''USE '' then Some (SetKeyspace keyspace) else Some (Execute full))"

definition apply_schema :: "string \<Rightarrow> string \<Rightarrow> schema_call list option" where
  "apply_schema keyspace statements =
     (case validate_keyspace keyspace of
        None \<Rightarrow> None
      | Some k \<Rightarrow> Some (List.map_filter (schema_statement k) (split_on (CHR '';'') (strip_comments statements))))"

definition drop_keyspace :: "string \<Rightarrow> string option" where
  "drop_keyspace keyspace = map_option (\<lambda>k. ''DROP KEYSPACE IF EXISTS '' @ k) (validate_keyspace keyspace)"

section \<open>The job queue\<close>

datatype publish_answer = Routed | Unroutable | AmqpError

record 'w rabbit =
  basic_publish :: "'w \<Rightarrow> string \<Rightarrow> json \<Rightarrow> publish_answer \<times> 'w"

definition job_body :: "event \<Rightarrow> json" where
  "job_body e = JObj [(''event_id'', JStr (event_id e)), (''user_id'', JStr (user_id e)), (''page'', JStr (page e))]"

text \<open>\<open>publish\<close>: whether it returned; every other answer raises \<open>PublishFailed\<close>.\<close>

definition publish_job :: "'w rabbit \<Rightarrow> string \<Rightarrow> event \<Rightarrow> 'w \<Rightarrow> bool \<times> 'w" where
  "publish_job rb q e w = (case basic_publish rb w q (job_body e) of (a, w1) \<Rightarrow> (a = Routed, w1))"

section \<open>The contract of the stores together\<close>

text \<open>\<open>table\<close> is the events table, \<open>published\<close> the jobs ever accepted by the queue.\<close>

locale event_stores = redis_server rd db now
  for rd :: "'w redis" and db :: "'w \<Rightarrow> keyspace" and now :: "'w \<Rightarrow> int" +
  fixes cass :: "'w cassandra"
    and table :: "'w \<Rightarrow> row_key \<Rightarrow> string option"
    and rb :: "'w rabbit"
    and published :: "'w \<Rightarrow> json list"
    and pub :: "'w \<Rightarrow> string \<Rightarrow> json \<Rightarrow> bool \<times> 'w"
  assumes redis_frame: "table (rincr rd w k) = table w" "published (rincr rd w k) = published w"
      "table (rset rd w k v) = table w" "published (rset rd w k v) = published w"
    and insert_law: "cinsert cass w (u, t, i) pg = (ok, w1) \<Longrightarrow>
      (table w1 = (table w)((u, millis_of t, i) \<mapsto> pg) \<or> \<not> ok \<and> table w1 = table w) \<and> db w1 = db w \<and> published w1 = published w"
    and publish_law: "basic_publish rb w q body = (a, w2) \<Longrightarrow>
      (published w2 = published w @ [body] \<or> a \<noteq> Routed \<and> published w2 = published w) \<and> db w2 = db w \<and> table w2 = table w"
    and pub_law: "pub w ch hint = (confirmed, w3) \<Longrightarrow> db w3 = db w \<and> table w3 = table w \<and> published w3 = published w"

section \<open>A reference instance\<close>

record ref_stores = ref_keyspace +
  ref_table :: "row_key \<Rightarrow> string option"
  ref_published :: "json list"

definition ref_cassandra :: "ref_stores cassandra" where
  "ref_cassandra = \<lparr>cinsert = (\<lambda>w (u, t, i) pg. (True, w\<lparr>ref_table := (ref_table w)((u, millis_of t, i) \<mapsto> pg)\<rparr>))\<rparr>"

definition ref_rabbit :: "ref_stores rabbit" where
  "ref_rabbit = \<lparr>basic_publish = (\<lambda>w q body.
     if q = [] then (Unroutable, w) else (Routed, w\<lparr>ref_published := ref_published w @ [body]\<rparr>))\<rparr>"

definition ref_pub :: "ref_stores \<Rightarrow> string \<Rightarrow> json \<Rightarrow> bool \<times> ref_stores" where
  "ref_pub w ch hint = (True, w)"

interpretation ref_all: event_stores ref_redis ref_db ref_now ref_cassandra ref_table ref_rabbit ref_published ref_pub
  by unfold_locales
    (auto simp: ref_redis_def ref_put_def ref_cassandra_def ref_rabbit_def ref_pub_def split: if_splits)

end
