(* ===== verification/Iso_Time.thy ===== *)
theory Iso_Time
  imports Pipeline_Prelude
begin

text \<open>
  What the program uses of Python's \<open>datetime\<close>: \<open>fromtimestamp(seconds, UTC)\<close> and
  \<open>strftime\<close>, \<open>strptime\<close> and \<open>timestamp()\<close>, all with the one format
  \<open>%Y-%m-%dT%H:%M:%SZ\<close>, in the proleptic Gregorian calendar of the years 1 to 9999.

  \<open>strptime\<close> follows the standard library's pattern: four digits of year, one or two digits of
  the other fields, letters in either case. \<open>strftime\<close> writes four digits of year, which is
  what it does from the year 1000 on.
\<close>

section \<open>The calendar\<close>

definition is_leap :: "nat \<Rightarrow> bool" where
  "is_leap y \<longleftrightarrow> y mod 4 = 0 \<and> (y mod 100 \<noteq> 0 \<or> y mod 400 = 0)"

definition days_in_year :: "nat \<Rightarrow> nat" where
  "days_in_year y = (if is_leap y then 366 else 365)"

definition days_in_month :: "nat \<Rightarrow> nat \<Rightarrow> nat" where
  "days_in_month y m =
     (if m = 2 then (if is_leap y then 29 else 28) else if m \<in> {4, 6, 9, 11} then 30 else 31)"

definition days_before_year :: "nat \<Rightarrow> nat" where
  "days_before_year y = sum_list (map days_in_year [1..<y])"

definition days_before_month :: "nat \<Rightarrow> nat \<Rightarrow> nat" where
  "days_before_month y m = sum_list (map (days_in_month y) [1..<m])"

text \<open>Days from 0001-01-01 to 1970-01-01.\<close>

definition EPOCH_DAYS :: nat where "EPOCH_DAYS = 719162"

definition timestamp :: "nat \<Rightarrow> nat \<Rightarrow> nat \<Rightarrow> nat \<Rightarrow> nat \<Rightarrow> nat \<Rightarrow> int" where
  "timestamp y mo d h mi s =
     (int (days_before_year y + days_before_month y mo + (d - 1)) - int EPOCH_DAYS) * 86400
     + int (h * 3600 + mi * 60 + s)"

text \<open>The year a day count falls in, from a year on, and the day within it; months alike.\<close>

function year_from :: "nat \<Rightarrow> nat \<Rightarrow> nat \<times> nat" where
  "year_from y d = (if d < days_in_year y then (y, d) else year_from (Suc y) (d - days_in_year y))"
  by auto
termination by (relation "measure snd") (auto simp: days_in_year_def)

declare year_from.simps [simp del]

fun month_from :: "nat \<Rightarrow> nat list \<Rightarrow> nat \<Rightarrow> nat \<times> nat" where
  "month_from y [] d = (13, d)"
| "month_from y (m # ms) d =
     (if d < days_in_month y m then (m, d) else month_from y ms (d - days_in_month y m))"

section \<open>Text\<close>

definition pad2 :: "nat \<Rightarrow> string" where
  "pad2 n = [digit_char (n div 10 mod 10), digit_char (n mod 10)]"

definition pad4 :: "nat \<Rightarrow> string" where
  "pad4 n = [digit_char (n div 1000 mod 10), digit_char (n div 100 mod 10), digit_char (n div 10 mod 10), digit_char (n mod 10)]"

definition format_time :: "nat \<Rightarrow> nat \<Rightarrow> nat \<Rightarrow> nat \<Rightarrow> nat \<Rightarrow> nat \<Rightarrow> string" where
  "format_time y mo d h mi s =
     pad4 y @ ''-'' @ pad2 mo @ ''-'' @ pad2 d @ ''T'' @ pad2 h @ '':'' @ pad2 mi @ '':'' @ pad2 s @ ''Z''"

text \<open>\<open>notifications._iso\<close>: none where \<open>fromtimestamp\<close> raises.\<close>

definition iso :: "int \<Rightarrow> string option" where
  "iso secs =
     (let days = secs div 86400 + int EPOCH_DAYS; rest = nat (secs mod 86400) in
      if days < 0 then None
      else let (y, r) = year_from 1 (nat days); (mo, d) = month_from y [1..<13] r
        in if y > 9999 then None else Some (format_time y mo (Suc d) (rest div 3600) (rest mod 3600 div 60) (rest mod 60)))"

text \<open>One or two digits in front of a separator, and what follows it.\<close>

definition number_until :: "char set \<Rightarrow> string \<Rightarrow> (nat \<times> string) option" where
  "number_until seps s =
     (case s of
        a # b # c # rest \<Rightarrow>
          if is_digit a \<and> is_digit b \<and> c \<in> seps then Some (digit_value a * 10 + digit_value b, rest)
          else if is_digit a \<and> b \<in> seps then Some (digit_value a, c # rest) else None
      | [a, b] \<Rightarrow> if is_digit a \<and> b \<in> seps then Some (digit_value a, []) else None
      | _ \<Rightarrow> None)"

definition year_until :: "string \<Rightarrow> (nat \<times> string) option" where
  "year_until s =
     (case s of
        a # b # c # d # e # rest \<Rightarrow>
          if list_all is_digit [a, b, c, d] \<and> e = CHR ''-'' then Some (digits_value [a, b, c, d], rest) else None
      | _ \<Rightarrow> None)"

definition valid_time :: "nat \<Rightarrow> nat \<Rightarrow> nat \<Rightarrow> nat \<Rightarrow> nat \<Rightarrow> nat \<Rightarrow> bool" where
  "valid_time y mo d h mi s \<longleftrightarrow>
     1 \<le> y \<and> 1 \<le> mo \<and> mo \<le> 12 \<and> 1 \<le> d \<and> d \<le> days_in_month y mo \<and> h < 24 \<and> mi < 60 \<and> s < 60"

definition strptime :: "string \<Rightarrow> (nat \<times> nat \<times> nat \<times> nat \<times> nat \<times> nat) option" where
  "strptime text =
     Option.bind (year_until text) (\<lambda>(y, t1).
     Option.bind (number_until {CHR ''-''} t1) (\<lambda>(mo, t2).
     Option.bind (number_until {CHR ''T'', CHR ''t''} t2) (\<lambda>(d, t3).
     Option.bind (number_until {CHR '':''} t3) (\<lambda>(h, t4).
     Option.bind (number_until {CHR '':''} t4) (\<lambda>(mi, t5).
     Option.bind (number_until {CHR ''Z'', CHR ''z''} t5) (\<lambda>(s, t6).
       if t6 = [] \<and> valid_time y mo d h mi s then Some (y, mo, d, h, mi, s) else None))))))"

text \<open>\<open>windows_writer.epoch_seconds\<close>.\<close>

definition epoch_seconds :: "string \<Rightarrow> int option" where
  "epoch_seconds text = map_option (\<lambda>(y, mo, d, h, mi, s). timestamp y mo d h mi s) (strptime text)"

section \<open>Lemmas\<close>

lemma days_before_Suc: "1 \<le> y \<Longrightarrow> days_before_year (Suc y) = days_before_year y + days_in_year y"
  by (simp add: days_before_year_def)

lemma year_from_spec:
  assumes "1 \<le> y" and "year_from y d = (y', r)"
  shows "y \<le> y' \<and> days_before_year y' + r = days_before_year y + d \<and> r < days_in_year y'"
  using assms
proof (induction y d rule: year_from.induct)
  case (1 y d)
  show ?case
  proof (cases "d < days_in_year y")
    case True
    then show ?thesis using 1 by (subst (asm) (2) year_from.simps) simp
  next
    case False
    then have "year_from (Suc y) (d - days_in_year y) = (y', r)" using "1.prems" by (subst (asm) year_from.simps) simp
    with 1 False show ?thesis by (simp add: days_before_Suc)
  qed
qed

lemma days_before_month_Suc: "1 \<le> m \<Longrightarrow> days_before_month y (Suc m) = days_before_month y m + days_in_month y m"
  by (simp add: days_before_month_def)

lemma month_from_spec:
  assumes "1 \<le> m" and "m \<le> n" and "d < sum_list (map (days_in_month y) [m..<n])"
    and "month_from y [m..<n] d = (m', r)"
  shows "m \<le> m' \<and> m' < n \<and> days_before_month y m' + r = days_before_month y m + d \<and> r < days_in_month y m'"
  using assms
proof (induction "n - m" arbitrary: m d)
  case 0
  then show ?case by simp
next
  case (Suc k)
  then have mn: "m < n" by simp
  show ?case
  proof (cases "d < days_in_month y m")
    case True
    then show ?thesis using Suc.prems mn by (simp add: upt_conv_Cons)
  next
    case False
    have "Suc m \<le> m' \<and> m' < n \<and> days_before_month y m' + r = days_before_month y (Suc m) + (d - days_in_month y m)
        \<and> r < days_in_month y m'"
      using Suc.prems Suc.hyps mn False by (intro Suc.hyps(1)) (auto simp: upt_conv_Cons)
    with False Suc.prems(1) show ?thesis by (simp add: days_before_month_Suc)
  qed
qed

lemma months_fill_year: "sum_list (map (days_in_month y) [1..<13]) = days_in_year y"
  by (simp add: upt_rec days_in_month_def days_in_year_def)

lemma digit_cases: "d < 10 \<Longrightarrow> is_digit (digit_char d) \<and> digit_value (digit_char d) = d"
  by simp

lemma number_until_pad2:
  assumes "n < 100" and "c \<in> seps"
  shows "number_until seps (pad2 n @ c # rest) = Some (n, rest)"
  using assms by (simp add: number_until_def pad2_def mult.commute)

lemma year_until_pad4:
  assumes "n < 10000"
  shows "year_until (pad4 n @ CHR ''-'' # rest) = Some (n, rest)"
proof -
  have "n div 100 = n div 10 div 10" "n div 1000 = n div 10 div 10 div 10"
    by (simp_all add: div_mult2_eq [symmetric])
  moreover have "n div 10 div 10 div 10 < 10" using assms by (simp add: less_mult_imp_div_less)
  moreover have "m div 10 * 10 + m mod 10 = m" for m :: nat by (rule div_mult_mod_eq)
  ultimately have "digits_value (pad4 n) = n"
    by (simp add: digits_value_def pad4_def)
  then show ?thesis by (simp add: year_until_def pad4_def)
qed

lemma strptime_format:
  assumes "valid_time y mo d h mi s" and "y < 10000"
  shows "strptime (format_time y mo d h mi s) = Some (y, mo, d, h, mi, s)"
proof -
  have "days_in_month y mo < 100" by (simp add: days_in_month_def)
  then have "mo < 100" "d < 100" "h < 100" "mi < 100" "s < 100" using assms(1) by (auto simp: valid_time_def)
  then show ?thesis
    using assms by (simp add: strptime_def format_time_def year_until_pad4 number_until_pad2)
qed

text \<open>The calendar round trip: reading a formatted instant gives its seconds back.\<close>

lemma epoch_seconds_iso:
  assumes "iso secs = Some text"
  shows "epoch_seconds text = Some secs"
proof -
  define days where "days = nat (secs div 86400 + int EPOCH_DAYS)"
  define rest where "rest = nat (secs mod 86400)"
  obtain y r where y: "year_from 1 days = (y, r)" by (cases "year_from 1 days")
  obtain mo d where m: "month_from y [1..<13] r = (mo, d)" by (cases "month_from y [1..<13] r")
  have days: "int days = secs div 86400 + int EPOCH_DAYS" "y < 10000"
    and shown: "text = format_time y mo (Suc d) (rest div 3600) (rest mod 3600 div 60) (rest mod 60)"
    using assms y m by (auto simp: iso_def Let_def days_def rest_def split: if_splits)
  have ys: "1 \<le> y" "days_before_year y + r = days" "r < days_in_year y"
    using year_from_spec [OF _ y] by (simp_all add: days_before_year_def)
  have ms: "1 \<le> mo" "mo < 13" "days_before_month y mo + d = r" "d < days_in_month y mo"
    using month_from_spec [OF _ _ _ m] ys(3) months_fill_year [of y] by (simp_all add: days_before_month_def)
  have rest: "rest < 86400" "int rest = secs mod 86400" by (simp_all add: rest_def)
  have valid: "valid_time y mo (Suc d) (rest div 3600) (rest mod 3600 div 60) (rest mod 60)"
    using ys ms rest(1) by (simp add: valid_time_def less_mult_imp_div_less)
  have "rest div 3600 * 3600 + rest mod 3600 div 60 * 60 + rest mod 60 = rest"
    using div_mult_mod_eq [of rest 3600] div_mult_mod_eq [of "rest mod 3600" 60]
      mod_mod_cancel [of 60 3600 rest] by (simp add: add.assoc)
  moreover have "(int (days_before_year y + days_before_month y mo + d) - int EPOCH_DAYS) * 86400 + int rest = secs"
  proof -
    have "int (days_before_year y + days_before_month y mo + d) - int EPOCH_DAYS = secs div 86400"
      using days(1) ys(2) ms(3) by linarith
    then show ?thesis using rest(2) by (simp only: div_mult_mod_eq)
  qed
  ultimately have "timestamp y mo (Suc d) (rest div 3600) (rest mod 3600 div 60) (rest mod 60) = secs"
    by (simp add: timestamp_def)
  then show ?thesis
    using strptime_format [OF valid days(2)] shown by (simp add: epoch_seconds_def)
qed

lemma days_before_year_lower: "365 * (y - 1) \<le> days_before_year y"
proof (induction y)
  case (Suc y)
  then show ?case by (cases "1 \<le> y") (auto simp: days_before_Suc days_in_year_def days_before_year_def)
qed (simp add: days_before_year_def)

text \<open>Every instant of the years 1970 to 9990 is formatted.\<close>

lemma iso_defined:
  assumes "0 \<le> secs" and "secs < 250000000000"
  shows "\<exists>text. iso secs = Some text"
proof -
  define days where "days = nat (secs div 86400 + int EPOCH_DAYS)"
  obtain y r where y: "year_from 1 days = (y, r)" by (cases "year_from 1 days")
  have "secs div 86400 < 2893519" using assms(2) by simp
  then have "days < 3612681" "secs div 86400 + int EPOCH_DAYS \<ge> 0"
    using assms(1) by (simp_all add: days_def EPOCH_DAYS_def pos_imp_zdiv_nonneg_iff)
  moreover have "365 * (y - 1) \<le> days"
    using year_from_spec [OF _ y] days_before_year_lower [of y] by (simp add: days_before_year_def)
  ultimately show ?thesis using y by (simp add: iso_def Let_def days_def split: prod.splits)
qed

end
