(* ===== verification/Notifications.thy ===== *)
theory Notifications
  imports Stores Iso_Time
begin

text \<open>
  \<open>notifications.py\<close>: the hints the consumers and the windows writer publish, what a subscriber
  accepts of them, and the publisher that swallows an unconfirmed publication.

  A message as Redis delivers it is its size in bytes and the value \<open>json.loads\<close> gives, none
  where it raises.
\<close>

section \<open>Channels and limits\<close>

definition CHANNEL :: string where "CHANNEL = ''events:pageviews''"
definition WINDOWS_CHANNEL :: string where "WINDOWS_CHANNEL = ''events:windows''"
definition MAX_BYTES :: nat where "MAX_BYTES = 2048"
definition MAX_SAFE_INTEGER :: int where "MAX_SAFE_INTEGER = 2 ^ 53 - 1"

definition channel :: "string \<Rightarrow> string" where "channel prefix = prefix @ CHANNEL"
definition windows_channel :: "string \<Rightarrow> string" where "windows_channel prefix = prefix @ WINDOWS_CHANNEL"

datatype raw_message = NotText | Text nat "json option"

text \<open>
  The value of a text that is small enough and parses to an object. A message carries what
  \<open>json.loads\<close> makes of it, none for a \<open>ValueError\<close>, which \<open>parse\<close> catches. A document nested so deep
  that it raises \<open>RecursionError\<close>, which \<open>parse\<close> lets through, is outside the model; the size limit
  does not exclude it.
\<close>

fun object_of :: "raw_message \<Rightarrow> (string \<times> json) list option" where
  "object_of (Text nbytes (Some (JObj d))) = (if nbytes > MAX_BYTES then None else Some d)"
| "object_of _ = None"

section \<open>Page view notifications\<close>

definition encode :: "event \<Rightarrow> int \<Rightarrow> int \<Rightarrow> json" where
  "encode e part_no offset = JObj
     [(''event_id'', JStr (event_id e)), (''user_id'', JStr (user_id e)), (''page'', JStr (page e)),
      (''partition'', JInt part_no), (''offset'', JInt offset), (''timestamp'', JFloat (Fin (event_time e)))]"

fun is_text :: "json option \<Rightarrow> bool" where
  "is_text (Some (JStr _)) = True"
| "is_text _ = False"

text \<open>An integer a browser represents exactly; a boolean is not one.\<close>

fun safe_integer :: "json option \<Rightarrow> bool" where
  "safe_integer (Some (JInt n)) = (0 \<le> n \<and> n \<le> MAX_SAFE_INTEGER)"
| "safe_integer _ = False"

text \<open>\<open>math.isfinite\<close>: an integer that no float holds raises \<open>OverflowError\<close>.\<close>

definition FLOAT_LIMIT :: int where "FLOAT_LIMIT = 2 ^ 1024 - 2 ^ 970"

fun finite_number :: "json option \<Rightarrow> bool" where
  "finite_number (Some (JInt n)) = (- FLOAT_LIMIT < n \<and> n < FLOAT_LIMIT)"
| "finite_number (Some (JFloat (Fin _))) = True"
| "finite_number _ = False"

definition FIELDS :: "string list" where
  "FIELDS = [''event_id'', ''user_id'', ''page'', ''partition'', ''offset'', ''timestamp'']"

definition pick_fields :: "string list \<Rightarrow> (string \<times> json) list \<Rightarrow> (string \<times> json) list" where
  "pick_fields names d = List.map_filter (\<lambda>n. map_option (Pair n) (map_of d n)) names"

definition parse_notification :: "raw_message \<Rightarrow> json option" where
  "parse_notification raw =
     (case object_of raw of
        None \<Rightarrow> None
      | Some d \<Rightarrow>
          if is_text (map_of d ''event_id'') \<and> is_text (map_of d ''user_id'') \<and> is_text (map_of d ''page'')
             \<and> safe_integer (map_of d ''partition'') \<and> safe_integer (map_of d ''offset'')
             \<and> finite_number (map_of d ''timestamp'')
          then Some (JObj ((''type'', JStr ''pageview'') # pick_fields FIELDS d)) else None)"

section \<open>Window hints\<close>

definition encode_window :: "int \<Rightarrow> int \<Rightarrow> json option" where
  "encode_window start stop =
     (case (iso start, iso stop) of
        (Some a, Some b) \<Rightarrow> Some (JObj [(''window_start'', JStr a), (''window_end'', JStr b)])
      | _ \<Rightarrow> None)"

fun is_instant :: "json option \<Rightarrow> bool" where
  "is_instant (Some (JStr t)) = (strptime t \<noteq> None)"
| "is_instant _ = False"

definition WINDOW_FIELDS :: "string list" where "WINDOW_FIELDS = [''window_start'', ''window_end'']"

definition parse_window :: "raw_message \<Rightarrow> json option" where
  "parse_window raw =
     (case object_of raw of
        None \<Rightarrow> None
      | Some d \<Rightarrow>
          if is_instant (map_of d ''window_start'') \<and> is_instant (map_of d ''window_end'')
          then Some (JObj ((''type'', JStr ''window'') # pick_fields WINDOW_FIELDS d)) else None)"

section \<open>Publishing\<close>

text \<open>
  \<open>Notifier.announce\<close> and \<open>Hints.announce\<close>: \<open>publish\<close> says whether Redis confirmed; the flag
  is \<open>_failing\<close>, which only decides what is logged. Hints stop at the first failure.
\<close>

definition announce :: "('w \<Rightarrow> string \<Rightarrow> json \<Rightarrow> bool \<times> 'w) \<Rightarrow> string \<Rightarrow> event \<Rightarrow> int \<Rightarrow> int \<Rightarrow> bool \<times> 'w \<Rightarrow> bool \<times> 'w" where
  "announce publish ch e part_no offset st =
     (case publish (snd st) ch (encode e part_no offset) of
        (False, w) \<Rightarrow> (True, w)
      | (True, w) \<Rightarrow> (False, w))"

fun announce_windows ::
    "('w \<Rightarrow> string \<Rightarrow> json \<Rightarrow> bool \<times> 'w) \<Rightarrow> string \<Rightarrow> (int \<times> int) list \<Rightarrow> bool \<times> 'w \<Rightarrow> (bool \<times> 'w) option" where
  "announce_windows publish ch [] st = Some (False, snd st)"
| "announce_windows publish ch ((start, stop) # rest) st =
     (case encode_window start stop of
        None \<Rightarrow> None
      | Some hint \<Rightarrow>
          (case publish (snd st) ch hint of
             (False, w) \<Rightarrow> Some (True, w)
           | (True, w) \<Rightarrow> announce_windows publish ch rest (fst st, w)))"

section \<open>Properties\<close>

lemma strptime_iso: "iso secs = Some t \<Longrightarrow> strptime t \<noteq> None"
  using epoch_seconds_iso [of secs t] by (auto simp: epoch_seconds_def)

text \<open>
  C26: Whatever anyone publishes, a relayed page view has exactly the seven fields: its identifiers
  are texts, its partition and offset are integers a browser holds exactly, and its timestamp is
  finite; and every notification the consumer encodes for such an event passes, unchanged.
\<close>

theorem relayed_notification_is_safe:
  "(parse_notification raw = Some n \<longrightarrow>
      (\<exists>i u p part off ts. n = JObj [(''type'', JStr ''pageview''), (''event_id'', JStr i), (''user_id'', JStr u),
          (''page'', JStr p), (''partition'', JInt part), (''offset'', JInt off), (''timestamp'', ts)]
        \<and> 0 \<le> part \<and> part \<le> MAX_SAFE_INTEGER \<and> 0 \<le> off \<and> off \<le> MAX_SAFE_INTEGER \<and> finite_number (Some ts)))
   \<and> (nbytes \<le> MAX_BYTES \<and> 0 \<le> part_no \<and> part_no \<le> MAX_SAFE_INTEGER \<and> 0 \<le> offset \<and> offset \<le> MAX_SAFE_INTEGER \<longrightarrow>
      parse_notification (Text nbytes (Some (encode e part_no offset)))
        = Some (JObj [(''type'', JStr ''pageview''), (''event_id'', JStr (event_id e)), (''user_id'', JStr (user_id e)),
          (''page'', JStr (page e)), (''partition'', JInt part_no), (''offset'', JInt offset),
          (''timestamp'', JFloat (Fin (event_time e)))]))"
proof (intro conjI impI)
  assume "parse_notification raw = Some n"
  then obtain d where d: "is_text (map_of d ''event_id'')" "is_text (map_of d ''user_id'')" "is_text (map_of d ''page'')"
    "safe_integer (map_of d ''partition'')" "safe_integer (map_of d ''offset'')" "finite_number (map_of d ''timestamp'')"
    "n = JObj ((''type'', JStr ''pageview'') # pick_fields FIELDS d)"
    by (auto simp: parse_notification_def split: option.splits if_splits)
  from d(1-3) obtain i u p where t: "map_of d ''event_id'' = Some (JStr i)" "map_of d ''user_id'' = Some (JStr u)"
    "map_of d ''page'' = Some (JStr p)" by (auto elim!: is_text.elims)
  from d(4,5) obtain part off where o: "map_of d ''partition'' = Some (JInt part)" "map_of d ''offset'' = Some (JInt off)"
    "0 \<le> part" "part \<le> MAX_SAFE_INTEGER" "0 \<le> off" "off \<le> MAX_SAFE_INTEGER" by (auto elim!: safe_integer.elims)
  from d(6) obtain ts where ts: "map_of d ''timestamp'' = Some ts" by (cases "map_of d ''timestamp''") auto
  show "\<exists>i u p part off ts. n = JObj [(''type'', JStr ''pageview''), (''event_id'', JStr i), (''user_id'', JStr u),
          (''page'', JStr p), (''partition'', JInt part), (''offset'', JInt off), (''timestamp'', ts)]
        \<and> 0 \<le> part \<and> part \<le> MAX_SAFE_INTEGER \<and> 0 \<le> off \<and> off \<le> MAX_SAFE_INTEGER \<and> finite_number (Some ts)"
    using t o ts d(6,7) by (intro exI [of _ i] exI [of _ u] exI [of _ p] exI [of _ part] exI [of _ off] exI [of _ ts])
      (simp add: pick_fields_def FIELDS_def List.map_filter_def)
qed (simp add: parse_notification_def encode_def pick_fields_def FIELDS_def List.map_filter_def)

text \<open>
  A window hint round trips: what the writer encodes for a window's bounds is accepted by the
  subscriber, and its bounds read back as the same instants.
\<close>

theorem window_hint_roundtrip:
  assumes "encode_window start stop = Some j" and "nbytes \<le> MAX_BYTES"
  shows "\<exists>a b. parse_window (Text nbytes (Some j))
      = Some (JObj [(''type'', JStr ''window''), (''window_start'', JStr a), (''window_end'', JStr b)])
    \<and> epoch_seconds a = Some start \<and> epoch_seconds b = Some stop"
proof -
  obtain a b where ab: "iso start = Some a" "iso stop = Some b"
    "j = JObj [(''window_start'', JStr a), (''window_end'', JStr b)]"
    using assms(1) by (auto simp: encode_window_def split: option.splits)
  have "parse_window (Text nbytes (Some j))
      = Some (JObj [(''type'', JStr ''window''), (''window_start'', JStr a), (''window_end'', JStr b)])"
    using assms(2) ab(3) strptime_iso [OF ab(1)] strptime_iso [OF ab(2)]
    by (simp add: parse_window_def pick_fields_def WINDOW_FIELDS_def List.map_filter_def)
  with epoch_seconds_iso [OF ab(1)] epoch_seconds_iso [OF ab(2)] show ?thesis by blast
qed

section \<open>Witnesses\<close>

definition ex_event :: event where
  "ex_event = \<lparr>event_id = ''e1'', user_id = ''ann'', page = ''/docs'', event_time = 1700000000\<rparr>"

theorem relayed_notification_is_safe_witness:
  "\<exists>n. parse_notification (Text 120 (Some (encode ex_event 3 41))) = Some n \<and> jget n ''offset'' = Some (JInt 41)"
  using relayed_notification_is_safe [where nbytes = 120 and part_no = 3 and offset = 41 and e = ex_event and raw = NotText and n = JNull]
  by (auto simp: MAX_BYTES_def MAX_SAFE_INTEGER_def)

theorem window_hint_roundtrip_witness:
  "\<exists>j a b. encode_window 1700000000 1700000010 = Some j \<and> parse_window (Text 80 (Some j))
      = Some (JObj [(''type'', JStr ''window''), (''window_start'', JStr a), (''window_end'', JStr b)])
    \<and> epoch_seconds a = Some 1700000000 \<and> epoch_seconds b = Some 1700000010"
proof -
  obtain j where j: "encode_window 1700000000 1700000010 = Some j"
    using iso_defined [of 1700000000] iso_defined [of 1700000010] by (auto simp: encode_window_def)
  from window_hint_roundtrip [OF j, of 80] j show ?thesis by (auto simp: MAX_BYTES_def)
qed

end
