(* ===== verification/Bridge.thy ===== *)
theory Bridge
  imports Notifications
begin

text \<open>
  \<open>bridge.py\<close>: the API's one Redis subscription. Redis, its client and the clocks are scripted:
  an attempt says whether connecting and subscribing returned within the deadline, what
  \<open>get_message\<close> then gave (nothing at all for a call that raised, the deadline included), and the
  turns of the pump with their clock readings. A script that ends leaves the bridge where it is.

  What the bridge does is a trace: what it relays, its two notices, its pings and its waits.
\<close>

section \<open>State\<close>

datatype bridge_state = SUBSCRIBED | INTERRUPTED

datatype bridge_output =
    Relayed json
  | Interrupted string
  | Resubscribed string string
  | Pinged string
  | Waited rat
  | Slept rat

record bridge =
  bstate :: bridge_state
  dropped :: nat
  pings :: nat
  outputs :: "bridge_output list"

record bridge_config =
  bchannels :: "(string \<times> (raw_message \<Rightarrow> json option)) list"
  heartbeat_interval :: rat
  heartbeat_deadline :: rat
  backoff_initial :: rat
  backoff_max :: rat

definition new_bridge :: bridge where
  "new_bridge = \<lparr>bstate = INTERRUPTED, dropped = 0, pings = 0, outputs = []\<rparr>"

text \<open>The defaults, and the channels \<open>api.open_live\<close> subscribes to.\<close>

definition live_bridge :: "string \<Rightarrow> bridge_config" where
  "live_bridge prefix =
     \<lparr>bchannels = [(channel prefix, parse_notification), (windows_channel prefix, parse_window)],
      heartbeat_interval = 5, heartbeat_deadline = 10, backoff_initial = 1 / 2, backoff_max = 10\<rparr>"

definition emit :: "bridge_output \<Rightarrow> bridge \<Rightarrow> bridge" where
  "emit x b = b\<lparr>outputs := outputs b @ [x]\<rparr>"

section \<open>Forwarding\<close>

text \<open>\<open>json.dumps(_, allow_nan=False)\<close> raises on a number that is not finite, anywhere.\<close>

fun finite_fl :: "fl \<Rightarrow> bool" where
  "finite_fl (Fin _) = True"
| "finite_fl _ = False"

fun dumpable :: "json \<Rightarrow> bool" where
  "dumpable (JFloat x) = finite_fl x"
| "dumpable (JArr xs) = list_all dumpable xs"
| "dumpable (JObj kvs) = list_all (\<lambda>(k, v). dumpable v) kvs"
| "dumpable _ = True"

definition forward :: "bridge_config \<Rightarrow> string \<Rightarrow> raw_message \<Rightarrow> bridge \<Rightarrow> bridge" where
  "forward cfg ch raw b =
     (case Option.bind (map_of (bchannels cfg) ch) (\<lambda>parse. parse raw) of
        None \<Rightarrow> b\<lparr>dropped := dropped b + 1\<rparr>
      | Some n \<Rightarrow> if dumpable n then emit (Relayed n) b else b\<lparr>dropped := dropped b + 1\<rparr>)"

definition subscribed :: "string \<Rightarrow> string \<Rightarrow> bridge \<Rightarrow> bridge" where
  "subscribed detected_at resubscribed_at b = emit (Resubscribed detected_at resubscribed_at) (b\<lparr>bstate := SUBSCRIBED\<rparr>)"

definition interrupted :: "string \<Rightarrow> bridge \<Rightarrow> bridge" where
  "interrupted detected_at b = emit (Interrupted detected_at) (b\<lparr>bstate := INTERRUPTED\<rparr>)"

section \<open>Acknowledgements\<close>

datatype frame = Quiet | SubscribeAck string | Pong string | Message string raw_message | OtherFrame

text \<open>\<open>_acknowledged\<close>: true once every channel was confirmed, false when a call raised.\<close>

fun acknowledged :: "string list \<Rightarrow> frame option list \<Rightarrow> bool option" where
  "acknowledged waiting fs =
     (if waiting = [] then Some True
      else case fs of
        [] \<Rightarrow> None
      | None # _ \<Rightarrow> Some False
      | Some (SubscribeAck c) # rest \<Rightarrow> acknowledged (removeAll c waiting) rest
      | Some _ # rest \<Rightarrow> acknowledged waiting rest)"

declare acknowledged.simps [simp del]

section \<open>The pump\<close>

text \<open>
  One turn: the clock at its top, whether the ping was sent, the clock when waiting, what
  \<open>get_message\<close> gave, the clock after a pong, the clock of the last check, and the time a renewed
  subscription was found.
\<close>

record turn =
  turn_now :: rat
  turn_ping :: bool
  turn_wait :: rat
  turn_got :: "frame option"
  turn_after :: rat
  turn_check :: rat
  turn_found :: string

type_synonym heart = "(string \<times> rat) option \<times> rat"

definition heartbeat :: "nat \<Rightarrow> string" where
  "heartbeat n = ''heartbeat-'' @ show_nat n"

definition ping_due :: "turn \<Rightarrow> heart \<Rightarrow> bool" where
  "ping_due t h \<longleftrightarrow> fst h = None \<and> snd h \<le> turn_now t"

definition send_ping :: "bridge_config \<Rightarrow> turn \<Rightarrow> heart \<times> bridge \<Rightarrow> heart \<times> bridge" where
  "send_ping cfg t hb =
     (let n = Suc (pings (snd hb)) in
      ((Some (heartbeat n, turn_now t + heartbeat_deadline cfg), snd (fst hb)),
       emit (Pinged (heartbeat n)) ((snd hb)\<lparr>pings := n\<rparr>)))"

definition wait_timeout :: "heart \<Rightarrow> rat \<Rightarrow> rat" where
  "wait_timeout h clock = max 0 (min ((case fst h of Some (_, d) \<Rightarrow> d | None \<Rightarrow> snd h) - clock) 1)"

definition receive :: "bridge_config \<Rightarrow> turn \<Rightarrow> frame \<Rightarrow> heart \<times> bridge \<Rightarrow> heart \<times> bridge" where
  "receive cfg t f hb =
     (case f of
        Pong data \<Rightarrow>
          if map_option fst (fst (fst hb)) = Some data
          then ((None, turn_after t + heartbeat_interval cfg), snd hb) else hb
      | Message ch raw \<Rightarrow> (fst hb, forward cfg ch raw (snd hb))
      | SubscribeAck _ \<Rightarrow>
          (fst hb, emit (Resubscribed (turn_found t) (turn_found t)) (emit (Interrupted (turn_found t)) (snd hb)))
      | _ \<Rightarrow> hb)"

definition missed :: "turn \<Rightarrow> heart \<Rightarrow> bool" where
  "missed t h \<longleftrightarrow> (case fst h of None \<Rightarrow> False | Some (_, d) \<Rightarrow> d \<le> turn_check t)"

text \<open>What a turn leaves, and whether it raised.\<close>

definition pump_turn :: "bridge_config \<Rightarrow> turn \<Rightarrow> heart \<times> bridge \<Rightarrow> bool \<times> heart \<times> bridge" where
  "pump_turn cfg t hb =
     (if ping_due t (fst hb) \<and> \<not> turn_ping t
      then (True, fst hb, (snd hb)\<lparr>pings := Suc (pings (snd hb))\<rparr>)
      else
        let hb1 = (if ping_due t (fst hb) then send_ping cfg t hb else hb);
            hb2 = (fst hb1, emit (Waited (wait_timeout (fst hb1) (turn_wait t))) (snd hb1))
        in (case turn_got t of
              None \<Rightarrow> (True, hb2)
            | Some f \<Rightarrow> (missed t (fst (receive cfg t f hb2)), receive cfg t f hb2)))"

fun pump :: "bridge_config \<Rightarrow> turn list \<Rightarrow> heart \<times> bridge \<Rightarrow> bool \<times> heart \<times> bridge" where
  "pump cfg [] hb = (False, hb)"
| "pump cfg (t # ts) hb =
     (let r = pump_turn cfg t hb in if fst r then r else pump cfg ts (snd r))"

section \<open>The loop\<close>

record bridge_attempt =
  at_open :: bool
  at_acks :: "frame option list"
  at_subscribed :: string
  at_clock :: rat
  at_turns :: "turn list"
  at_failed :: string

text \<open>
  \<open>run\<close>'s state: when the interruption was detected, the backoff, the bridge. An attempt raised,
  or is still going when its script ends.
\<close>

record bridge_run =
  detected :: string
  brun_backoff :: rat
  the_bridge :: bridge

definition attempt_failed :: "bridge_attempt \<Rightarrow> bridge_run \<Rightarrow> bridge_run" where
  "attempt_failed a s =
     (if bstate (the_bridge s) = SUBSCRIBED
      then s\<lparr>detected := at_failed a, the_bridge := interrupted (at_failed a) (the_bridge s)\<rparr> else s)"

definition back_off :: "bridge_config \<Rightarrow> bridge_run \<Rightarrow> bridge_run" where
  "back_off cfg s =
     s\<lparr>brun_backoff := min (backoff_max cfg) (brun_backoff s * 2),
       the_bridge := emit (Slept (brun_backoff s)) (the_bridge s)\<rparr>"

definition run_pump :: "bridge_config \<Rightarrow> bridge_attempt \<Rightarrow> bridge_run \<Rightarrow> bool \<times> bridge_run" where
  "run_pump cfg a s =
     (let r = pump cfg (at_turns a)
            ((None, at_clock a + heartbeat_interval cfg), subscribed (detected s) (at_subscribed a) (the_bridge s))
      in (fst r, s\<lparr>brun_backoff := backoff_initial cfg, the_bridge := snd (snd r)\<rparr>))"

definition run_attempt :: "bridge_config \<Rightarrow> bridge_attempt \<Rightarrow> bridge_run \<Rightarrow> bool \<times> bridge_run" where
  "run_attempt cfg a s =
     (if \<not> at_open a then (True, s)
      else case acknowledged (map fst (bchannels cfg)) (at_acks a) of
        None \<Rightarrow> (False, s)
      | Some False \<Rightarrow> (True, s)
      | Some True \<Rightarrow> run_pump cfg a s)"

fun run_bridge :: "bridge_config \<Rightarrow> bridge_attempt list \<Rightarrow> bridge_run \<Rightarrow> bridge_run" where
  "run_bridge cfg [] s = s"
| "run_bridge cfg (a # rest) s =
     (let r = run_attempt cfg a s in
      if fst r then run_bridge cfg rest (back_off cfg (attempt_failed a (snd r))) else snd r)"

definition start_bridge :: "bridge_config \<Rightarrow> string \<Rightarrow> bridge_run" where
  "start_bridge cfg now_iso = \<lparr>detected = now_iso, brun_backoff = backoff_initial cfg, the_bridge = new_bridge\<rparr>"

section \<open>What the trace says\<close>

text \<open>
  A listener's reading of the trace: whether the bridge last said it was listening, and since when
  it last said it was not. Nothing for a trace that contradicts itself: an interruption while not
  listening, a recovery from another interruption than the last, or anything relayed in between.
\<close>

fun tell :: "bridge_output \<Rightarrow> bool \<times> string \<Rightarrow> (bool \<times> string) option" where
  "tell (Relayed _) (listening, d) = (if listening then Some (True, d) else None)"
| "tell (Interrupted t) (listening, d) = (if listening then Some (False, t) else None)"
| "tell (Resubscribed t _) (listening, d) = (if \<not> listening \<and> t = d then Some (True, d) else None)"
| "tell (Pinged _) (listening, d) = (if listening then Some (True, d) else None)"
| "tell (Waited _) (listening, d) = (if listening then Some (True, d) else None)"
| "tell (Slept _) (listening, d) = (if listening then None else Some (False, d))"

definition told :: "bridge_output list \<Rightarrow> string \<Rightarrow> (bool \<times> string) option" where
  "told xs d = foldl (\<lambda>st x. Option.bind st (tell x)) (Some (False, d)) xs"

definition relays_ok :: "bridge_config \<Rightarrow> bridge \<Rightarrow> bool" where
  "relays_ok cfg b \<longleftrightarrow> (\<forall>n. Relayed n \<in> set (outputs b) \<longrightarrow>
     (\<exists>ch parse raw. map_of (bchannels cfg) ch = Some parse \<and> parse raw = Some n \<and> dumpable n))"

text \<open>The bridge while it listens: its trace says so, and its relays are parsed notifications.\<close>

definition listening_ok :: "bridge_config \<Rightarrow> string \<Rightarrow> bridge \<Rightarrow> bool" where
  "listening_ok cfg d0 b \<longleftrightarrow> bstate b = SUBSCRIBED \<and> (\<exists>d. told (outputs b) d0 = Some (True, d)) \<and> relays_ok cfg b"

definition bridge_ok :: "bridge_config \<Rightarrow> string \<Rightarrow> bridge_run \<Rightarrow> bool" where
  "bridge_ok cfg d0 s \<longleftrightarrow>
     (if bstate (the_bridge s) = SUBSCRIBED then listening_ok cfg d0 (the_bridge s)
      else told (outputs (the_bridge s)) d0 = Some (False, detected s) \<and> relays_ok cfg (the_bridge s))"

lemma told_emit [simp]: "told (outputs (emit x b)) d0 = Option.bind (told (outputs b) d0) (tell x)"
  by (simp add: told_def emit_def)

lemma emit_frame [simp]: "bstate (emit x b) = bstate b" "pings (emit x b) = pings b" "dropped (emit x b) = dropped b"
  by (simp_all add: emit_def)

lemma relays_emit [simp]:
  "relays_ok cfg (emit x b) \<longleftrightarrow> relays_ok cfg b \<and>
     (\<forall>n. x = Relayed n \<longrightarrow> (\<exists>ch parse raw. map_of (bchannels cfg) ch = Some parse \<and> parse raw = Some n \<and> dumpable n))"
  by (auto simp: relays_ok_def emit_def)

lemma updates_keep_trace [simp]:
  "told (outputs (b\<lparr>pings := n\<rparr>)) d0 = told (outputs b) d0" "relays_ok cfg (b\<lparr>pings := n\<rparr>) = relays_ok cfg b"
  "told (outputs (b\<lparr>dropped := n\<rparr>)) d0 = told (outputs b) d0" "relays_ok cfg (b\<lparr>dropped := n\<rparr>) = relays_ok cfg b"
  "told (outputs (b\<lparr>bstate := st\<rparr>)) d0 = told (outputs b) d0" "relays_ok cfg (b\<lparr>bstate := st\<rparr>) = relays_ok cfg b"
  by (simp_all add: relays_ok_def)

lemma listening_forward: "listening_ok cfg d0 b \<Longrightarrow> listening_ok cfg d0 (forward cfg ch raw b)"
  by (auto simp: listening_ok_def forward_def bind_eq_Some_conv split: option.splits)

lemma listening_receive:
  "listening_ok cfg d0 (snd hb) \<Longrightarrow> listening_ok cfg d0 (snd (receive cfg t f hb))"
  by (auto simp: receive_def listening_forward split: frame.splits) (auto simp: listening_ok_def)

lemma listening_pump_turn:
  assumes "listening_ok cfg d0 (snd hb)"
  shows "listening_ok cfg d0 (snd (snd (pump_turn cfg t hb)))"
proof -
  have keep: "listening_ok cfg d0 ((snd hb)\<lparr>pings := n\<rparr>)" for n
    using assms by (simp add: listening_ok_def)
  have sent: "listening_ok cfg d0 (snd (send_ping cfg t hb))"
    using assms by (auto simp: send_ping_def Let_def listening_ok_def)
  have waited: "listening_ok cfg d0 b \<Longrightarrow> listening_ok cfg d0 (emit (Waited x) b)" for b x
    by (auto simp: listening_ok_def)
  show ?thesis
    using assms keep waited sent by (auto simp: pump_turn_def Let_def listening_receive split: option.split)
qed

lemma listening_pump:
  "listening_ok cfg d0 (snd hb) \<Longrightarrow> listening_ok cfg d0 (snd (snd (pump cfg ts hb)))"
  by (induction ts arbitrary: hb) (auto simp: Let_def listening_pump_turn)

lemma bridge_ok_attempt:
  assumes "bridge_ok cfg d0 s" and "bstate (the_bridge s) = INTERRUPTED"
  shows "bridge_ok cfg d0 (snd (run_attempt cfg a s))"
proof -
  have "listening_ok cfg d0 (subscribed (detected s) t (the_bridge s))" for t
    using assms by (auto simp: bridge_ok_def listening_ok_def subscribed_def)
  then have pumped: "listening_ok cfg d0 (the_bridge (snd (run_pump cfg a s)))"
    by (auto simp: run_pump_def Let_def listening_pump)
  then have "bstate (the_bridge (snd (run_pump cfg a s))) = SUBSCRIBED" by (simp add: listening_ok_def)
  with pumped have "bridge_ok cfg d0 (snd (run_pump cfg a s))" by (simp add: bridge_ok_def)
  with assms(1) show ?thesis by (auto simp: run_attempt_def split: option.splits bool.splits)
qed

lemma bridge_ok_failed:
  assumes "bridge_ok cfg d0 s"
  shows "bridge_ok cfg d0 (back_off cfg (attempt_failed a s))
    \<and> bstate (the_bridge (back_off cfg (attempt_failed a s))) = INTERRUPTED"
proof (cases "bstate (the_bridge s)")
  case SUBSCRIBED
  with assms show ?thesis
    by (auto simp: bridge_ok_def listening_ok_def attempt_failed_def back_off_def interrupted_def)
next
  case INTERRUPTED
  with assms show ?thesis by (auto simp: bridge_ok_def attempt_failed_def back_off_def)
qed

lemma bridge_ok_run:
  "bridge_ok cfg d0 s \<Longrightarrow> bstate (the_bridge s) = INTERRUPTED \<Longrightarrow> bridge_ok cfg d0 (run_bridge cfg as s)"
proof (induction as arbitrary: s)
  case (Cons a as)
  note ok = bridge_ok_attempt [OF Cons.prems, of a]
  show ?case using Cons.IH bridge_ok_failed [OF ok] ok by (simp add: Let_def)
qed simp

section \<open>Acknowledged by name\<close>

lemma acknowledged_names:
  "acknowledged waiting fs = Some True \<Longrightarrow> c \<in> set waiting \<Longrightarrow> Some (SubscribeAck c) \<in> set fs"
proof (induction fs arbitrary: waiting)
  case Nil
  then show ?case by (auto simp: acknowledged.simps [of waiting "[]"] split: if_splits)
next
  case (Cons f fs)
  then have ne: "waiting \<noteq> []" by auto
  with Cons.prems(1) obtain g where f: "f = Some g" by (cases f) (simp_all add: acknowledged.simps)
  show ?case
  proof (cases "f = Some (SubscribeAck c)")
    case False
    have "acknowledged (case g of SubscribeAck d \<Rightarrow> removeAll d waiting | _ \<Rightarrow> waiting) fs = Some True"
      using Cons.prems(1) ne f by (simp add: acknowledged.simps [of waiting] split: frame.splits)
    moreover have "c \<in> set (case g of SubscribeAck d \<Rightarrow> removeAll d waiting | _ \<Rightarrow> waiting)"
      using Cons.prems(2) False f by (auto split: frame.split)
    ultimately show ?thesis using Cons.IH by simp
  qed simp
qed

section \<open>Heartbeats\<close>

text \<open>While a ping is outstanding, nothing but its own answer changes the pump's deadline.\<close>

lemma receive_heart:
  "fst (receive cfg t f hb) = (if \<exists>data. f = Pong data \<and> map_option fst (fst (fst hb)) = Some data
     then (None, turn_after t + heartbeat_interval cfg) else fst hb)"
  by (auto simp: receive_def split: frame.split)

lemma pump_turn_waits:
  assumes "pump_turn cfg t ((Some (p, d), n), b) = (False, h, b')" and "turn_got t \<noteq> Some (Pong p)"
  shows "h = (Some (p, d), n) \<and> turn_check t < d"
  using assms
  by (auto simp: pump_turn_def ping_due_def Let_def missed_def receive_heart prod_eq_iff split: option.splits if_splits)

lemma pump_waits:
  assumes "pump cfg ts ((Some (p, d), n), b) = (False, hb')" and "\<forall>t \<in> set ts. turn_got t \<noteq> Some (Pong p)"
  shows "\<forall>t \<in> set ts. turn_check t < d"
  using assms
proof (induction ts arbitrary: b)
  case (Cons t ts)
  obtain r h b1 where turn: "pump_turn cfg t ((Some (p, d), n), b) = (r, h, b1)" by (metis prod_cases3)
  with Cons.prems(1) have r: "r = False" by (auto simp: Let_def split: if_splits)
  from pump_turn_waits [OF turn [unfolded r]] Cons.prems(2) have h: "h = (Some (p, d), n)" "turn_check t < d" by auto
  with Cons turn r show ?case by (simp add: Let_def)
qed simp

lemma pump_turn_pings:
  assumes "pump_turn cfg t ((None, n), b) = (False, h, b')" and "n \<le> turn_now t"
    and "turn_got t \<noteq> Some (Pong (heartbeat (Suc (pings b))))"
  shows "h = (Some (heartbeat (Suc (pings b)), turn_now t + heartbeat_deadline cfg), n)
    \<and> turn_check t < turn_now t + heartbeat_deadline cfg"
  using assms
  by (auto simp: pump_turn_def ping_due_def send_ping_def Let_def missed_def receive_heart prod_eq_iff
      split: option.splits if_splits)

section \<open>Properties\<close>

text \<open>
  C15: What the bridge says of itself is true at every moment: interruptions and recoveries
  alternate, each recovery names the interruption it ends, nothing is relayed, pinged or awaited
  while it is not listening and it never backs off while it is, its state is the last thing it
  said; and everything it relays came out of the parser of a channel it subscribes to and can be
  written as JSON.
\<close>

theorem bridge_tells_the_truth:
  "let s = run_bridge cfg attempts (start_bridge cfg d0); b = the_bridge s in
     (\<exists>d. told (outputs b) d0 = Some (bstate b = SUBSCRIBED, d) \<and> (bstate b = INTERRUPTED \<longrightarrow> d = detected s))
     \<and> relays_ok cfg b"
proof -
  have "bridge_ok cfg d0 (start_bridge cfg d0)"
    by (simp add: bridge_ok_def start_bridge_def new_bridge_def told_def relays_ok_def)
  from bridge_ok_run [OF this, of attempts] show ?thesis
    by (cases "bstate (the_bridge (run_bridge cfg attempts (start_bridge cfg d0)))")
      (auto simp: Let_def bridge_ok_def listening_ok_def start_bridge_def new_bridge_def)
qed

text \<open>
  Recovered means confirmed: an attempt that says anything at all connected in time and was
  acknowledged on every channel, by name.
\<close>

theorem recovery_needs_every_channel:
  assumes "run_attempt cfg a s = (r, s')" and "outputs (the_bridge s') \<noteq> outputs (the_bridge s)"
  shows "at_open a \<and> (\<forall>c \<in> fst ` set (bchannels cfg). Some (SubscribeAck c) \<in> set (at_acks a))"
  using assms acknowledged_names [of "map fst (bchannels cfg)" "at_acks a"]
  by (auto simp: run_attempt_def split: if_splits option.splits bool.splits)

text \<open>
  C28: A silent server is noticed on time: once a ping is sent, the pump outlives no check at or
  after the ping's deadline unless that very ping is answered, whatever else arrives meanwhile.
\<close>

theorem silent_server_is_noticed:
  assumes "pump cfg (t # ts) ((None, next_ping), b) = (False, hb')" and "next_ping \<le> turn_now t"
    and "\<forall>u \<in> set (t # ts). turn_got u \<noteq> Some (Pong (heartbeat (Suc (pings b))))"
  shows "\<forall>u \<in> set (t # ts). turn_check u < turn_now t + heartbeat_deadline cfg"
proof -
  obtain r h b1 where turn: "pump_turn cfg t ((None, next_ping), b) = (r, h, b1)" by (metis prod_cases3)
  with assms(1) have r: "r = False" by (auto simp: Let_def split: if_splits)
  from pump_turn_pings [OF turn [unfolded r] assms(2)] assms(3)
  have h: "h = (Some (heartbeat (Suc (pings b)), turn_now t + heartbeat_deadline cfg), next_ping)"
    "turn_check t < turn_now t + heartbeat_deadline cfg" by auto
  have "pump cfg ts (h, b1) = (False, hb')" using assms(1) turn r by (simp add: Let_def)
  from pump_waits [OF this [unfolded h(1)]] assms(3) h(2) show ?thesis by simp
qed

section \<open>Witnesses\<close>

definition ex_turn :: "rat \<Rightarrow> frame option \<Rightarrow> turn" where
  "ex_turn c f = \<lparr>turn_now = c, turn_ping = True, turn_wait = c, turn_got = f, turn_after = c, turn_check = c, turn_found = ''t9''\<rparr>"

definition ex_attempt :: bridge_attempt where
  "ex_attempt = \<lparr>at_open = True, at_acks = [Some (SubscribeAck ''events:windows''), Some Quiet, Some (SubscribeAck ''events:pageviews'')],
     at_subscribed = ''t1'', at_clock = 0, at_turns = [ex_turn 5 (Some Quiet), ex_turn 6 None], at_failed = ''t2''\<rparr>"

lemmas ex_bridge_simps = run_attempt_def ex_attempt_def live_bridge_def channel_def windows_channel_def CHANNEL_def
  WINDOWS_CHANNEL_def acknowledged.simps run_pump_def subscribed_def start_bridge_def new_bridge_def emit_def Let_def
  ex_turn_def pump_turn_def ping_due_def send_ping_def receive_def missed_def heartbeat_def

theorem bridge_tells_the_truth_witness:
  "let s = run_bridge (live_bridge []) [ex_attempt] (start_bridge (live_bridge []) ''t0'') in
     detected s = ''t2'' \<and> told (outputs (the_bridge s)) ''t0'' = Some (False, ''t2'')"
proof -
  let ?s = "run_bridge (live_bridge []) [ex_attempt] (start_bridge (live_bridge []) ''t0'')"
  have "bstate (the_bridge ?s) = INTERRUPTED" "detected ?s = ''t2''"
    by (simp_all add: ex_bridge_simps attempt_failed_def back_off_def interrupted_def)
  with bridge_tells_the_truth [of "live_bridge []" "[ex_attempt]" "''t0''"] show ?thesis
    by (auto simp only: Let_def bridge_state.simps)
qed

theorem recovery_needs_every_channel_witness:
  "let r = run_attempt (live_bridge []) ex_attempt (start_bridge (live_bridge []) ''t0'') in
     outputs (the_bridge (snd r)) \<noteq> [] \<and> at_open ex_attempt
     \<and> Some (SubscribeAck ''events:pageviews'') \<in> set (at_acks ex_attempt)"
proof -
  let ?s = "start_bridge (live_bridge []) ''t0''"
  let ?r = "run_attempt (live_bridge []) ex_attempt ?s"
  have ne: "outputs (the_bridge (snd ?r)) \<noteq> outputs (the_bridge ?s)" by (simp add: ex_bridge_simps)
  from recovery_needs_every_channel [of "live_bridge []" ex_attempt ?s "fst ?r" "snd ?r"] ne
  have "at_open ex_attempt \<and> (\<forall>c \<in> fst ` set (bchannels (live_bridge [])). Some (SubscribeAck c) \<in> set (at_acks ex_attempt))"
    by simp
  with ne show ?thesis
    by (simp add: Let_def live_bridge_def channel_def CHANNEL_def start_bridge_def new_bridge_def)
qed

theorem silent_server_is_noticed_witness:
  "let hb = ((None, 5), new_bridge); ts = [ex_turn 5 (Some Quiet), ex_turn 9 (Some (Pong (heartbeat 0)))] in
     \<not> fst (pump (live_bridge []) ts hb) \<and> (\<forall>u \<in> set ts. turn_check u < 15)"
proof -
  let ?ts = "[ex_turn 5 (Some Quiet), ex_turn 9 (Some (Pong (heartbeat 0)))]"
  let ?p = "pump (live_bridge []) ?ts ((None, 5), new_bridge)"
  have run: "?p = (False, snd ?p)" by (simp add: ex_bridge_simps)
  have "\<forall>u \<in> set ?ts. turn_got u \<noteq> Some (Pong (heartbeat (Suc (pings new_bridge))))"
    by (simp add: ex_turn_def heartbeat_def new_bridge_def)
  from silent_server_is_noticed [OF run _ this] have "\<forall>u \<in> set ?ts. turn_check u < 15"
    by (simp add: ex_turn_def live_bridge_def)
  moreover have "\<not> fst ?p" by (subst run) simp
  ultimately show ?thesis unfolding Let_def by blast
qed

end
