(* ===== verification/Presence.thy ===== *)
theory Presence
  imports Coordination
begin

text \<open>
  \<open>coordination.Presence\<close>: a registration that is created again after a session loss, as the
  interleaving of its own thread, the listener kazoo calls, the owner that updates it, and the
  service. Each definition is one of the code's atomic pieces: what it does under its lock, one
  call to the service, one event set or cleared.

  The service's side is the nodes this process owns, whether its session has expired without the
  listener having been told (nothing can be created until it is), and the nodes nobody will
  remove: those of a create that raised after it happened, or of a delete that failed.
\<close>

section \<open>State\<close>

type_synonym json_fields = "(string \<times> json) list"

text \<open>Where the thread is in \<open>_run\<close>: at its wait, before a call, or gone.\<close>

datatype presence_thread =
    Waiting
  | Clearing
  | Registering json_fields nat
  | Published json_fields nat string
  | Refreshing string json_fields
  | Discarding string
  | Returned
  | Died

record presence =
  ppath :: "string option"
  ppayload :: json_fields
  pgeneration :: nat
  pneeded :: bool
  pregistered :: bool
  pstop :: bool
  pthread :: presence_thread
  pupdating :: "(string \<times> json_fields) option"
  plosing :: bool
  pnodes :: "string \<Rightarrow> json_fields option"
  pexpired :: bool
  pleaked :: "string set"

definition new_presence :: presence where
  "new_presence = \<lparr>ppath = None, ppayload = [], pgeneration = 0, pneeded = False, pregistered = False, pstop = False,
     pthread = Returned, pupdating = None, plosing = False, pnodes = Map.empty, pexpired = False, pleaked = {}\<rparr>"

section \<open>Operations\<close>

definition presence_start :: "json_fields \<Rightarrow> presence \<Rightarrow> presence" where
  "presence_start extra p = p\<lparr>ppayload := merge_fields (ppayload p) extra, pneeded := True, pthread := Waiting\<rparr>"

definition presence_stop :: "presence \<Rightarrow> presence" where
  "presence_stop p = p\<lparr>pstop := True, pneeded := True\<rparr>"

text \<open>\<open>update\<close>: under the lock, then the call, whose failure is only logged.\<close>

definition update_locked :: "json_fields \<Rightarrow> presence \<Rightarrow> presence" where
  "update_locked extra p =
     (let payload = merge_fields (ppayload p) extra in
      p\<lparr>ppayload := payload, pupdating := map_option (\<lambda>q. (q, payload)) (ppath p)\<rparr>)"

definition set_node :: "string \<Rightarrow> json_fields \<Rightarrow> presence \<Rightarrow> presence" where
  "set_node q extra p =
     (case pnodes p q of None \<Rightarrow> p | Some old \<Rightarrow> p\<lparr>pnodes := (pnodes p)(q \<mapsto> merge_fields old extra)\<rparr>)"

definition update_called :: "bool \<Rightarrow> presence \<Rightarrow> presence" where
  "update_called happened p =
     (case pupdating p of
        None \<Rightarrow> p
      | Some (q, payload) \<Rightarrow> (if happened then set_node q payload p else p)\<lparr>pupdating := None\<rparr>)"

text \<open>\<open>on_state\<close>: for a lost session, first under the lock, then the two events.\<close>

definition lost_locked :: "presence \<Rightarrow> presence" where
  "lost_locked p = p\<lparr>ppath := None, pgeneration := Suc (pgeneration p), plosing := True, pexpired := False\<rparr>"

definition lost_events :: "presence \<Rightarrow> presence" where
  "lost_events p = p\<lparr>pregistered := False, pneeded := True, plosing := False\<rparr>"

definition on_connected :: "presence \<Rightarrow> presence" where
  "on_connected p = p\<lparr>pneeded := True\<rparr>"

text \<open>\<open>_run\<close>, from the wait to the create.\<close>

definition thread_wakes :: "presence \<Rightarrow> presence" where
  "thread_wakes p =
     (if pstop p then p\<lparr>pthread := Returned\<rparr>
      else if ppath p \<noteq> None then p\<lparr>pthread := Clearing\<rparr>
      else p\<lparr>pthread := Registering (ppayload p) (pgeneration p)\<rparr>)"

definition thread_clears :: "presence \<Rightarrow> presence" where
  "thread_clears p = p\<lparr>pneeded := False, pthread := Waiting\<rparr>"

definition registered_fields :: "string \<Rightarrow> string \<Rightarrow> json_fields \<Rightarrow> json_fields" where
  "registered_fields identity since payload = merge_fields [(''identity'', JStr identity), (''since'', JStr since)] payload"

definition create_returned :: "string \<Rightarrow> string \<Rightarrow> string \<Rightarrow> json_fields \<Rightarrow> nat \<Rightarrow> presence \<Rightarrow> presence" where
  "create_returned identity since q payload g p =
     p\<lparr>pnodes := (pnodes p)(q \<mapsto> registered_fields identity since payload), pthread := Published payload g q\<rparr>"

text \<open>A create that raised may have happened: then its node is nobody's.\<close>

definition create_raised :: "(string \<times> json_fields) option \<Rightarrow> presence \<Rightarrow> presence" where
  "create_raised leak p =
     (case leak of
        None \<Rightarrow> p\<lparr>pthread := Waiting\<rparr>
      | Some (q, d) \<Rightarrow> p\<lparr>pthread := Waiting, pnodes := (pnodes p)(q \<mapsto> d), pleaked := insert q (pleaked p)\<rparr>)"

text \<open>The second lock: stale, or the path and both events at once.\<close>

definition publish_locked :: "json_fields \<Rightarrow> nat \<Rightarrow> string \<Rightarrow> presence \<Rightarrow> presence" where
  "publish_locked payload g q p =
     (if g \<noteq> pgeneration p then p\<lparr>pthread := Discarding q\<rparr>
      else p\<lparr>ppath := Some q, pregistered := True, pneeded := False,
             pthread := (if dict_eq (ppayload p) payload then Waiting else Refreshing q (ppayload p))\<rparr>)"

definition discard :: "string \<Rightarrow> bool \<Rightarrow> presence \<Rightarrow> presence" where
  "discard q deleted p =
     (if deleted then p\<lparr>pnodes := (pnodes p)(q := None), pneeded := True, pthread := Waiting\<rparr>
      else p\<lparr>pleaked := insert q (pleaked p), pneeded := True, pthread := Waiting\<rparr>)"

text \<open>The last call of the loop is outside every \<open>try\<close>: an exception ends the thread.\<close>

definition refresh :: "string \<Rightarrow> json_fields \<Rightarrow> bool \<Rightarrow> presence \<Rightarrow> presence" where
  "refresh q fresher ok p = (if ok then (set_node q fresher p)\<lparr>pthread := Waiting\<rparr> else p\<lparr>pthread := Died\<rparr>)"

section \<open>Interleavings\<close>

text \<open>A session expires at the service: its ephemeral nodes are gone before anyone is told.\<close>

definition session_expires :: "presence \<Rightarrow> presence" where
  "session_expires p = p\<lparr>pnodes := Map.empty, pleaked := {}, pexpired := True\<rparr>"

inductive presence_step :: "string \<Rightarrow> string \<Rightarrow> presence \<Rightarrow> presence \<Rightarrow> bool" for identity since where
  stop: "presence_step identity since p (presence_stop p)"
| update_lock: "pupdating p = None \<Longrightarrow> presence_step identity since p (update_locked extra p)"
| update_call: "pupdating p \<noteq> None \<Longrightarrow> presence_step identity since p (update_called happened p)"
| expire: "\<not> pexpired p \<Longrightarrow> presence_step identity since p (session_expires p)"
| lost_lock: "pexpired p \<Longrightarrow> \<not> plosing p \<Longrightarrow> presence_step identity since p (lost_locked p)"
| lost_set: "plosing p \<Longrightarrow> presence_step identity since p (lost_events p)"
| connect: "\<not> plosing p \<Longrightarrow> presence_step identity since p (on_connected p)"
| wake: "pthread p = Waiting \<Longrightarrow> presence_step identity since p (thread_wakes p)"
| clears: "pthread p = Clearing \<Longrightarrow> presence_step identity since p (thread_clears p)"
| created: "pthread p = Registering payload g \<Longrightarrow> \<not> pexpired p \<Longrightarrow> pnodes p q = None
    \<Longrightarrow> presence_step identity since p (create_returned identity since q payload g p)"
| raised: "pthread p = Registering payload g
    \<Longrightarrow> (case leak of None \<Rightarrow> True | Some (q, d) \<Rightarrow> \<not> pexpired p \<and> pnodes p q = None \<and> d = registered_fields identity since payload)
    \<Longrightarrow> presence_step identity since p (create_raised leak p)"
| publish: "pthread p = Published payload g q \<Longrightarrow> presence_step identity since p (publish_locked payload g q p)"
| discarded: "pthread p = Discarding q \<Longrightarrow> presence_step identity since p (discard q deleted p)"
| refreshed: "pthread p = Refreshing q fresher \<Longrightarrow> presence_step identity since p (refresh q fresher ok p)"

inductive presence_run :: "string \<Rightarrow> string \<Rightarrow> presence \<Rightarrow> presence \<Rightarrow> bool" for identity since where
  refl: "presence_run identity since p p"
| step: "presence_run identity since p p' \<Longrightarrow> presence_step identity since p' p'' \<Longrightarrow> presence_run identity since p p''"

inductive_cases presence_stepE: "presence_step identity since p p'"

lemmas presence_defs = presence_stop_def update_locked_def set_node_def update_called_def lost_locked_def lost_events_def
  on_connected_def thread_wakes_def thread_clears_def create_returned_def create_raised_def publish_locked_def
  discard_def refresh_def session_expires_def

section \<open>The invariant\<close>

text \<open>The node the thread holds and has not published, and when it has none to publish.\<close>

fun in_hand :: "presence_thread \<Rightarrow> string set" where
  "in_hand (Published _ _ q) = {q}"
| "in_hand (Discarding q) = {q}"
| "in_hand _ = {}"

fun between_wake_and_path :: "presence_thread \<Rightarrow> bool" where
  "between_wake_and_path (Registering _ _) = True"
| "between_wake_and_path (Published _ _ _) = True"
| "between_wake_and_path (Discarding _) = True"
| "between_wake_and_path _ = False"

fun working_for :: "presence_thread \<Rightarrow> nat option" where
  "working_for (Registering _ g) = Some g"
| "working_for (Published _ g _) = Some g"
| "working_for _ = None"

text \<open>
  A path is believed while its node exists, or its session's end is yet to be reported; every
  node is the path, in hand, or leaked; and being registered means having a path.
\<close>

definition presence_ok :: "presence \<Rightarrow> bool" where
  "presence_ok p \<longleftrightarrow>
     (\<forall>q. ppath p = Some q \<longrightarrow> \<not> pexpired p \<longrightarrow> pnodes p q \<noteq> None)
   \<and> (\<forall>d g q. pthread p = Published d g q \<longrightarrow> \<not> pexpired p \<longrightarrow> g = pgeneration p \<longrightarrow> pnodes p q \<noteq> None)
   \<and> (\<forall>q. pnodes p q \<noteq> None \<longrightarrow> ppath p = Some q \<or> q \<in> in_hand (pthread p) \<or> q \<in> pleaked p)
   \<and> (between_wake_and_path (pthread p) \<longrightarrow> ppath p = None)
   \<and> (\<forall>g. working_for (pthread p) = Some g \<longrightarrow> g \<le> pgeneration p)
   \<and> (pexpired p \<longrightarrow> pnodes p = Map.empty)
   \<and> finite (dom (pnodes p))
   \<and> (pregistered p \<longrightarrow> plosing p \<or> ppath p \<noteq> None)"

lemma presence_ok_set_node: "presence_ok p \<Longrightarrow> presence_ok (set_node q extra p)"
  by (auto simp: presence_ok_def set_node_def split: option.split)

lemma presence_ok_step:
  assumes "presence_ok p" and "presence_step identity since p p'"
  shows "presence_ok p'"
  using assms(2)
proof cases
  case stop
  with assms(1) show ?thesis by (simp add: presence_stop_def presence_ok_def)
next
  case update_lock
  with assms(1) show ?thesis by (simp add: update_locked_def presence_ok_def Let_def)
next
  case (update_call happened)
  have "presence_ok (q\<lparr>pupdating := None\<rparr>)" if "presence_ok q" for q
    using that by (simp add: presence_ok_def)
  with assms(1) update_call show ?thesis
    by (auto simp: update_called_def presence_ok_set_node split: option.split)
next
  case expire
  with assms(1) show ?thesis by (simp add: session_expires_def presence_ok_def)
next
  case lost_lock
  with assms(1) show ?thesis by (auto simp: lost_locked_def presence_ok_def)
next
  case lost_set
  with assms(1) show ?thesis by (simp add: lost_events_def presence_ok_def)
next
  case connect
  with assms(1) show ?thesis by (simp add: on_connected_def presence_ok_def)
next
  case wake
  with assms(1) show ?thesis by (auto simp: thread_wakes_def presence_ok_def)
next
  case clears
  with assms(1) show ?thesis by (simp add: thread_clears_def presence_ok_def)
next
  case (created payload g q)
  with assms(1) show ?thesis by (auto simp: create_returned_def presence_ok_def)
next
  case (raised payload g leak)
  with assms(1) show ?thesis by (auto simp: create_raised_def presence_ok_def split: option.splits)
next
  case (publish payload g q)
  with assms(1) show ?thesis by (auto simp: publish_locked_def presence_ok_def)
next
  case (discarded q deleted)
  with assms(1) show ?thesis by (auto simp: discard_def presence_ok_def)
next
  case (refreshed q fresher ok)
  have "presence_ok (r\<lparr>pthread := Waiting\<rparr>)" "presence_ok (r\<lparr>pthread := Died\<rparr>)"
    if "presence_ok r" "pthread r = Refreshing q fresher" for r
    using that by (auto simp: presence_ok_def)
  moreover have "pthread (set_node q fresher p) = pthread p" by (simp add: set_node_def split: option.split)
  ultimately show ?thesis using assms(1) refreshed by (simp add: refresh_def presence_ok_set_node)
qed

lemma presence_ok_run: "presence_run identity since p p' \<Longrightarrow> presence_ok p \<Longrightarrow> presence_ok p'"
  by (induction rule: presence_run.induct) (auto intro: presence_ok_step)

section \<open>Repair\<close>

text \<open>A living thread that is not told to stop can always publish a path again.\<close>

fun alive :: "presence_thread \<Rightarrow> bool" where
  "alive Returned = False"
| "alive Died = False"
| "alive _ = True"

lemma presence_run_trans: "presence_run i c q r \<Longrightarrow> presence_run i c p q \<Longrightarrow> presence_run i c p r"
  by (induction rule: presence_run.induct) (auto intro: presence_run.step)

lemma presence_run_one: "presence_step i c p q \<Longrightarrow> presence_run i c p q"
  by (blast intro: presence_run.intros)

lemma to_waiting:
  assumes "alive (pthread p)"
  shows "\<exists>p'. presence_run i c p p' \<and> pthread p' = Waiting \<and> pstop p' = pstop p"
proof (cases "pthread p")
  case Waiting
  then show ?thesis using presence_run.refl by blast
next
  case Clearing
  from presence_run_one [OF presence_step.clears [OF this]] show ?thesis by (force simp: thread_clears_def)
next
  case (Registering d g)
  have "presence_step i c p (create_raised None p)" by (rule presence_step.raised [OF Registering]) simp
  from presence_run_one [OF this] show ?thesis by (force simp: create_raised_def)
next
  case (Published d g q)
  let ?p1 = "publish_locked d g q p"
  have one: "presence_run i c p ?p1" by (rule presence_run_one [OF presence_step.publish [OF Published]])
  consider "pthread ?p1 = Discarding q" | "pthread ?p1 = Waiting" | f where "pthread ?p1 = Refreshing q f"
    by (cases "g = pgeneration p"; cases "dict_eq (ppayload p) d") (auto simp: publish_locked_def)
  then show ?thesis
  proof cases
    case 1
    from presence_run_one [OF presence_step.discarded [OF this, of i c True]] one
    have "presence_run i c p (discard q True ?p1)" by (rule presence_run_trans)
    then show ?thesis by (intro exI [of _ "discard q True ?p1"]) (simp add: discard_def publish_locked_def)
  next
    case 2
    moreover have "pstop ?p1 = pstop p" by (simp add: publish_locked_def)
    ultimately show ?thesis using one by blast
  next
    case (3 f)
    from presence_run_one [OF presence_step.refreshed [OF this, of i c True]] one
    have "presence_run i c p (refresh q f True ?p1)" by (rule presence_run_trans)
    then show ?thesis
      by (intro exI [of _ "refresh q f True ?p1"]) (simp add: refresh_def set_node_def publish_locked_def split: option.split)
  qed
next
  case (Refreshing q f)
  from presence_run_one [OF presence_step.refreshed [OF this, of i c True]] show ?thesis
    by (intro exI [of _ "refresh q f True p"]) (simp add: refresh_def set_node_def split: option.split)
next
  case (Discarding q)
  from presence_run_one [OF presence_step.discarded [OF this, of i c True]] show ?thesis by (force simp: discard_def)
qed (use assms in simp_all)

text \<open>A loss can be reported to the listener, which leaves the thread waiting.\<close>

lemma loss_reported:
  assumes "pthread p = Waiting" and "\<not> pstop p"
  shows "\<exists>p'. presence_run i c p p' \<and> pthread p' = Waiting \<and> \<not> pstop p' \<and> \<not> pexpired p'"
proof (cases "pexpired p")
  case True
  let ?p1 = "if plosing p then lost_events p else p"
  have run: "presence_run i c p ?p1"
    by (auto intro: presence_run.refl presence_run_one presence_step.lost_set)
  have "presence_step i c ?p1 (lost_locked ?p1)"
    using True by (intro presence_step.lost_lock) (auto simp: lost_events_def)
  with run have "presence_run i c p (lost_locked ?p1)" by (rule presence_run.step)
  with assms show ?thesis by (intro exI [of _ "lost_locked ?p1"]) (simp add: lost_locked_def lost_events_def)
qed (use assms presence_run.refl in blast)

text \<open>Once the loss has been reported, a waiting thread registers in three steps.\<close>

lemma waiting_registers:
  assumes "pthread p = Waiting" and "\<not> pstop p" and "\<not> pexpired p" and "ppath p = None" and "pnodes p q = None"
  shows "\<exists>p'. presence_run i c p p' \<and> ppath p' = Some q \<and> pnodes p' q \<noteq> None \<and> \<not> pexpired p'"
proof -
  let ?p1 = "thread_wakes p"
  have t1: "pthread ?p1 = Registering (ppayload p) (pgeneration p)" using assms by (simp add: thread_wakes_def)
  let ?p2 = "create_returned i c q (ppayload p) (pgeneration p) ?p1"
  have e1: "\<not> pexpired ?p1" "pnodes ?p1 q = None" using assms by (simp_all add: thread_wakes_def)
  let ?p3 = "publish_locked (ppayload p) (pgeneration p) q ?p2"
  have "presence_run i c p ?p1" by (rule presence_run_one [OF presence_step.wake [OF assms(1)]])
  from presence_run.step [OF this presence_step.created [OF t1 e1]]
  have "presence_run i c p ?p2" .
  moreover have "pthread ?p2 = Published (ppayload p) (pgeneration p) q" by (simp add: create_returned_def)
  ultimately have "presence_run i c p ?p3" by (blast intro: presence_run.step presence_step.publish)
  moreover have "ppath ?p3 = Some q \<and> pnodes ?p3 q \<noteq> None \<and> \<not> pexpired ?p3"
    using assms by (simp add: publish_locked_def create_returned_def thread_wakes_def)
  ultimately show ?thesis by blast
qed

section \<open>Properties\<close>

lemma started_ok: "presence_ok (presence_start extra new_presence)"
  by (simp add: presence_start_def new_presence_def presence_ok_def)

text \<open>
  C17: In every interleaving a published path names a node that exists, until a session loss the
  listener has not been told of; no node is left behind but those of a create that raised or a
  delete that failed; and a process is only reported registered while it has a path, except while
  the listener is taking a loss down.
\<close>

theorem presence_is_truthful:
  assumes "presence_run identity since (presence_start extra new_presence) p"
  shows "(ppath p = Some q \<and> \<not> pexpired p \<longrightarrow> pnodes p q \<noteq> None)
    \<and> (pnodes p q \<noteq> None \<and> q \<notin> pleaked p \<longrightarrow> ppath p = Some q \<or> q \<in> in_hand (pthread p))
    \<and> (pregistered p \<and> \<not> plosing p \<longrightarrow> ppath p \<noteq> None)"
  using presence_ok_run [OF assms started_ok] by (auto simp: presence_ok_def)

text \<open>
  C22: A failed refresh ends self-repair: the call that brings a fresh registration up to date is
  outside every handler, so when it raises the thread is gone for good, and after the next session
  loss the process stays absent from the tree however long it goes on working.
\<close>

theorem failed_refresh_ends_repair:
  assumes "pthread p = Refreshing q fresher"
    and "presence_run identity since (refresh q fresher False p) p'"
  shows "pthread p' = Died \<and> (\<forall>r. pnodes p' r \<noteq> None \<longrightarrow> pnodes p r \<noteq> None)
    \<and> (presence_run identity since (lost_locked p') p'' \<longrightarrow> ppath p'' = None)"
proof -
  have dead: "pthread y = Died \<and> (\<forall>r. pnodes y r \<noteq> None \<longrightarrow> pnodes x r \<noteq> None) \<and> (ppath x = None \<longrightarrow> ppath y = None)"
    if "presence_run identity since x y" "pthread x = Died" for x y
    using that
  proof (induction rule: presence_run.induct)
    case (step p p' p'')
    then have p': "pthread p' = Died" by simp
    from step(2) p'
    have "pthread p'' = Died \<and> (\<forall>r. pnodes p'' r \<noteq> None \<longrightarrow> pnodes p' r \<noteq> None) \<and> (ppath p' = None \<longrightarrow> ppath p'' = None)"
      by cases (auto simp: presence_defs Let_def split: option.splits if_splits)
    with step show ?case by blast
  qed simp
  have d1: "pthread p' = Died \<and> (\<forall>r. pnodes p' r \<noteq> None \<longrightarrow> pnodes p r \<noteq> None)"
    using dead [OF assms(2)] by (simp add: refresh_def)
  moreover have "ppath p'' = None" if "presence_run identity since (lost_locked p') p''"
    using dead [OF that] d1 by (simp add: lost_locked_def)
  ultimately show ?thesis by blast
qed

text \<open>
  C21: As long as its thread lives and was not told to stop, the registration repairs itself: from
  every reachable state, whatever was lost, it can come to a published path whose node exists.
\<close>

theorem presence_repairs_itself:
  assumes "presence_run identity since (presence_start extra new_presence) p"
    and "alive (pthread p)" and "\<not> pstop p"
  shows "\<exists>p' q. presence_run identity since p p' \<and> ppath p' = Some q \<and> \<not> pexpired p' \<and> pnodes p' q \<noteq> None"
proof -
  from to_waiting [OF assms(2)] assms(3) obtain p1
    where p1: "presence_run identity since p p1" "pthread p1 = Waiting" "\<not> pstop p1" by metis
  from loss_reported [OF p1(2,3)] obtain p2
    where p2: "presence_run identity since p1 p2" "pthread p2 = Waiting" "\<not> pstop p2" "\<not> pexpired p2" by metis
  have run: "presence_run identity since p p2" by (rule presence_run_trans [OF p2(1) p1(1)])
  have ok: "presence_ok p2"
    by (rule presence_ok_run [OF presence_run_trans [OF run assms(1)] started_ok])
  show ?thesis
  proof (cases "ppath p2")
    case (Some q)
    with ok p2(4) run show ?thesis by (auto simp: presence_ok_def)
  next
    case None
    have "finite (dom (pnodes p2))" using ok by (simp add: presence_ok_def)
    then obtain q where "q \<notin> dom (pnodes p2)" using infinite_UNIV_listI ex_new_if_finite by blast
    then have "pnodes p2 q = None" by auto
    from waiting_registers [OF p2(2,3,4) None this] obtain p3
      where "presence_run identity since p2 p3" "ppath p3 = Some q" "pnodes p3 q \<noteq> None" "\<not> pexpired p3" by blast
    with presence_run_trans [OF _ run] show ?thesis by blast
  qed
qed

section \<open>Witnesses\<close>

definition ex_presence :: presence where
  "ex_presence = presence_start [(''delay'', JInt 1)] new_presence"

definition ex_registering :: presence where
  "ex_registering = create_returned ''w1'' ''t'' ''/r/1'' [(''delay'', JInt 1)] 0 (thread_wakes ex_presence)"

lemma ex_registering_run: "presence_run ''w1'' ''t'' ex_presence ex_registering"
proof -
  have w: "presence_run ''w1'' ''t'' ex_presence (thread_wakes ex_presence)"
    by (rule presence_run_one [OF presence_step.wake]) (simp add: ex_presence_def presence_start_def)
  have "pthread (thread_wakes ex_presence) = Registering [(''delay'', JInt 1)] 0"
    by (simp add: ex_presence_def presence_start_def new_presence_def thread_wakes_def merge_fields_def)
  from presence_step.created [OF this, of "''/r/1''" "''w1''" "''t''"] presence_run.step [OF w] show ?thesis
    by (simp add: ex_registering_def ex_presence_def presence_start_def new_presence_def thread_wakes_def)
qed

lemmas ex_presence_simps = ex_registering_def ex_presence_def presence_start_def new_presence_def thread_wakes_def
  merge_fields_def create_returned_def publish_locked_def update_locked_def Let_def dict_eq_def

theorem presence_is_truthful_witness:
  "\<exists>p. presence_run ''w1'' ''t'' ex_presence p \<and> ppath p = Some ''/r/1'' \<and> pnodes p ''/r/1'' \<noteq> None"
proof -
  let ?p = "publish_locked [(''delay'', JInt 1)] 0 ''/r/1'' ex_registering"
  have "presence_run ''w1'' ''t'' ex_presence ?p"
    by (rule presence_run.step [OF ex_registering_run presence_step.publish]) (simp add: ex_presence_simps)
  with presence_is_truthful [OF this [unfolded ex_presence_def], of "''/r/1''"] show ?thesis
    by (auto intro!: exI [of _ ?p] simp: ex_presence_simps)
qed

definition ex_dying :: presence where
  "ex_dying = publish_locked [(''delay'', JInt 1)] 0 ''/r/1'' (update_locked [(''delay'', JInt 2)] ex_registering)"

theorem failed_refresh_ends_repair_witness:
  "\<exists>p'. presence_run ''w1'' ''t'' ex_presence ex_dying \<and> pthread ex_dying = Refreshing ''/r/1'' [(''delay'', JInt 2)]
     \<and> presence_run ''w1'' ''t'' ex_dying (lost_locked p') \<and> pthread p' = Died \<and> pnodes p' ''/r/1'' = None
     \<and> (\<forall>p''. presence_run ''w1'' ''t'' (lost_locked p') p'' \<longrightarrow> ppath p'' = None)"
proof -
  let ?f = "[(''delay'', JInt 2)]"
  have "presence_run ''w1'' ''t'' ex_presence (update_locked ?f ex_registering)"
    by (rule presence_run.step [OF ex_registering_run presence_step.update_lock]) (simp add: ex_presence_simps)
  then have run: "presence_run ''w1'' ''t'' ex_presence ex_dying"
    unfolding ex_dying_def by (rule presence_run.step [OF _ presence_step.publish]) (simp add: ex_presence_simps)
  have t: "pthread ex_dying = Refreshing ''/r/1'' ?f" by (simp add: ex_dying_def ex_presence_simps)
  let ?d = "refresh ''/r/1'' ?f False ex_dying"
  let ?x = "session_expires ?d"
  have nx: "\<not> pexpired ?d" "\<not> plosing ?x" by (simp_all add: refresh_def ex_dying_def ex_presence_simps session_expires_def)
  have dx: "presence_run ''w1'' ''t'' ?d ?x" by (rule presence_run_one [OF presence_step.expire [OF nx(1)]])
  from dx have "presence_run ''w1'' ''t'' ex_dying ?x"
    by (rule presence_run_trans) (rule presence_run_one [OF presence_step.refreshed [OF t]])
  then have lost: "presence_run ''w1'' ''t'' ex_dying (lost_locked ?x)"
    by (rule presence_run.step [OF _ presence_step.lost_lock]) (use nx in \<open>simp_all add: session_expires_def\<close>)
  from failed_refresh_ends_repair [OF t dx] run t lost show ?thesis
    by (intro exI [of _ ?x]) (simp add: session_expires_def)
qed

theorem presence_repairs_itself_witness:
  "alive (pthread ex_presence) \<and> (\<exists>p' q. presence_run ''w1'' ''t'' ex_presence p' \<and> ppath p' = Some q \<and> pnodes p' q \<noteq> None)"
proof -
  have a: "alive (pthread ex_presence)" "\<not> pstop ex_presence" by (simp_all add: ex_presence_simps)
  from presence_repairs_itself [OF presence_run.refl [of _ _ ex_presence, unfolded ex_presence_def] a [unfolded ex_presence_def]] a
  show ?thesis unfolding ex_presence_def by blast
qed

end
