(* ===== verification/Coordinator.thy ===== *)
theory Coordinator
  imports Coordination Stores
begin

text \<open>
  \<open>coordinator.py\<close>: the snapshot the leader builds, with \<open>kafka_offsets.py\<close>, and one tenure
  of leader-only work, from winning the election to every way out of it.

  The listener, the signal that stops the process and the rest of the deployment act at any time:
  before each look at a flag the next function of \<open>lenv\<close> changes leadership, the stop flag and
  the service's state arbitrarily. The trace records what the tenure saw and did, each look at a
  flag with what it found; no operation reads it.
\<close>

section \<open>Committed offsets\<close>

text \<open>
  \<open>OffsetReader\<close> keeps whether it holds an admin client. \<open>connects\<close> says whether building one
  succeeds, \<open>answer\<close> what the group's offsets are by topic and partition, none when the call raises.
\<close>

definition committed_total ::
    "bool \<Rightarrow> ((string \<times> nat) \<times> int) list option \<Rightarrow> string \<Rightarrow> bool \<Rightarrow> int option \<times> bool" where
  "committed_total connects answer topic admin =
     (if \<not> admin \<and> \<not> connects then (None, False)
      else case answer of
        None \<Rightarrow> (None, False)
      | Some for_group \<Rightarrow>
          (Some (sum_list (map snd (filter (\<lambda>((t, p), offset). t = topic \<and> 0 \<le> offset) for_group))), True))"

section \<open>The snapshot\<close>

text \<open>\<open>cassandra_reachable\<close>: no session, or one whose query returned or raised.\<close>

definition cassandra_reachable :: "bool option \<Rightarrow> bool" where
  "cassandra_reachable session = (session = Some True)"

text \<open>What the stores answer; the two Redis reads raise into the caller, the others do not.\<close>

record snapshot_inputs =
  si_summary :: "(int \<times> (string \<times> int) list) option"
  si_counts :: "(string \<times> int) list option"
  si_queue :: "(int \<times> int) option"
  si_at :: rat
  si_committed :: "int option"
  si_session :: "bool option"
  si_flink :: json

definition opt_int :: "int option \<Rightarrow> json" where
  "opt_int x = (case x of None \<Rightarrow> JNull | Some i \<Rightarrow> JInt i)"

definition build_snapshot :: "snapshot_inputs \<Rightarrow> int \<Rightarrow> json option" where
  "build_snapshot si ep =
     Option.bind (si_summary si) (\<lambda>(completed, runs).
     Option.bind (si_counts si) (\<lambda>counts.
       Some (JObj
         [(''epoch'', JInt ep), (''at'', JFloat (Fin (si_at si))),
          (''pageviews'', JInt (sum_list (map snd counts))), (''pages'', JInt (int (length counts))),
          (''jobs_completed'', JInt completed), (''jobs_distinct'', JInt (int (length runs))),
          (''queue_waiting'', opt_int (map_option fst (si_queue si))),
          (''queue_consumers'', opt_int (map_option snd (si_queue si))),
          (''kafka_committed'', opt_int (si_committed si)),
          (''cassandra_reachable'', JBool (cassandra_reachable (si_session si))),
          (''flink'', si_flink si)])))"

section \<open>A tenure's state\<close>

datatype lead_action =
    Began bool
  | Claimed int
  | ClaimFailed coord_error
  | Acknowledging "coord_error + unit"
  | Looked leadership
  | StopSeen bool
  | Served int
  | Wrote int json "coord_error + unit"
  | PausedFor rat
  | Retired
  | Releasing "coord_error + unit"

record 'w lstate =
  lworld :: 'w
  lleads :: leadership
  lstop :: bool
  lenv :: "(leadership \<times> bool \<times> 'w \<Rightarrow> leadership \<times> bool \<times> 'w) list"
  ltrace :: "lead_action list"

definition ltick :: "'w lstate \<Rightarrow> 'w lstate" where
  "ltick s =
     (case lenv s of
        [] \<Rightarrow> s
      | f # fs \<Rightarrow>
          (let (l, st, w) = f (lleads s, lstop s, lworld s)
           in s\<lparr>lleads := l, lstop := st, lworld := w, lenv := fs\<rparr>))"

definition ldo :: "lead_action \<Rightarrow> 'w lstate \<Rightarrow> 'w lstate" where
  "ldo a s = s\<lparr>ltrace := ltrace s @ [a]\<rparr>"

text \<open>A look at leadership, and whether it may work.\<close>

definition lcheck :: "'w lstate \<Rightarrow> bool \<times> 'w lstate" where
  "lcheck s = (let s1 = ltick s in (may_work (lleads s1), ldo (Looked (lleads s1)) s1))"

text \<open>How a tenure ends; \<open>Leading\<close> and \<open>Claiming\<close> when the script of turns or claims does first.\<close>

datatype lead_end =
    Disconnected | Claiming | LostClaiming | MarkerPresent | LostAcknowledging
  | Leading | Voluntary | TenureVoid | Superseded | SessionOver | LeadRaised "coord_error option"

section \<open>The loop\<close>

definition RECONNECT_PAUSE_SECONDS :: rat where "RECONNECT_PAUSE_SECONDS = 1 / 2"

text \<open>
  One turn: whether the loop goes on, or how it ends. A failure to build the snapshot raises.
\<close>

definition lead_write ::
    "'w kazoo \<Rightarrow> string \<Rightarrow> int \<Rightarrow> rat \<Rightarrow> json \<Rightarrow> 'w lstate \<Rightarrow> lead_end option \<times> 'w lstate" where
  "lead_write zk zroot ep interval payload s =
     (let r = write_snapshot zk zroot ep payload (lworld s);
          s1 = ldo (Wrote ep payload (fst r)) (s\<lparr>lworld := snd r\<rparr>)
      in case fst r of
           Inr _ \<Rightarrow> (None, ldo (PausedFor interval) s1)
         | Inl e \<Rightarrow>
             if e = StaleLeader then (Some Superseded, s1)
             else if e = ZkExn SessionExpiredError then (Some SessionOver, s1)
             else if e = ZkExn ConnectionLoss then (None, ldo (PausedFor RECONNECT_PAUSE_SECONDS) s1)
             else (Some (LeadRaised (Some e)), s1))"

definition lead_turn ::
    "'w kazoo \<Rightarrow> string \<Rightarrow> int \<Rightarrow> rat \<Rightarrow> snapshot_inputs \<Rightarrow> 'w lstate \<Rightarrow> lead_end option \<times> 'w lstate" where
  "lead_turn zk zroot ep interval si s =
     (let u = ltick s; s0 = ldo (StopSeen (lstop u)) u in
      if lstop s0 then (Some Voluntary, s0)
      else let c = lcheck s0 in
        if \<not> fst c then
          (let s1 = snd (lcheck (snd c)) in
           if tenure_void (lleads s1) then (Some TenureVoid, s1) else (None, ldo (PausedFor (1 / 2)) s1))
        else case build_snapshot si ep of
               None \<Rightarrow> (Some (LeadRaised None), snd c)
             | Some payload \<Rightarrow> lead_write zk zroot ep interval payload (snd c))"

fun lead_loop ::
    "'w kazoo \<Rightarrow> string \<Rightarrow> int \<Rightarrow> rat \<Rightarrow> snapshot_inputs list \<Rightarrow> 'w lstate \<Rightarrow> lead_end \<times> 'w lstate" where
  "lead_loop zk zroot ep interval [] s = (Leading, s)"
| "lead_loop zk zroot ep interval (si # rest) s =
     (let r = lead_turn zk zroot ep interval si s in
      case fst r of Some e \<Rightarrow> (e, snd r) | None \<Rightarrow> lead_loop zk zroot ep interval rest (snd r))"

section \<open>The whole tenure\<close>

text \<open>\<open>release_leadership\<close> as the tenure calls it; \<open>between\<close> happens between its read and delete.\<close>

definition lead_release :: "'w kazoo \<Rightarrow> string \<Rightarrow> string \<Rightarrow> int \<Rightarrow> ('w \<Rightarrow> 'w) \<Rightarrow> lead_end \<Rightarrow> 'w lstate \<Rightarrow> lead_end \<times> 'w lstate" where
  "lead_release zk zroot identity ep between e s =
     (let r = release_leadership zk zroot identity (Some ep) between (lworld s);
          s1 = ldo (Releasing (fst r)) (s\<lparr>lworld := snd r\<rparr>)
      in (case fst r of Inr _ \<Rightarrow> e | Inl x \<Rightarrow> LeadRaised (Some x), s1))"

text \<open>The loop in its \<open>try\<close>, and the \<open>finally\<close>: retire first, release after a voluntary end only.\<close>

definition lead_tenure ::
    "'w kazoo \<Rightarrow> string \<Rightarrow> string \<Rightarrow> int \<Rightarrow> rat \<Rightarrow> ('w \<Rightarrow> 'w) \<Rightarrow> snapshot_inputs list \<Rightarrow> 'w lstate \<Rightarrow> lead_end \<times> 'w lstate" where
  "lead_tenure zk zroot identity ep interval between turns s =
     (let r = lead_loop zk zroot ep interval turns (ldo (Served ep) s) in
      if fst r = Leading then r
      else let s1 = ldo Retired (snd r) in
        if fst r = Voluntary then lead_release zk zroot identity ep between Voluntary s1 else (fst r, s1))"

definition lead_acknowledge ::
    "'w kazoo \<Rightarrow> string \<Rightarrow> string \<Rightarrow> string \<Rightarrow> int \<Rightarrow> rat \<Rightarrow> ('w \<Rightarrow> 'w) \<Rightarrow> snapshot_inputs list \<Rightarrow> 'w lstate \<Rightarrow> lead_end \<times> 'w lstate" where
  "lead_acknowledge zk zroot identity since ep interval between turns s =
     (let r = acknowledge_leadership zk zroot identity ep since (lworld s);
          s1 = ldo (Acknowledging (fst r)) (s\<lparr>lworld := snd r\<rparr>)
      in case fst r of
           Inl e \<Rightarrow> (if e = ZkExn NodeExistsError then MarkerPresent else LeadRaised (Some e), s1)
         | Inr _ \<Rightarrow>
             (let c = lcheck s1 in
              if fst c then lead_tenure zk zroot identity ep interval between turns (snd c)
              else lead_release zk zroot identity ep between LostAcknowledging (snd c)))"

definition lead ::
    "'w kazoo \<Rightarrow> string \<Rightarrow> string \<Rightarrow> string \<Rightarrow> rat \<Rightarrow> ('w \<Rightarrow> 'w) list \<Rightarrow> ('w \<Rightarrow> 'w) \<Rightarrow> snapshot_inputs list \<Rightarrow> 'w lstate \<Rightarrow> lead_end \<times> 'w lstate" where
  "lead zk zroot identity since interval claims between turns s =
     (let s0 = ltick s; b = begin_tenure (lleads s0); s1 = ldo (Began (fst b)) (s0\<lparr>lleads := snd b\<rparr>) in
      if \<not> fst b then (Disconnected, s1)
      else case claim_epoch zk zroot claims (lworld s1) of
        None \<Rightarrow> (Claiming, s1)
      | Some (Inl e, w) \<Rightarrow> (LeadRaised (Some e), ldo (ClaimFailed e) (s1\<lparr>lworld := w\<rparr>))
      | Some (Inr ep, w) \<Rightarrow>
          (let c = lcheck (ldo (Claimed ep) (s1\<lparr>lworld := w\<rparr>)) in
           if fst c then lead_acknowledge zk zroot identity since ep interval between turns (snd c)
           else (LostClaiming, snd c)))"

section \<open>The protocol of a tenure\<close>

text \<open>
  What a tenure has reached: each phase names what is to happen next, and \<open>Over\<close> how the tenure
  ended. \<open>lead_next\<close> gives the next phase, none for an event out of order.
\<close>

datatype lead_phase =
    Fresh | MayClaim | HasToken int | MayMark int | Marked int | MustUnmark int | MayServe int
  | Serving int | AtWork int | Unsure int | MayWrite int | Waiting int rat
  | Leaving lead_end | MustRelease | Over lead_end

definition after_release :: "lead_end \<Rightarrow> (coord_error + unit) \<Rightarrow> lead_end" where
  "after_release e r = (case r of Inr _ \<Rightarrow> e | Inl x \<Rightarrow> LeadRaised (Some x))"

definition after_write :: "rat \<Rightarrow> int \<Rightarrow> (coord_error + unit) \<Rightarrow> lead_phase" where
  "after_write interval ep r =
     (case r of
        Inr _ \<Rightarrow> Waiting ep interval
      | Inl e \<Rightarrow>
          if e = StaleLeader then Leaving Superseded
          else if e = ZkExn SessionExpiredError then Leaving SessionOver
          else if e = ZkExn ConnectionLoss then Waiting ep RECONNECT_PAUSE_SECONDS
          else Leaving (LeadRaised (Some e)))"

fun lead_next :: "rat \<Rightarrow> lead_action \<Rightarrow> lead_phase \<Rightarrow> lead_phase option" where
  "lead_next interval a Fresh =
     (case a of Began ok \<Rightarrow> Some (if ok then MayClaim else Over Disconnected) | _ \<Rightarrow> None)"
| "lead_next interval a MayClaim =
     (case a of ClaimFailed e \<Rightarrow> Some (Over (LeadRaised (Some e))) | Claimed ep \<Rightarrow> Some (HasToken ep) | _ \<Rightarrow> None)"
| "lead_next interval a (HasToken ep) =
     (case a of Looked l \<Rightarrow> Some (if may_work l then MayMark ep else Over LostClaiming) | _ \<Rightarrow> None)"
| "lead_next interval a (MayMark ep) =
     (case a of
        Acknowledging r \<Rightarrow> Some (case r of
            Inr _ \<Rightarrow> Marked ep
          | Inl e \<Rightarrow> Over (if e = ZkExn NodeExistsError then MarkerPresent else LeadRaised (Some e)))
      | _ \<Rightarrow> None)"
| "lead_next interval a (Marked ep) =
     (case a of Looked l \<Rightarrow> Some (if may_work l then MayServe ep else MustUnmark ep) | _ \<Rightarrow> None)"
| "lead_next interval a (MustUnmark ep) =
     (case a of Releasing r \<Rightarrow> Some (Over (after_release LostAcknowledging r)) | _ \<Rightarrow> None)"
| "lead_next interval a (MayServe ep) =
     (case a of Served e \<Rightarrow> if e = ep then Some (Serving ep) else None | _ \<Rightarrow> None)"
| "lead_next interval a (Serving ep) =
     (case a of StopSeen stop \<Rightarrow> Some (if stop then Leaving Voluntary else AtWork ep) | _ \<Rightarrow> None)"
| "lead_next interval a (AtWork ep) =
     (case a of Looked l \<Rightarrow> Some (if may_work l then MayWrite ep else Unsure ep) | _ \<Rightarrow> None)"
| "lead_next interval a (Unsure ep) =
     (case a of Looked l \<Rightarrow> Some (if tenure_void l then Leaving TenureVoid else Waiting ep (1 / 2)) | _ \<Rightarrow> None)"
| "lead_next interval a (MayWrite ep) =
     (case a of
        Wrote e payload r \<Rightarrow>
          if e = ep \<and> jget payload ''epoch'' = Some (JInt ep) then Some (after_write interval ep r) else None
      | Retired \<Rightarrow> Some (Over (LeadRaised None))
      | _ \<Rightarrow> None)"
| "lead_next interval a (Waiting ep d') =
     (case a of PausedFor d \<Rightarrow> if d = d' then Some (Serving ep) else None | _ \<Rightarrow> None)"
| "lead_next interval a (Leaving e) =
     (case a of Retired \<Rightarrow> Some (if e = Voluntary then MustRelease else Over e) | _ \<Rightarrow> None)"
| "lead_next interval a MustRelease =
     (case a of Releasing r \<Rightarrow> Some (Over (after_release Voluntary r)) | _ \<Rightarrow> None)"
| "lead_next interval a (Over e) = None"

definition lead_phase_of :: "rat \<Rightarrow> lead_action list \<Rightarrow> lead_phase option" where
  "lead_phase_of interval xs = foldl (\<lambda>ph x. Option.bind ph (lead_next interval x)) (Some Fresh) xs"

text \<open>How a tenure that stopped in a phase ended: elsewhere it may not stop.\<close>

fun lead_outcome :: "lead_phase \<Rightarrow> lead_end option" where
  "lead_outcome MayClaim = Some Claiming"
| "lead_outcome (Serving ep) = Some Leading"
| "lead_outcome (Over e) = Some e"
| "lead_outcome _ = None"

definition ends_as :: "rat \<Rightarrow> lead_action list \<Rightarrow> lead_end \<Rightarrow> bool" where
  "ends_as interval xs e \<longleftrightarrow> Option.bind (lead_phase_of interval xs) lead_outcome = Some e"

abbreviation phase :: "rat \<Rightarrow> 'w lstate \<Rightarrow> lead_phase option" where
  "phase interval s \<equiv> lead_phase_of interval (ltrace s)"

lemma phase_ldo [simp]:
  "lead_phase_of interval (ltrace (ldo a s)) = Option.bind (phase interval s) (lead_next interval a)"
  by (simp add: lead_phase_of_def ldo_def)

lemma phase_snoc: "lead_phase_of interval (xs @ [x]) = Option.bind (lead_phase_of interval xs) (lead_next interval x)"
  by (simp add: lead_phase_of_def)

lemma ltick_trace [simp]: "ltrace (ltick s) = ltrace s"
  by (simp add: ltick_def Let_def split: list.split prod.split)

lemma lcheck_fst: "fst (lcheck s) = may_work (lleads (snd (lcheck s)))"
  by (simp add: lcheck_def Let_def ldo_def)

lemma lcheck_trace [simp]:
  "phase interval (snd (lcheck s)) = Option.bind (phase interval s) (lead_next interval (Looked (lleads (snd (lcheck s)))))"
  by (simp add: lcheck_def Let_def) (simp add: ldo_def)

lemma build_snapshot_epoch: "build_snapshot si ep = Some payload \<Longrightarrow> jget payload ''epoch'' = Some (JInt ep)"
  by (auto simp: build_snapshot_def bind_eq_Some_conv)

lemma lead_write_phase:
  assumes "phase interval s = Some (MayWrite ep)" and "jget payload ''epoch'' = Some (JInt ep)"
    and "lead_write zk zroot ep interval payload s = (r, s')"
  shows "phase interval s' = Some (case r of None \<Rightarrow> Serving ep | Some e \<Rightarrow> Leaving e) \<and> r \<noteq> Some Leading \<and> r \<noteq> Some Voluntary"
  using assms by (auto simp: lead_write_def Let_def after_write_def split: sum.splits if_splits)

text \<open>A turn that ends the loop leaves it for what it saw; a snapshot that cannot be built raises.\<close>

definition leaving :: "lead_end \<Rightarrow> int \<Rightarrow> lead_phase \<Rightarrow> bool" where
  "leaving e ep ph \<longleftrightarrow> ph = Leaving e \<or> e = LeadRaised None \<and> ph = MayWrite ep"

lemma lead_turn_phase:
  assumes "phase interval s = Some (Serving ep)" and "lead_turn zk zroot ep interval si s = (r, s')"
  shows "(case r of
      None \<Rightarrow> phase interval s' = Some (Serving ep)
    | Some e \<Rightarrow> e \<noteq> Leading \<and> (\<exists>ph. phase interval s' = Some ph \<and> leaving e ep ph))"
proof -
  let ?s0 = "ldo (StopSeen (lstop (ltick s))) (ltick s)"
  let ?c = "lcheck ?s0"
  have stop: "lstop ?s0 = lstop (ltick s)" by (simp add: ldo_def)
  have s0: "phase interval ?s0 = Some (if lstop (ltick s) then Leaving Voluntary else AtWork ep)" using assms(1) by simp
  show ?thesis
  proof (cases "lstop (ltick s) \<or> \<not> fst ?c \<or> build_snapshot si ep = None")
    case True
    with assms(2) s0 stop show ?thesis
      by (auto simp: lead_turn_def Let_def lcheck_fst leaving_def split: if_splits)
  next
    case False
    then obtain payload where p: "build_snapshot si ep = Some payload" by blast
    have c: "phase interval (snd ?c) = Some (MayWrite ep)" using False s0 by (auto simp: lcheck_fst)
    have "lead_write zk zroot ep interval payload (snd ?c) = (r, s')"
      using False p assms(2) stop by (auto simp: lead_turn_def Let_def)
    from lead_write_phase [OF c build_snapshot_epoch [OF p] this] show ?thesis
      by (auto simp: leaving_def split: option.split)
  qed
qed

lemma lead_loop_phase:
  assumes "phase interval s = Some (Serving ep)" and "lead_loop zk zroot ep interval turns s = (e, s')"
  shows "if e = Leading then phase interval s' = Some (Serving ep)
    else \<exists>ph. phase interval s' = Some ph \<and> leaving e ep ph"
  using assms
proof (induction turns arbitrary: s)
  case (Cons si turns)
  obtain r s1 where t: "lead_turn zk zroot ep interval si s = (r, s1)" by fastforce
  from lead_turn_phase [OF Cons.prems(1) t] Cons.prems(2) Cons.IH [of s1] t show ?case
    by (cases r) (auto simp: Let_def)
qed simp

lemma lead_tenure_ends:
  assumes "phase interval s = Some (MayServe ep)" and "lead_tenure zk zroot identity ep interval between turns s = (e, s')"
  shows "ends_as interval (ltrace s') e"
proof -
  obtain e1 v where l: "lead_loop zk zroot ep interval turns (ldo (Served ep) s) = (e1, v)" by fastforce
  have "phase interval (ldo (Served ep) s) = Some (Serving ep)" using assms(1) by simp
  from lead_loop_phase [OF this l] assms(2) l show ?thesis
    by (auto simp: ends_as_def lead_tenure_def Let_def lead_release_def leaving_def after_release_def
        split: if_splits sum.splits)
qed

lemma lead_acknowledge_ends:
  assumes "phase interval s = Some (MayMark ep)"
    and "lead_acknowledge zk zroot identity since ep interval between turns s = (e, s')"
  shows "ends_as interval (ltrace s') e"
proof -
  obtain ra wa where a: "acknowledge_leadership zk zroot identity ep since (lworld s) = (ra, wa)" by fastforce
  let ?s1 = "ldo (Acknowledging ra) (s\<lparr>lworld := wa\<rparr>)"
  show ?thesis
  proof (cases ra)
    case (Inl x)
    with assms a show ?thesis by (auto simp: ends_as_def lead_acknowledge_def Let_def)
  next
    case (Inr x)
    have "phase interval (snd (lcheck ?s1)) = Some (if fst (lcheck ?s1) then MayServe ep else MustUnmark ep)"
      using assms(1) Inr by (simp add: lcheck_fst)
    with lead_tenure_ends [of interval "snd (lcheck ?s1)" ep zk zroot identity between turns e s'] assms(2) a Inr
    show ?thesis
      by (auto simp: ends_as_def lead_acknowledge_def Let_def lead_release_def after_release_def split: if_splits sum.splits)
  qed
qed

text \<open>Every trace of a tenure is one of the protocol, up to the way the tenure ended.\<close>

lemma lead_ends:
  assumes "lead zk zroot identity since interval claims between turns s = (e, s')" and "ltrace s = []"
  shows "ends_as interval (ltrace s') e"
proof -
  let ?b = "begin_tenure (lleads (ltick s))"
  let ?s1 = "ldo (Began (fst ?b)) ((ltick s)\<lparr>lleads := snd ?b\<rparr>)"
  have "phase interval (s\<lparr>ltrace := []\<rparr>) = Some Fresh" by (simp add: lead_phase_of_def)
  then have s1: "phase interval (?s1\<lparr>lworld := w\<rparr>) = Some (if fst ?b then MayClaim else Over Disconnected)" for w
    using assms(2) by (simp add: ldo_def lead_phase_of_def)
  show ?thesis
  proof (cases "\<exists>ep w. fst ?b \<and> claim_epoch zk zroot claims (lworld ?s1) = Some (Inr ep, w)")
    case True
    then obtain ep w where c: "fst ?b" "claim_epoch zk zroot claims (lworld ?s1) = Some (Inr ep, w)" by blast
    let ?c = "lcheck (ldo (Claimed ep) (?s1\<lparr>lworld := w\<rparr>))"
    have ph: "phase interval (snd ?c) = Some (if fst ?c then MayMark ep else Over LostClaiming)"
      using s1 [of w] c(1) by (simp add: lcheck_fst)
    show ?thesis
    proof (cases "fst ?c")
      case True
      with ph assms(1) c lead_acknowledge_ends [of interval "snd ?c" ep zk zroot identity since between turns e s']
      show ?thesis by (simp add: lead_def Let_def)
    next
      case False
      with ph assms(1) c show ?thesis by (auto simp: lead_def Let_def ends_as_def)
    qed
  next
    case False
    with assms(1) s1 s1 [of "lworld ?s1"] show ?thesis
      by (auto simp: lead_def Let_def ends_as_def split: if_splits option.splits prod.splits sum.splits)
  qed
qed

text \<open>The marker is released last, after seeing the stop flag or having lost leadership while marking.\<close>

definition unreleased :: "lead_phase \<Rightarrow> lead_action list \<Rightarrow> bool" where
  "unreleased ph xs \<longleftrightarrow> (\<forall>r. Releasing r \<notin> set xs)
     \<and> (ph = Leaving Voluntary \<or> ph = MustRelease \<longrightarrow> StopSeen True \<in> set xs) \<and> (ph = MustRelease \<longrightarrow> Retired \<in> set xs)
     \<and> ((\<forall>e. ph \<noteq> Over e) \<and> ph \<noteq> MustRelease \<longrightarrow> Retired \<notin> set xs)"

lemma unreleased_step:
  assumes "unreleased ph xs" and "lead_next interval x ph = Some ph'"
  shows "unreleased ph' (xs @ [x]) \<or> (\<exists>r. x = Releasing r \<and>
    (ph' = Over (after_release Voluntary r) \<and> StopSeen True \<in> set xs \<and> Retired \<in> set xs
     \<or> ph' = Over (after_release LostAcknowledging r) \<and> Retired \<notin> set xs))"
  using assms
  by (cases ph) (auto simp: unreleased_def after_write_def split: lead_action.splits sum.splits if_splits)

lemma release_is_last:
  assumes "lead_phase_of interval xs = Some ph"
  shows "unreleased ph xs \<or> (\<exists>r ys. xs = ys @ [Releasing r] \<and> (\<forall>q. Releasing q \<notin> set ys) \<and>
    (ph = Over (after_release Voluntary r) \<and> StopSeen True \<in> set xs \<and> Retired \<in> set xs
     \<or> ph = Over (after_release LostAcknowledging r) \<and> Retired \<notin> set xs))"
  using assms
proof (induction xs arbitrary: ph rule: rev_induct)
  case Nil
  then show ?case by (auto simp: unreleased_def lead_phase_of_def)
next
  case (snoc x xs)
  then obtain p where p: "lead_phase_of interval xs = Some p" "lead_next interval x p = Some ph"
    by (auto simp: phase_snoc bind_eq_Some_conv)
  then have "unreleased p xs" using snoc.IH [OF p(1)] by auto
  from unreleased_step [OF this p(2)] this show ?case by (auto simp: unreleased_def)
qed

section \<open>Properties\<close>

text \<open>
  C4: A tenure keeps its protocol whatever happens around it, up to the way it ended. It marks
  itself leader and serves only right after a look that found leadership good, writes a snapshot
  only under its own token, which the snapshot carries, and right after such a look; every end of
  the loop is the one its last look or write calls for, and retires the keeper's work first. The
  marker is released only after the process was told to stop and the work retired, or when leadership
  was lost while marking, before anything was served; the tenure ends with that, and raises only
  if the release did.
\<close>

theorem lead_keeps_protocol:
  assumes "lead zk zroot identity since interval claims between turns s = (e, s')" and "ltrace s = []"
  shows "ends_as interval (ltrace s') e
    \<and> (\<forall>r. Releasing r \<in> set (ltrace s') \<longrightarrow>
         e = after_release Voluntary r \<and> StopSeen True \<in> set (ltrace s') \<and> Retired \<in> set (ltrace s')
         \<or> e = after_release LostAcknowledging r \<and> Retired \<notin> set (ltrace s'))"
proof -
  have "ends_as interval (ltrace s') e" by (rule lead_ends [OF assms])
  moreover from this obtain ph where ph: "lead_phase_of interval (ltrace s') = Some ph" "lead_outcome ph = Some e"
    by (auto simp: ends_as_def bind_eq_Some_conv)
  ultimately show ?thesis using release_is_last [OF ph(1)] ph(2) by (auto simp: unreleased_def)
qed

text \<open>
  A superseded leader steps down at its next write: under a token the epoch has passed, the
  turn changes nothing in the tree and ends the tenure, whatever the snapshot holds.
\<close>

theorem superseded_leader_steps_down:
  assumes "zookeeper zk tree live" and "live (lworld s)" and "lenv s = []" and "\<not> lstop s" and "may_work (lleads s)"
    and "tree (lworld s) (epoch_path zroot) = Some n" and "zversion n \<noteq> ep" and "tree (lworld s) (snapshot_path zroot) \<noteq> None"
    and "build_snapshot si ep \<noteq> None" and "lead_turn zk zroot ep interval si s = (r, s')"
  shows "r = Some Superseded \<and> tree (lworld s') = tree (lworld s)"
proof -
  obtain payload where p: "build_snapshot si ep = Some payload" using assms(9) by blast
  obtain d where d: "tree (lworld s) (snapshot_path zroot) = Some d" using assms(8) by blast
  obtain ra w where wr: "write_snapshot zk zroot ep payload (lworld s) = (ra, w)" by fastforce
  from zookeeper.write_snapshot_outcome [OF assms(1,2,6) d wr] assms(7)
  have "ra = Inl StaleLeader" "tree w = tree (lworld s)" by simp_all
  with assms(3-5,10) p wr show ?thesis
    by (auto simp: lead_turn_def lcheck_def ltick_def ldo_def lead_write_def Let_def)
qed

section \<open>Witnesses\<close>

definition ex_inputs :: snapshot_inputs where
  "ex_inputs = \<lparr>si_summary = Some (3, [(''e1'', 3)]), si_counts = Some [(''/docs'', 2)], si_queue = None, si_at = 7,
     si_committed = Some 4, si_session = Some True, si_flink = JNull\<rparr>"

definition ex_lstate :: "tree_world lstate" where
  "ex_lstate = \<lparr>lworld = ex_world, lleads = new_leadership, lstop = False, lenv = [], ltrace = []\<rparr>"

text \<open>The service without the old marker: the tenure serves and writes until it is told to stop.\<close>

definition ex_free :: "tree_world lstate" where
  "ex_free = ex_lstate\<lparr>lworld := ex_world\<lparr>wnodes := (wnodes ex_world)(leader_path ''/p'' := None)\<rparr>,
     lenv := [id, id, id, id, id, (\<lambda>(l, st, w). (l, True, w))]\<rparr>"

theorem lead_keeps_protocol_witness:
  "\<exists>s'. lead tree_client ''/p'' ''c1'' ''t'' 2 [] id [ex_inputs, ex_inputs] ex_free = (Voluntary, s')
     \<and> ends_as 2 (ltrace s') Voluntary \<and> Releasing (Inr ()) \<in> set (ltrace s')
     \<and> StopSeen True \<in> set (ltrace s') \<and> Retired \<in> set (ltrace s')"
proof -
  let ?run = "lead tree_client ''/p'' ''c1'' ''t'' 2 [] id [ex_inputs, ex_inputs] ex_free"
  have "fst ?run = Voluntary" by code_simp
  then obtain s' where l: "?run = (Voluntary, s')" by (metis prod.collapse)
  have "Releasing (Inr ()) \<in> set (ltrace (snd ?run))" by code_simp
  then have r: "Releasing (Inr ()) \<in> set (ltrace s')" unfolding l by simp
  have "ltrace ex_free = []" by (simp add: ex_free_def ex_lstate_def)
  from lead_keeps_protocol [OF l this] l r show ?thesis by (auto simp: after_release_def)
qed

theorem superseded_leader_steps_down_witness:
  "fst (lead_turn tree_client ''/p'' 0 2 ex_inputs ex_lstate) = Some Superseded"
proof -
  obtain r s' where t: "lead_turn tree_client ''/p'' 0 2 ex_inputs ex_lstate = (r, s')" by fastforce
  have v: "zversion (ex_node (JInt 1) 1) \<noteq> 0" by (simp add: ex_node_def)
  have p: "build_snapshot ex_inputs 0 \<noteq> None" by (simp add: build_snapshot_def ex_inputs_def)
  have "r = Some Superseded \<and> wnodes (lworld s') = wnodes (lworld ex_lstate)"
    by (rule superseded_leader_steps_down [OF ref_tree.zookeeper_axioms _ _ _ _ _ v _ p t])
      (simp_all add: ex_lstate_def new_leadership_def may_work_def)
  with t show ?thesis by simp
qed

end
