(* ===== verification/Election.thy ===== *)
theory Election
  imports Coordinator
begin

text \<open>
  The end of \<open>coordinator.py\<close>: the loop in which a coordinator contends for leadership, leads, and
  contends again. kazoo's \<open>Election\<close> is a parameter: it runs \<open>lead\<close> when the lock is ours, and may
  be interrupted or raise while it waits.
\<close>

section \<open>The loop\<close>

text \<open>
  What one round meets: how waiting for the lock ends, the interference during the tenure and its
  claim, and the turns of the tenure.
\<close>

datatype lock_wait = Elected | WaitInterrupted | WaitRaised coord_error

record 'w election_round =
  round_wait :: lock_wait
  round_env :: "(leadership \<times> bool \<times> 'w \<Rightarrow> leadership \<times> bool \<times> 'w) list"
  round_since :: string
  round_claims :: "('w \<Rightarrow> 'w) list"
  round_between :: "'w \<Rightarrow> 'w"
  round_turns :: "snapshot_inputs list"

text \<open>\<open>Contending\<close> when the rounds are used up, or a tenure's own script ends first.\<close>

datatype contend_end = Contending | StopRequested | ContendInterrupted | ContendRaised "coord_error option"

text \<open>How the process ends, the traces of its tenures in order, and what it leaves.\<close>

fun contend ::
    "'w kazoo \<Rightarrow> string \<Rightarrow> string \<Rightarrow> rat \<Rightarrow> 'w election_round list \<Rightarrow> 'w lstate
      \<Rightarrow> contend_end \<times> lead_action list list \<times> 'w lstate" where
  "contend zk zroot identity interval [] s = (Contending, [], s)"
| "contend zk zroot identity interval (r # rs) s =
     (let s0 = ltick (s\<lparr>lenv := round_env r, ltrace := []\<rparr>) in
      if lstop s0 then (StopRequested, [], s0)
      else case round_wait r of
        WaitInterrupted \<Rightarrow> (ContendInterrupted, [], s0)
      | WaitRaised x \<Rightarrow> (ContendRaised (Some x), [], s0)
      | Elected \<Rightarrow>
        (case lead zk zroot identity (round_since r) interval (round_claims r) (round_between r) (round_turns r) s0 of
        (e, s1) \<Rightarrow>
          (case e of
             LeadRaised x \<Rightarrow> (ContendRaised x, [ltrace s1], s1)
           | Leading \<Rightarrow> (Contending, [ltrace s1], s1)
           | Claiming \<Rightarrow> (Contending, [ltrace s1], s1)
           | _ \<Rightarrow>
               (let s2 = ltick s1 in
                if lstop s2 then (StopRequested, [ltrace s1], s2)
                else case contend zk zroot identity interval rs s2 of
                  (how, ts, s') \<Rightarrow> (how, ltrace s1 # ts, s')))))"

section \<open>Tokens\<close>

fun token_of :: "lead_action \<Rightarrow> int option" where
  "token_of (Claimed ep) = Some ep"
| "token_of _ = None"

definition tokens :: "lead_action list \<Rightarrow> int list" where
  "tokens tr = List.map_filter token_of tr"

lemma tokens_ldo [simp]:
  "tokens (ltrace (ldo a s)) = tokens (ltrace s) @ (case token_of a of Some t \<Rightarrow> [t] | None \<Rightarrow> [])"
  by (simp add: tokens_def ldo_def List.map_filter_def split: option.splits)

text \<open>
  Interference that keeps the service answering, its epoch a number, and never turns it back:
  what the other processes' writes do, by \<open>steps_epoch_monotonic\<close>.
\<close>

definition calm :: "('w \<Rightarrow> ztree) \<Rightarrow> ('w \<Rightarrow> bool) \<Rightarrow> string \<Rightarrow> ('w \<Rightarrow> 'w) \<Rightarrow> bool" where
  "calm tree live zroot f \<longleftrightarrow> (\<forall>w. epoch_ok tree live zroot w \<longrightarrow>
     epoch_ok tree live zroot (f w) \<and> epoch_version tree zroot w \<le> epoch_version tree zroot (f w))"

definition calm_env ::
    "('w \<Rightarrow> ztree) \<Rightarrow> ('w \<Rightarrow> bool) \<Rightarrow> string \<Rightarrow> (leadership \<times> bool \<times> 'w \<Rightarrow> leadership \<times> bool \<times> 'w) list \<Rightarrow> bool" where
  "calm_env tree live zroot env \<longleftrightarrow> (\<forall>f \<in> set env. \<forall>l st. calm tree live zroot (\<lambda>w. snd (snd (f (l, st, w)))))"

definition calm_round :: "('w \<Rightarrow> ztree) \<Rightarrow> ('w \<Rightarrow> bool) \<Rightarrow> string \<Rightarrow> 'w election_round \<Rightarrow> bool" where
  "calm_round tree live zroot r \<longleftrightarrow> calm_env tree live zroot (round_env r) \<and> calm tree live zroot (round_between r)
     \<and> (\<forall>f \<in> set (round_claims r). calm tree live zroot f)"

text \<open>A state of a tenure: the epoch is at least \<open>v\<close>, and the tokens claimed so far are \<open>ts\<close>.\<close>

definition tenure_ok ::
    "('w \<Rightarrow> ztree) \<Rightarrow> ('w \<Rightarrow> bool) \<Rightarrow> string \<Rightarrow> int \<Rightarrow> int list \<Rightarrow> 'w lstate \<Rightarrow> bool" where
  "tenure_ok tree live zroot v ts s \<longleftrightarrow> epoch_ok tree live zroot (lworld s) \<and> v \<le> epoch_version tree zroot (lworld s)
     \<and> calm_env tree live zroot (lenv s) \<and> tokens (ltrace s) = ts"

lemma tenure_ok_ltick [simp]: "tenure_ok tree live zroot v ts s \<Longrightarrow> tenure_ok tree live zroot v ts (ltick s)"
proof (cases "lenv s")
  case (Cons f fs)
  assume ok: "tenure_ok tree live zroot v ts s"
  obtain l st w where f: "f (lleads s, lstop s, lworld s) = (l, st, w)" by (cases "f (lleads s, lstop s, lworld s)")
  have "calm tree live zroot (\<lambda>w. snd (snd (f (lleads s, lstop s, w))))" "calm_env tree live zroot fs"
    using ok Cons by (simp_all add: tenure_ok_def calm_env_def)
  with ok f Cons show ?thesis by (fastforce simp: tenure_ok_def ltick_def calm_def)
qed (simp add: ltick_def)

lemma tenure_ok_ldo [simp]:
  "token_of a = None \<Longrightarrow> tenure_ok tree live zroot v ts (ldo a s) \<longleftrightarrow> tenure_ok tree live zroot v ts s"
  by (simp add: tenure_ok_def) (simp add: ldo_def)

lemma tenure_ok_lcheck: "tenure_ok tree live zroot v ts s \<Longrightarrow> tenure_ok tree live zroot v ts (snd (lcheck s))"
  by (simp add: lcheck_def Let_def)

context zookeeper
begin

lemma tenure_ok_step:
  assumes "tenure_ok tree live zroot v ts s" and "service_step zk zroot (lworld s) w"
  shows "tenure_ok tree live zroot v ts (s\<lparr>lworld := w\<rparr>)"
  using assms step_epoch_or_quiet [OF assms(2)] by (auto simp: tenure_ok_def)

lemma tenure_ok_release:
  assumes "tenure_ok tree live zroot v ts s" and "calm tree live zroot between"
  shows "tenure_ok tree live zroot v ts (snd (lead_release zk zroot identity ep between e s))"
proof -
  obtain r w where r: "release_leadership zk zroot identity (Some ep) between (lworld s) = (r, w)" by fastforce
  have env: "tenure_ok tree live zroot v ts (s\<lparr>lworld := between (lworld s)\<rparr>)"
    using assms by (auto simp: tenure_ok_def calm_def)
  have "w = lworld s \<or> (\<exists>ver res. zdelete zk (between (lworld s)) (leader_path zroot) (Some ver) = (res, w))"
    using r by (auto simp: release_leadership_def split: sum.splits prod.splits if_splits)
  then have "tenure_ok tree live zroot v ts (s\<lparr>lworld := w\<rparr>)"
    using assms(1) tenure_ok_step [OF env, of w] by (auto dest: service_step.marker_delete)
  then show ?thesis by (simp add: lead_release_def r Let_def)
qed

lemma tenure_ok_turn:
  assumes "tenure_ok tree live zroot v ts s"
  shows "tenure_ok tree live zroot v ts (snd (lead_turn zk zroot ep interval si s))"
proof -
  have wrote: "tenure_ok tree live zroot v ts (snd (lead_write zk zroot ep interval payload u))"
    if "tenure_ok tree live zroot v ts u" "build_snapshot si ep = Some payload" for u payload
  proof -
    obtain r w where r: "write_snapshot zk zroot ep payload (lworld u) = (r, w)" by fastforce
    from service_step.snapshot_write [OF r build_snapshot_epoch [OF that(2)]] tenure_ok_step [OF that(1)]
    have "tenure_ok tree live zroot v ts (u\<lparr>lworld := w\<rparr>)" by blast
    then show ?thesis by (simp add: lead_write_def r Let_def split: sum.splits)
  qed
  from assms show ?thesis
    by (simp add: lead_turn_def Let_def tenure_ok_lcheck wrote split: option.splits)
qed

lemma tenure_ok_loop:
  "tenure_ok tree live zroot v ts s \<Longrightarrow> tenure_ok tree live zroot v ts (snd (lead_loop zk zroot ep interval turns s))"
  by (induction turns arbitrary: s) (auto simp: Let_def tenure_ok_turn split: option.splits)

lemma tenure_ok_tenure:
  assumes "tenure_ok tree live zroot v ts s" and "calm tree live zroot between"
  shows "tenure_ok tree live zroot v ts (snd (lead_tenure zk zroot identity ep interval between turns s))"
  using tenure_ok_loop [of zroot v ts "ldo (Served ep) s" ep interval turns] assms
  by (simp add: lead_tenure_def Let_def tenure_ok_release)

lemma tenure_ok_acknowledge:
  assumes "tenure_ok tree live zroot v ts s" and "calm tree live zroot between"
  shows "tenure_ok tree live zroot v ts (snd (lead_acknowledge zk zroot identity since ep interval between turns s))"
proof -
  obtain r w where r: "acknowledge_leadership zk zroot identity ep since (lworld s) = (r, w)" by fastforce
  have "tenure_ok tree live zroot v ts (s\<lparr>lworld := w\<rparr>)"
    using tenure_ok_step [OF assms(1)] service_step.marker_create [OF r] by blast
  then show ?thesis
    using assms(2)
    by (simp add: lead_acknowledge_def r Let_def tenure_ok_tenure tenure_ok_release tenure_ok_lcheck split: sum.splits)
qed

text \<open>A tenure claims at most one token, and one the epoch had not reached before it.\<close>

lemma lead_tokens:
  assumes "tenure_ok tree live zroot v [] s" and "calm tree live zroot between" and "\<forall>f \<in> set claims. calm tree live zroot f"
    and "lead zk zroot identity since interval claims between turns s = (e, s')"
  shows "tenure_ok tree live zroot v [] s' \<or> (\<exists>t. v < t \<and> tenure_ok tree live zroot t [t] s')"
proof -
  define s1 where "s1 = ldo (Began (fst (begin_tenure (lleads (ltick s)))))
    ((ltick s)\<lparr>lleads := snd (begin_tenure (lleads (ltick s)))\<rparr>)"
  have ok: "tenure_ok tree live zroot v [] s1"
    using tenure_ok_ltick [OF assms(1)] by (simp add: s1_def) (simp add: tenure_ok_def)
  show ?thesis
  proof (cases "fst (begin_tenure (lleads (ltick s)))")
    case False
    then show ?thesis using ok assms(4) by (auto simp: lead_def Let_def s1_def)
  next
    case True
    obtain t w where c: "claim_epoch zk zroot claims (lworld s1) = Some (Inr t, w)" and w: "epoch_ok tree live zroot w"
        "epoch_version tree zroot w = t" "epoch_version tree zroot (lworld s1) < t"
      using claim_epoch_correct [of zroot "lworld s1" claims] ok assms(3) by (auto simp: tenure_ok_def calm_def)
    let ?c = "lcheck (ldo (Claimed t) (s1\<lparr>lworld := w\<rparr>))"
    have "tenure_ok tree live zroot t [t] (ldo (Claimed t) (s1\<lparr>lworld := w\<rparr>))"
      using ok w by (simp add: tenure_ok_def) (simp add: ldo_def)
    then have c_ok: "tenure_ok tree live zroot t [t] (snd ?c)" by (rule tenure_ok_lcheck)
    have "v < t" using ok w(3) by (simp add: tenure_ok_def)
    moreover have "(e, s') = (if fst ?c then lead_acknowledge zk zroot identity since t interval between turns (snd ?c)
        else (LostClaiming, snd ?c))"
      using assms(4) True c by (auto simp: lead_def Let_def s1_def split: if_splits)
    then have "tenure_ok tree live zroot t [t] s'"
      using c_ok tenure_ok_acknowledge [OF c_ok assms(2)] by (metis snd_conv)
    ultimately show ?thesis by blast
  qed
qed

text \<open>The whole loop: each round's tokens exceed every earlier one.\<close>

lemma contend_tokens:
  assumes "contend zk zroot identity interval rounds s = (how, tenures, s')" and "epoch_ok tree live zroot (lworld s)"
    and "\<forall>r \<in> set rounds. calm_round tree live zroot r"
  shows "sorted_wrt (<) (epoch_version tree zroot (lworld s) # concat (map tokens tenures))"
  using assms
proof (induction rounds arbitrary: s how tenures s')
  case (Cons r rs)
  let ?v = "epoch_version tree zroot (lworld s)" and ?s = "s\<lparr>lenv := round_env r, ltrace := []\<rparr>"
  have calm: "calm_env tree live zroot (round_env r)" "calm tree live zroot (round_between r)"
    "\<forall>f \<in> set (round_claims r). calm tree live zroot f" using Cons.prems(3) by (simp_all add: calm_round_def)
  have "tenure_ok tree live zroot ?v [] ?s"
    using Cons.prems(2) calm(1) by (simp add: tenure_ok_def tokens_def List.map_filter_def)
  then have s0: "tenure_ok tree live zroot ?v [] (ltick ?s)" by (rule tenure_ok_ltick)
  obtain e s1 where l: "lead zk zroot identity (round_since r) interval (round_claims r) (round_between r)
      (round_turns r) (ltick ?s) = (e, s1)" by fastforce
  from lead_tokens [OF s0 calm(2,3) l] obtain u ts where ts: "tenure_ok tree live zroot u ts s1" "?v \<le> u"
    "ts = [] \<or> ts = [u] \<and> ?v < u" by (metis order_refl less_imp_le)
  then have s1: "tokens (ltrace s1) = ts" "epoch_ok tree live zroot (lworld (ltick s1))"
    "u \<le> epoch_version tree zroot (lworld (ltick s1))"
    using tenure_ok_ltick [OF ts(1)] by (simp_all add: tenure_ok_def)
  have "tenures = [] \<or> tenures = [ltrace s1] \<or> (\<exists>how' rest s''. tenures = ltrace s1 # rest
      \<and> contend zk zroot identity interval rs (ltick s1) = (how', rest, s''))"
    using Cons.prems(1) l by (auto simp: Let_def split: if_splits lock_wait.splits lead_end.splits prod.splits)
  then show ?case
  proof (elim disjE exE conjE)
    fix how' rest s''
    assume t: "tenures = ltrace s1 # rest" and "contend zk zroot identity interval rs (ltick s1) = (how', rest, s'')"
    from Cons.IH [OF this(2) s1(2)] Cons.prems(3) s1(3)
    have "sorted_wrt (<) (concat (map tokens rest))" "\<forall>t \<in> set (concat (map tokens rest)). u < t" by force+
    then show ?thesis using ts(2,3) s1(1) t by (auto intro: le_less_trans less_trans)
  qed (use ts s1 in auto)
qed simp

end

text \<open>
  Why the loop was left: the stop flag was up; waiting for the lock in the round after the last
  tenure was interrupted or raised; the last tenure raised; or the script was over, every round
  used or the last tenure still claiming or leading.
\<close>

fun left_because ::
    "rat \<Rightarrow> 'w election_round list \<Rightarrow> lead_action list list \<Rightarrow> 'w lstate \<Rightarrow> contend_end \<Rightarrow> bool" where
  "left_because interval rounds tenures s' StopRequested = lstop s'"
| "left_because interval rounds tenures s' ContendInterrupted =
     (length tenures < length rounds \<and> round_wait (rounds ! length tenures) = WaitInterrupted)"
| "left_because interval rounds tenures s' (ContendRaised x) =
     ((\<exists>y. x = Some y \<and> length tenures < length rounds \<and> round_wait (rounds ! length tenures) = WaitRaised y)
      \<or> tenures \<noteq> [] \<and> ends_as interval (last tenures) (LeadRaised x))"
| "left_because interval rounds tenures s' Contending =
     (length tenures = length rounds
      \<or> tenures \<noteq> [] \<and> (ends_as interval (last tenures) Leading \<or> ends_as interval (last tenures) Claiming))"

text \<open>A tenure after which the loop goes on, unless it was told to stop.\<close>

definition goes_on :: "rat \<Rightarrow> lead_action list \<Rightarrow> bool" where
  "goes_on interval tr \<longleftrightarrow> (\<exists>e. ends_as interval tr e \<and> e \<noteq> Leading \<and> e \<noteq> Claiming \<and> (\<forall>x. e \<noteq> LeadRaised x))"

lemma left_because_Cons:
  assumes "left_because interval rs ts s' how"
  shows "left_because interval (r # rs) (t # ts) s' how"
  using assms by (cases how) auto

lemma ends_as_unique: "ends_as interval xs e \<Longrightarrow> ends_as interval xs e' \<Longrightarrow> e = e'"
  by (simp add: ends_as_def)

lemma contend_ends:
  assumes "contend zk zroot identity interval rounds s = (how, tenures, s')"
  shows "left_because interval rounds tenures s' how
    \<and> list_all (goes_on interval) (butlast tenures) \<and> (\<forall>tr \<in> set tenures. \<exists>e. ends_as interval tr e)
    \<and> length tenures \<le> length rounds \<and> (\<forall>i < length tenures. round_wait (rounds ! i) = Elected)"
  using assms
proof (induction rounds arbitrary: s how tenures s')
  case (Cons r rs)
  let ?s = "ltick (s\<lparr>lenv := round_env r, ltrace := []\<rparr>)"
  obtain e s1 where l: "lead zk zroot identity (round_since r) interval (round_claims r) (round_between r) (round_turns r) ?s = (e, s1)"
    by fastforce
  have e: "ends_as interval (ltrace s1) e" using lead_ends [OF l] by simp
  show ?case
  proof (cases "\<not> lstop ?s \<and> round_wait r = Elected \<and> goes_on interval (ltrace s1) \<and> \<not> lstop (ltick s1)")
    case True
    then have ne: "e \<noteq> Leading" "e \<noteq> Claiming" "\<And>x. e \<noteq> LeadRaised x"
      using e by (auto simp: goes_on_def dest: ends_as_unique)
    obtain ts u where rest: "contend zk zroot identity interval rs (ltick s1) = (how, ts, u)" "tenures = ltrace s1 # ts" "s' = u"
      using Cons.prems l True ne by (cases e) (auto simp: Let_def split: prod.splits)
    from Cons.IH [OF rest(1)] rest(2,3) e True show ?thesis
      by (auto simp: left_because_Cons less_Suc_eq_0_disj nth_Cons split: nat.splits)
  next
    case False
    with Cons.prems l e show ?thesis
      by (auto simp: Let_def goes_on_def less_Suc_eq_0_disj split: if_splits lock_wait.splits lead_end.splits prod.splits)
  qed
qed simp

section \<open>Properties\<close>

text \<open>
  C14: A coordinator that leads, loses leadership and contends again, any number of times, never uses
  a token twice: each tenure claims at most one, larger than all of its earlier ones and than the
  epoch it started from, whatever other processes write meanwhile, as long as the service answers
  and they do not turn its epoch back. And the loop goes on after every tenure that did not raise,
  one tenure for each round it was elected in: it is left only when the stop flag is up, waiting
  for the lock was interrupted or raised, or the last tenure raised. Every tenure keeps its
  protocol. \<open>Contending\<close> means that the script of rounds, or of the last tenure, is over.
\<close>

theorem tenures_never_share_a_token:
  assumes "zookeeper zk tree live" and "epoch_ok tree live zroot (lworld s)"
    and "\<forall>r \<in> set rounds. calm_round tree live zroot r"
    and "contend zk zroot identity interval rounds s = (how, tenures, s')"
  shows "sorted_wrt (<) (epoch_version tree zroot (lworld s) # concat (map tokens tenures))
    \<and> left_because interval rounds tenures s' how
    \<and> list_all (goes_on interval) (butlast tenures) \<and> (\<forall>tr \<in> set tenures. \<exists>e. ends_as interval tr e)
    \<and> length tenures \<le> length rounds \<and> (\<forall>i < length tenures. round_wait (rounds ! i) = Elected)"
  using zookeeper.contend_tokens [OF assms(1,4,2,3)] contend_ends [OF assms(4)] by blast

definition ex_round :: "(leadership \<times> bool \<times> tree_world \<Rightarrow> leadership \<times> bool \<times> tree_world) list \<Rightarrow> tree_world election_round" where
  "ex_round env = \<lparr>round_wait = Elected, round_env = env, round_since = ''t'', round_claims = [], round_between = id,
     round_turns = [ex_inputs, ex_inputs]\<rparr>"

text \<open>
  The first tenure is told that its session is gone and ends, its marker still there; the second
  claims again and stands down before the marker; then the process is told to stop.
\<close>

definition ex_rounds :: "tree_world election_round list" where
  "ex_rounds = [ex_round [id, id, id, id, id, (\<lambda>(l, st, w). (on_state l LOST, st, w)), id, (\<lambda>(l, st, w). (on_state l CONNECTED, st, w))],
     ex_round [id, id, id, (\<lambda>(l, st, w). (l, True, w))]]"

lemma ex_free_epoch: "epoch_ok wnodes wconnected ''/p'' (lworld ex_free)" "epoch_version wnodes ''/p'' (lworld ex_free) = 1"
proof -
  have "epoch_path ''/p'' \<noteq> leader_path ''/p''" by (simp add: path_defs)
  then show "epoch_ok wnodes wconnected ''/p'' (lworld ex_free)" "epoch_version wnodes ''/p'' (lworld ex_free) = 1"
    by (simp_all add: ex_free_def ex_lstate_def epoch_ok_def epoch_version_def) (simp_all add: ex_node_def)
qed

theorem tenures_never_share_a_token_witness:
  "\<exists>tenures s'. contend tree_client ''/p'' ''c1'' 2 ex_rounds ex_free = (StopRequested, tenures, s')
     \<and> map tokens tenures = [[2], [3]] \<and> sorted_wrt (<) (1 # concat (map tokens tenures)) \<and> lstop s'
     \<and> goes_on 2 (hd tenures)"
proof -
  have "fst (contend tree_client ''/p'' ''c1'' 2 ex_rounds ex_free) = StopRequested
      \<and> map tokens (fst (snd (contend tree_client ''/p'' ''c1'' 2 ex_rounds ex_free))) = [[2], [3]]"
    by code_simp
  then obtain tenures s' where run: "contend tree_client ''/p'' ''c1'' 2 ex_rounds ex_free = (StopRequested, tenures, s')"
    and ts: "map tokens tenures = [[2], [3]]"
    by (cases "contend tree_client ''/p'' ''c1'' 2 ex_rounds ex_free") auto
  have "\<forall>r \<in> set ex_rounds. calm_round wnodes wconnected ''/p'' r"
    by (simp add: ex_rounds_def ex_round_def calm_round_def calm_env_def calm_def)
  from tenures_never_share_a_token [OF ref_tree.zookeeper_axioms ex_free_epoch(1) this run] run ts ex_free_epoch(2)
  show ?thesis by (cases tenures) (auto simp: butlast_def split: list.splits)
qed

end
