(* ===== verification/Flink_Sql.thy ===== *)
theory Flink_Sql
  imports Flink_Job
begin

text \<open>
  The four statements of \<open>flink_job.py\<close>, as the text it builds, and what a SQL scanner makes of
  them: whatever the settings hold, they stay inside the string literals they are put in.

  In the templates \<open>@\<close> stands for a quote and \<open>~\<close> for the dash in a comment, by its UTF-8 bytes.
\<close>

section \<open>Templates\<close>

definition sql_char :: "char \<Rightarrow> string" where
  "sql_char c = (if c = CHR 0x40 then [quote] else if c = CHR 0x7E then [CHR 0xE2, CHR 0x80, CHR 0x94] else [c])"

definition sql :: "string list \<Rightarrow> string" where
  "sql ls = concat (map sql_char (join_lines ls))"

definition EARLIEST :: int where "EARLIEST = 946684800"
definition FUTURE_SKEW_SECONDS :: int where "FUTURE_SKEW_SECONDS = 60"
definition ISO_FORMAT :: string where "ISO_FORMAT = sql [''@yyyy-MM-dd@@T@@HH:mm:ss@@Z@@@'']"

definition source_ddl_1 :: string where
  "source_ddl_1 = sql
    [''CREATE TABLE pageviews ('',
     ''    event_id STRING,'',
     ''    user_id STRING,'',
     ''    page STRING,'',
     ''    `timestamp` DOUBLE,'',
     ''    -- The producer@s Unix seconds as a millisecond timestamp. Never null, and'',
     ''    -- never implausibly far ahead, whatever arrives: see EARLIEST and'',
     ''    -- FUTURE_SKEW_SECONDS. The multiplication happens only for accepted values,'',
     ''    -- so nothing can overflow.'',
     ''    event_time AS TO_TIMESTAMP_LTZ('',
     ''        CAST('',
     ''            CASE'',
     ''                WHEN `timestamp` >= '']"

definition source_ddl_2 :: string where
  "source_ddl_2 = sql
    [[],
     ''                    AND `timestamp` <= UNIX_TIMESTAMP() + '']"

definition source_ddl_3 :: string where
  "source_ddl_3 = sql
    [[],
     ''                THEN `timestamp` * 1000'',
     ''                ELSE 0'',
     ''            END AS BIGINT'',
     ''        ),'',
     ''        3'',
     ''    ),'',
     ''    WATERMARK FOR event_time AS'',
     ''        event_time - INTERVAL @'']"

definition source_ddl_4 :: string where
  "source_ddl_4 = sql
    [''@ SECOND'',
     '') WITH ('',
     ''    @connector@ = @kafka@,'',
     ''    @topic@ = '']"

definition source_ddl_5 :: string where
  "source_ddl_5 = sql
    ['','',
     ''    @properties.bootstrap.servers@ = '']"

definition source_ddl_6 :: string where
  "source_ddl_6 = sql
    ['','',
     ''    @properties.group.id@ = '']"

definition source_ddl_7 :: string where
  "source_ddl_7 = sql
    ['','',
     ''    -- Every submission replays everything Kafka retains, and so repeats'',
     ''    -- results earlier jobs wrote. Resuming from committed offsets instead'',
     ''    -- would start a fresh job past events whose windows were still open, with'',
     ''    -- none of their partial counts, and emit those windows short. Restoring'',
     ''    -- state and offsets together needs a retained checkpoint ~ 0.11@s'',
     ''    -- submitter. The group@s offsets are still committed, for monitoring.'',
     ''    @scan.startup.mode@ = @earliest-offset@,'',
     ''    @format@ = @json@,'',
     ''    -- Skip what cannot be parsed. This alone is not enough: unparseable and'',
     ''    -- missing fields become NULL in a row that is kept, so the view below'',
     ''    -- decides what counts.'',
     ''    @json.ignore-parse-errors@ = @true@'',
     '')'']"

definition sink_ddl_1 :: string where
  "sink_ddl_1 = sql
    [''CREATE TABLE pageview_windows ('',
     ''    window_start STRING,'',
     ''    window_end STRING,'',
     ''    page STRING,'',
     ''    -- Quoted: VIEWS is a reserved word in Flink SQL.'',
     ''    `views` BIGINT,'',
     ''    generation BIGINT'',
     '') WITH ('',
     ''    @connector@ = @kafka@,'',
     ''    @topic@ = '']"

definition sink_ddl_2 :: string where
  "sink_ddl_2 = sql
    ['','',
     ''    @properties.bootstrap.servers@ = '']"

definition sink_ddl_3 :: string where
  "sink_ddl_3 = sql
    ['','',
     ''    -- Keyed by page, so one page@s windows stay in order on one partition.'',
     ''    @key.format@ = @raw@,'',
     ''    @key.fields@ = @page@,'',
     ''    @value.format@ = @json@,'',
     ''    -- At the edge: results since the last checkpoint may be written twice.'',
     ''    @sink.delivery-guarantee@ = @at-least-once@'',
     '')'']"

definition insert_dml_1 :: string where
  "insert_dml_1 = sql
    [''INSERT INTO pageview_windows'',
     ''SELECT'',
     ''    DATE_FORMAT(window_start, '']"

definition insert_dml_2 :: string where
  "insert_dml_2 = sql
    ['') AS window_start,'',
     ''    DATE_FORMAT(window_end, '']"

definition insert_dml_3 :: string where
  "insert_dml_3 = sql
    ['') AS window_end,'',
     ''    page,'',
     ''    COUNT(*) AS `views`,'',
     ''    CAST('']"

definition insert_dml_4 :: string where
  "insert_dml_4 = sql
    ['' AS BIGINT) AS generation'',
     ''FROM TABLE('',
     ''    TUMBLE('',
     ''        TABLE valid_pageviews,'',
     ''        DESCRIPTOR(event_time),'',
     ''        INTERVAL @'']"

definition insert_dml_5 :: string where
  "insert_dml_5 = sql
    [''@ SECOND'',
     ''    )'',
     '')'',
     ''GROUP BY window_start, window_end, page'']"

definition source_ddl :: "settings \<Rightarrow> string" where
  "source_ddl s = source_ddl_1 @ show_int EARLIEST @ source_ddl_2 @ show_int FUTURE_SKEW_SECONDS @ source_ddl_3
     @ show_int (watermark_delay_seconds s) @ source_ddl_4 @ literal (source_topic s) @ source_ddl_5
     @ literal (bootstrap s) @ source_ddl_6 @ literal (group s) @ source_ddl_7"

definition view_ddl :: "string" where
  "view_ddl = sql
    [''CREATE TEMPORARY VIEW valid_pageviews AS'',
     ''SELECT page, event_time'',
     ''FROM pageviews'',
     ''WHERE page IS NOT NULL'',
     ''  AND page <> @@'',
     ''  AND event_time > TO_TIMESTAMP_LTZ(0, 3)'']"

definition sink_ddl :: "settings \<Rightarrow> string" where
  "sink_ddl s = sink_ddl_1 @ literal (sink_topic s) @ sink_ddl_2 @ literal (bootstrap s) @ sink_ddl_3"

definition insert_dml :: "settings \<Rightarrow> string" where
  "insert_dml s = insert_dml_1 @ ISO_FORMAT @ insert_dml_2 @ ISO_FORMAT @ insert_dml_3
     @ show_int (generation_number s) @ insert_dml_4 @ show_int (window_seconds s) @ insert_dml_5"

definition statements :: "settings \<Rightarrow> string list" where
  "statements s = [source_ddl s, view_ddl, sink_ddl s, insert_dml s]"

text \<open>
  \<open>main\<close>, the driver inside the container: the calls on the table environment in order, up to and
  with the first that raises; settings that do not validate stop it before any.
\<close>

datatype table_call = CreateEnvironment | ConfigSet string string | ExecuteSql string

definition driver_calls :: "settings \<Rightarrow> table_call list" where
  "driver_calls s = CreateEnvironment # map (\<lambda>(k, v). ConfigSet k v) (configuration s) @ map ExecuteSql (statements s)"

fun until_raise :: "(table_call \<Rightarrow> bool) \<Rightarrow> table_call list \<Rightarrow> table_call list" where
  "until_raise ok [] = []"
| "until_raise ok (c # cs) = c # (if ok c then until_raise ok cs else [])"

definition flink_job_main :: "(string \<times> string) list \<Rightarrow> (table_call \<Rightarrow> bool) \<Rightarrow> settings_error + table_call list" where
  "flink_job_main env ok =
     (case from_environment env of Inl e \<Rightarrow> Inl e | Inr s \<Rightarrow> Inr (until_raise ok (driver_calls s)))"

lemma until_raise_all: "list_all ok cs \<Longrightarrow> until_raise ok cs = cs"
  by (induction cs) auto

lemma insert_differs: "insert_dml s \<notin> {source_ddl s, view_ddl, sink_ddl s}"
proof -
  have "insert_dml_1 \<noteq> [] \<and> hd insert_dml_1 = CHR ''I''" "source_ddl_1 \<noteq> [] \<and> hd source_ddl_1 = CHR ''C''"
    "hd view_ddl = CHR ''C''" "sink_ddl_1 \<noteq> [] \<and> hd sink_ddl_1 = CHR ''C''" by code_simp+
  then have "hd (insert_dml s) = CHR ''I''" "hd (source_ddl s) = CHR ''C''" "hd view_ddl = CHR ''C''" "hd (sink_ddl s) = CHR ''C''"
    by (simp_all add: insert_dml_def source_ddl_def sink_ddl_def)
  then show ?thesis by auto
qed

text \<open>The job is inserted last: once it is, the whole configuration and every table are there.\<close>

lemma insert_is_last:
  assumes "flink_job_main env ok = Inr cs" and "from_environment env = Inr s" and "ExecuteSql (insert_dml s) \<in> set cs"
  shows "cs = driver_calls s"
proof -
  let ?c = "ExecuteSql (insert_dml s)" and ?xs = "butlast (driver_calls s)"
  have step: "until_raise ok (xs @ [c]) = xs @ [c]" if "c \<in> set (until_raise ok (xs @ [c]))" "c \<notin> set xs" for xs c
    using that by (induction xs) (auto split: if_splits)
  have calls: "driver_calls s = ?xs @ [?c]" by (simp add: driver_calls_def statements_def butlast_append)
  have "?c \<notin> set ?xs" using insert_differs [of s] by (auto simp: driver_calls_def statements_def butlast_append)
  with step [of ?c ?xs] calls assms show ?thesis by (simp add: flink_job_main_def)
qed


section \<open>Scanning\<close>

text \<open>Where a scanner is: outside, after one hyphen, in a comment, in a text, after a quote in one, in a name.\<close>

datatype sql_state = Plain | Hyphen | Comment | InText | TextQuote | InName

definition plain_next :: "char \<Rightarrow> sql_state" where
  "plain_next c = (if c = quote then InText else if c = CHR ''-'' then Hyphen else if c = CHR 0x60 then InName else Plain)"

fun sql_next :: "sql_state \<Rightarrow> char \<Rightarrow> sql_state" where
  "sql_next Plain c = plain_next c"
| "sql_next Hyphen c = (if c = CHR ''-'' then Comment else plain_next c)"
| "sql_next Comment c = (if c = CHR 0x0A then Plain else Comment)"
| "sql_next InText c = (if c = quote then TextQuote else InText)"
| "sql_next TextQuote c = (if c = quote then InText else plain_next c)"
| "sql_next InName c = (if c = CHR 0x60 then Plain else InName)"

text \<open>What is left of a statement when the contents of its texts and comments are taken out.\<close>

fun visible :: "sql_state \<Rightarrow> char \<Rightarrow> bool" where
  "visible InText c = False"
| "visible TextQuote c = (c \<noteq> quote)"
| "visible Comment c = (c = CHR 0x0A)"
| "visible _ c = True"

fun state_after :: "string \<Rightarrow> sql_state \<Rightarrow> sql_state" where
  "state_after [] st = st"
| "state_after (c # s) st = state_after s (sql_next st c)"

fun skeleton :: "string \<Rightarrow> sql_state \<Rightarrow> string" where
  "skeleton [] st = []"
| "skeleton (c # s) st = (if visible st c then c # skeleton s (sql_next st c) else skeleton s (sql_next st c))"

lemma state_after_append: "state_after (a @ b) st = state_after b (state_after a st)"
  by (induction a arbitrary: st) simp_all

lemma skeleton_append: "skeleton (a @ b) st = skeleton a st @ skeleton b (state_after a st)"
  by (induction a arbitrary: st) simp_all

lemma scan_quoted: "state_after (double_quotes v) InText = InText" "skeleton (double_quotes v) InText = []"
  by (induction v) simp_all

lemma scan_literal_text:
  "state_after (literal v) Plain = TextQuote" "skeleton (literal v) Plain = [quote]"
  by (simp_all add: literal_def plain_next_def state_after_append skeleton_append scan_quoted)

lemma scan_inside: "quote \<notin> set s \<Longrightarrow> state_after s InText = InText \<and> skeleton s InText = []"
  by (induction s) auto

lemma no_quote_digits: "list_all is_digit s \<Longrightarrow> quote \<notin> set s"
  by (induction s) (auto simp: is_digit_def quote_def)

lemma scan_number_inside: "state_after (show_int n) InText = InText" "skeleton (show_int n) InText = []"
proof -
  have "quote \<notin> set (show_int n)"
    using no_quote_digits [OF show_nat_digits] by (auto simp: show_int_def quote_def)
  then show "state_after (show_int n) InText = InText" "skeleton (show_int n) InText = []"
    using scan_inside by auto
qed

lemma scan_digits: "list_all is_digit s \<Longrightarrow> state_after s Plain = Plain"
proof (induction s)
  case (Cons c s)
  then have "plain_next c = Plain" by (auto simp: plain_next_def is_digit_def quote_def)
  with Cons show ?case by simp
qed simp

lemma scan_number_outside: "0 \<le> n \<Longrightarrow> state_after (show_int n) Plain = Plain"
  by (simp add: show_int_def scan_digits show_nat_digits)

lemmas scans = state_after_append skeleton_append scan_literal_text scan_number_inside scan_number_outside

text \<open>Where each piece of a template leaves the scanner.\<close>

lemma source_states:
  "state_after source_ddl_1 Plain = Plain" "state_after source_ddl_2 Plain = Plain" "state_after source_ddl_3 Plain = InText"
  "state_after source_ddl_4 InText = Plain" "state_after source_ddl_5 TextQuote = Plain" "state_after source_ddl_6 TextQuote = Plain"
  by code_simp+

lemma sink_states: "state_after sink_ddl_1 Plain = Plain" "state_after sink_ddl_2 TextQuote = Plain"
  by code_simp+

lemma insert_states:
  "state_after insert_dml_1 Plain = Plain" "state_after ISO_FORMAT Plain = TextQuote" "state_after insert_dml_2 TextQuote = Plain"
  "state_after insert_dml_3 TextQuote = Plain" "state_after insert_dml_4 Plain = InText"
  by code_simp+

section \<open>Properties\<close>

text \<open>
  C24: No setting changes what a statement says: for any values, even ones the checks would refuse,
  the statements read outside their texts and comments exactly as the default settings' do, but for
  the generation, a number.
\<close>

theorem statements_keep_their_shape:
  assumes "0 \<le> generation_number s"
  shows "map (\<lambda>t. skeleton t Plain) (statements s)
    = map (\<lambda>t. skeleton t Plain) (statements (default_settings\<lparr>generation_number := generation_number s\<rparr>))"
  using assms
  by (simp add: statements_def source_ddl_def sink_ddl_def insert_dml_def scans source_states sink_states insert_states
      EARLIEST_def FUTURE_SKEW_SECONDS_def)

theorem statements_keep_their_shape_witness:
  "skeleton (sink_ddl (default_settings\<lparr>sink_topic := ''x'' @ [quote] @ '') --'', generation_number := 3\<rparr>)) Plain
     = skeleton (sink_ddl (default_settings\<lparr>generation_number := 3\<rparr>)) Plain"
  using statements_keep_their_shape [of "default_settings\<lparr>sink_topic := ''x'' @ [quote] @ '') --'', generation_number := 3\<rparr>"]
  by (simp add: statements_def)

end
