(* ===== verification/Windows.thy ===== *)
theory Windows
  imports Redis Iso_Time "HOL-Library.Product_Lexorder"
begin

text \<open>
  \<open>windows_writer.py\<close> and \<open>windows.py\<close>: the Lua script that decides which result a window
  holds, the batches the writer applies, and the raw view that \<open>windows.latest\<close> computes from
  the topic. Both sides are compared with one specification, \<open>window_step\<close>.

  A JSON text is represented by the value \<open>json.loads\<close> gives, none where it raises. Lua's
  numbers are doubles: generations, bounds and clocks are exact up to \<open>2 ^ 53\<close>, and the model
  computes with exact integers.
\<close>

section \<open>Keys\<close>

definition INDEX_KEY :: string where "INDEX_KEY = ''windows''"
definition PAGE_MAX_LENGTH :: nat where "PAGE_MAX_LENGTH = 128"
definition WRITTEN :: int where "WRITTEN = 1"
definition REFUSED :: int where "REFUSED = 0"
definition EXPIRED :: int where "EXPIRED = - 1"

definition index_key :: "string \<Rightarrow> string" where
  "index_key prefix = prefix @ INDEX_KEY"

definition window_key :: "int \<Rightarrow> string \<Rightarrow> string" where
  "window_key start prefix = prefix @ INDEX_KEY @ '':'' @ show_int start"

definition meta_key :: "int \<Rightarrow> string \<Rightarrow> string" where
  "meta_key start prefix = window_key start prefix @ '':meta''"

lemmas key_defs = index_key_def window_key_def meta_key_def INDEX_KEY_def

section \<open>Results\<close>

record window_result =
  win_start :: int
  win_end :: int
  win_page :: string
  win_views :: int
  win_generation :: int

fun strict_count :: "json \<Rightarrow> int option" where
  "strict_count (JInt n) = (if n < 0 then None else Some n)"
| "strict_count _ = None"

fun page_of_json :: "json \<Rightarrow> string option" where
  "page_of_json (JStr p) = (if 0 < length p \<and> length p \<le> PAGE_MAX_LENGTH then Some p else None)"
| "page_of_json _ = None"

fun seconds_of_json :: "json \<Rightarrow> int option" where
  "seconds_of_json (JStr t) = epoch_seconds t"
| "seconds_of_json _ = None"

definition generation_json :: "json \<Rightarrow> json" where
  "generation_json v = (case jget v ''generation'' of None \<Rightarrow> JInt 0 | Some g \<Rightarrow> g)"

definition parse_result :: "json option \<Rightarrow> window_result option" where
  "parse_result raw =
     Option.bind raw (\<lambda>v.
     Option.bind (jget v ''window_start'') (\<lambda>s. Option.bind (seconds_of_json s) (\<lambda>start.
     Option.bind (jget v ''window_end'') (\<lambda>e. Option.bind (seconds_of_json e) (\<lambda>stop.
     Option.bind (jget v ''page'') (\<lambda>p. Option.bind (jget v ''views'') (\<lambda>n.
     Option.bind (page_of_json p) (\<lambda>page.
     Option.bind (strict_count n) (\<lambda>views.
     Option.bind (strict_count (generation_json v)) (\<lambda>g.
       if stop \<le> start then None
       else Some \<lparr>win_start = start, win_end = stop, win_page = page, win_views = views, win_generation = g\<rparr>))))))))))"

section \<open>The script\<close>

text \<open>
  \<open>SCRIPT\<close>, from the generation it finds on. A stored generation that is not a number would
  make the comparison raise before anything is written: the result is then none.
\<close>

definition stored_generation :: "'w redis \<Rightarrow> string \<Rightarrow> 'w \<Rightarrow> int option" where
  "stored_generation rd meta w =
     (case hget rd w meta ''generation'' of None \<Rightarrow> Some (- 1) | Some t \<Rightarrow> py_int t)"

definition script ::
    "'w redis \<Rightarrow> string \<Rightarrow> int \<Rightarrow> int \<Rightarrow> window_result \<Rightarrow> 'w \<Rightarrow> int option \<times> 'w" where
  "script rd prefix retention now r w =
     (let k1 = window_key (win_start r) prefix; k2 = meta_key (win_start r) prefix; k3 = index_key prefix;
          expire_at = win_end r + retention; start = win_start r in
      if expire_at \<le> now then (Some EXPIRED, w)
      else case stored_generation rd k2 w of
        None \<Rightarrow> (None, w)
      | Some stored \<Rightarrow>
          if win_generation r < stored then (Some REFUSED, w)
          else
            (let w1 = (if win_generation r > stored
                       then hset rd (hset rd (rdel rd w k1) k2 ''generation'' (show_int (win_generation r)))
                              k2 ''end'' (show_int (win_end r))
                       else w);
                 w2 = hset rd w1 k1 (win_page r) (show_int (win_views r));
                 w3 = expireat rd w2 k1 expire_at;
                 w4 = expireat rd w3 k2 expire_at;
                 w5 = zadd rd w4 k3 start (show_int start);
                 w6 = zremrangebyscore rd w5 k3 (now - (expire_at - start))
             in (Some WRITTEN, w6)))"

text \<open>
  A plain pipeline: every script runs, one that raises does not stop the others, and
  \<open>execute\<close> raises at the end. A lost connection leaves the scripts after \<open>lost\<close> unrun.
\<close>

fun run_scripts ::
    "'w redis \<Rightarrow> string \<Rightarrow> int \<Rightarrow> int \<Rightarrow> nat option \<Rightarrow> window_result list \<Rightarrow> 'w \<Rightarrow> int list option \<times> 'w" where
  "run_scripts rd prefix retention now lost [] w = (if lost = Some 0 then None else Some [], w)"
| "run_scripts rd prefix retention now lost (r # rs) w =
     (if lost = Some 0 then (None, w)
      else case script rd prefix retention now r w of
        (res, w1) \<Rightarrow>
          (case run_scripts rd prefix retention now (map_option (\<lambda>n. n - 1) lost) rs w1 of
             (out, w2) \<Rightarrow>
               (case (res, out) of (Some x, Some xs) \<Rightarrow> Some (x # xs) | _ \<Rightarrow> None, w2)))"

definition write_results ::
    "'w redis \<Rightarrow> string \<Rightarrow> int \<Rightarrow> rat \<Rightarrow> nat option \<Rightarrow> window_result list \<Rightarrow> 'w \<Rightarrow> int list option \<times> 'w" where
  "write_results rd prefix retention clock lost rs w =
     (if rs = [] then (Some [], w) else run_scripts rd prefix retention (int_of_float clock) lost rs w)"

section \<open>Batches\<close>

record message =
  msg_offset :: int
  msg_value :: "json option"

type_synonym batch = "(nat \<times> message list) list"

text \<open>\<open>apply\<close>: results in order, how many were misshapen, and those the script wrote.\<close>

definition batch_results :: "batch \<Rightarrow> window_result list \<times> nat" where
  "batch_results b =
     (let values = map msg_value (concat (map snd b)) in
      (List.map_filter parse_result values, length (filter (\<lambda>v. parse_result v = None) values)))"

definition apply_batch ::
    "'w redis \<Rightarrow> string \<Rightarrow> int \<Rightarrow> rat \<Rightarrow> nat option \<Rightarrow> batch \<Rightarrow> 'w \<Rightarrow> (window_result list \<times> nat \<times> nat) option \<times> 'w" where
  "apply_batch rd prefix retention clock lost b w =
     (case batch_results b of
        (rs, misshapen) \<Rightarrow>
          (case write_results rd prefix retention clock lost rs w of
             (None, w1) \<Rightarrow> (None, w1)
           | (Some outcomes, w1) \<Rightarrow>
               (let written = map fst (filter (\<lambda>(r, x). x = WRITTEN) (zip rs outcomes))
                in (Some (written, length rs - length written, misshapen), w1))))"

text \<open>\<open>rewind\<close>: the positions to seek to.\<close>

definition rewind :: "batch \<Rightarrow> (nat \<times> int) list" where
  "rewind b = map (\<lambda>(p, ms). (p, msg_offset (hd ms))) (filter (\<lambda>(p, ms). ms \<noteq> []) b)"

definition RETRY_INITIAL_SECONDS :: rat where "RETRY_INITIAL_SECONDS = 1 / 2"
definition RETRY_MAX_SECONDS :: rat where "RETRY_MAX_SECONDS = 10"

text \<open>
  One poll of \<open>run\<close>: what it tells the consumer, the waits, the hints, and the next retry.
  \<open>commit\<close> may fail, which is only logged; hints come after it.
\<close>

datatype writer_effect =
  Seek "(nat \<times> int) list" | Sleep rat | Commit | Announce "(int \<times> int) list"

definition hint_windows :: "window_result list \<Rightarrow> (int \<times> int) list" where
  "hint_windows rs = sorted_list_of_set (set (map (\<lambda>r. (win_start r, win_end r)) rs))"

definition run_poll ::
    "'w redis \<Rightarrow> string \<Rightarrow> int \<Rightarrow> rat \<Rightarrow> nat option \<Rightarrow> batch \<Rightarrow> rat \<times> 'w \<Rightarrow> writer_effect list \<times> rat \<times> 'w" where
  "run_poll rd prefix retention clock lost b st =
     (if b = [] then ([], st)
      else case apply_batch rd prefix retention clock lost b (snd st) of
        (None, w1) \<Rightarrow> ([Seek (rewind b), Sleep (fst st)], min RETRY_MAX_SECONDS (fst st * 2), w1)
      | (Some (written, skipped, misshapen), w1) \<Rightarrow>
          ([Commit, Announce (hint_windows written)], RETRY_INITIAL_SECONDS, w1))"

section \<open>The specification of one window\<close>

text \<open>The generation a window has accepted, \<open>-1\<close> for none, and its counts.\<close>

type_synonym window_state = "int \<times> (string \<rightharpoonup> int)"

definition window_step :: "window_state \<Rightarrow> int \<times> string \<times> int \<Rightarrow> window_state" where
  "window_step st r =
     (case (st, r) of ((g, c), (gen, page, views)) \<Rightarrow>
        if gen < g then (g, c)
        else if gen > g then (gen, [page \<mapsto> views])
        else (g, c(page \<mapsto> views)))"

definition window_fold :: "(int \<times> string \<times> int) list \<Rightarrow> window_state \<Rightarrow> window_state" where
  "window_fold rs st = foldl window_step st rs"

text \<open>The newest generation of a list of results, and the last views of a page within it.\<close>

definition newest :: "int \<Rightarrow> (int \<times> string \<times> int) list \<Rightarrow> int" where
  "newest g rs = foldl (\<lambda>m (gen, _). max m gen) g rs"

definition last_views :: "int \<Rightarrow> string \<Rightarrow> (int \<times> string \<times> int) list \<Rightarrow> int option" where
  "last_views g p rs = map_of (rev (map snd (filter (\<lambda>(gen, _). gen = g) rs))) p"

lemma window_fold_simps [simp]:
  "window_fold [] st = st" "window_fold (rs @ [r]) st = window_step (window_fold rs st) r"
  by (simp_all add: window_fold_def)

lemma newest_snoc [simp]: "newest g [] = g" "newest g (rs @ [r]) = max (newest g rs) (fst r)"
  by (simp_all add: newest_def case_prod_beta)

lemma newest_ge: "g \<le> newest g rs"
  by (induction rs rule: rev_induct) auto

lemma newest_member: "r \<in> set rs \<Longrightarrow> fst r \<le> newest g rs"
  by (induction rs rule: rev_induct) auto

lemma last_views_snoc [simp]:
  "last_views g p [] = None"
  "last_views g p (rs @ [(gen, q, v)]) = (if gen = g \<and> q = p then Some v else last_views g p rs)"
  by (simp_all add: last_views_def)

lemma last_views_above: "newest g rs < h \<Longrightarrow> last_views h p rs = None"
  by (induction rs rule: rev_induct) (auto simp: case_prod_beta)

text \<open>The closed form: what any sequence of results leaves.\<close>

lemma window_fold_closed:
  "window_fold rs (g, c) =
     (newest g rs, (\<lambda>p. case last_views (newest g rs) p rs of
         Some v \<Rightarrow> Some v | None \<Rightarrow> if newest g rs = g then c p else None))"
proof (induction rs rule: rev_induct)
  case (snoc r rs)
  obtain gen q v where r: "r = (gen, q, v)" by (cases r)
  show ?case
  proof (cases "gen > newest g rs")
    case True
    with last_views_above [OF True] newest_ge [of g rs] snoc r show ?thesis
      by (auto simp: window_step_def fun_eq_iff)
  next
    case False
    with snoc r show ?thesis by (auto simp: window_step_def fun_eq_iff max_def)
  qed
qed (simp add: fun_eq_iff)

section \<open>Keys do not collide\<close>

lemma colon_free: "CHR '':'' \<notin> set (show_int n)"
proof -
  have "CHR '':'' \<notin> set (show_nat k)" for k
    using show_nat_digits [of k] by (auto simp: list_all_iff is_digit_def)
  then show ?thesis by (auto simp: show_int_def)
qed

lemma window_key_eq [simp]: "window_key s prefix = window_key t prefix \<longleftrightarrow> s = t"
  by (simp add: key_defs)

lemma meta_key_eq [simp]: "meta_key s prefix = meta_key t prefix \<longleftrightarrow> s = t"
  by (simp add: meta_key_def)

lemma keys_apart [simp]:
  "window_key s prefix \<noteq> meta_key t prefix" "meta_key t prefix \<noteq> window_key s prefix"
  "index_key prefix \<noteq> window_key s prefix" "window_key s prefix \<noteq> index_key prefix"
  "index_key prefix \<noteq> meta_key s prefix" "meta_key s prefix \<noteq> index_key prefix"
proof -
  have "show_int s \<noteq> show_int t @ '':meta''" using colon_free [of s] by (metis append_Cons in_set_conv_decomp)
  then show "window_key s prefix \<noteq> meta_key t prefix" "meta_key t prefix \<noteq> window_key s prefix"
    by (auto simp: key_defs)
qed (simp_all add: key_defs)

section \<open>Redis implements the specification\<close>

definition generation_at :: "keyspace \<Rightarrow> string \<Rightarrow> int \<Rightarrow> int option" where
  "generation_at d prefix s =
     (case map_of (as_hash (d (meta_key s prefix))) ''generation'' of None \<Rightarrow> Some (- 1) | Some t \<Rightarrow> py_int t)"

definition window_of :: "keyspace \<Rightarrow> string \<Rightarrow> int \<Rightarrow> window_state" where
  "window_of d prefix s =
     (case generation_at d prefix s of None \<Rightarrow> - 1 | Some g \<Rightarrow> g,
      \<lambda>p. Option.bind (map_of (as_hash (d (window_key s prefix))) p) py_int)"

text \<open>The keys the writer owns have the types it gives them, and a stored generation is a number.\<close>

definition windows_ok :: "keyspace \<Rightarrow> string \<Rightarrow> bool" where
  "windows_ok d prefix \<longleftrightarrow> zset_slot (d (index_key prefix))
     \<and> (\<forall>s. hash_slot (d (window_key s prefix)) \<and> hash_slot (d (meta_key s prefix))
        \<and> generation_at d prefix s \<noteq> None)"

definition entry_of :: "window_result \<Rightarrow> int \<times> string \<times> int" where
  "entry_of r = (win_generation r, win_page r, win_views r)"

text \<open>The keyspace after the script wrote a result.\<close>

definition keyspace_written :: "keyspace \<Rightarrow> string \<Rightarrow> int \<Rightarrow> window_result \<Rightarrow> keyspace" where
  "keyspace_written d prefix trim r =
     (let k1 = window_key (win_start r) prefix; k2 = meta_key (win_start r) prefix; k3 = index_key prefix;
          newer = (win_generation r > fst (window_of d prefix (win_start r)));
          d1 = (if newer then (d(k1 := None))(k2 \<mapsto> RHash (AList.update ''end'' (show_int (win_end r))
                  (AList.update ''generation'' (show_int (win_generation r)) (as_hash (d k2))))) else d);
          d2 = d1(k1 \<mapsto> RHash (AList.update (win_page r) (show_int (win_views r)) (as_hash (d1 k1))));
          z = AList.update (show_int (win_start r)) (win_start r) (as_zset (d k3))
      in d2(k3 := put_zset (filter (\<lambda>(m, sc). trim < sc) z)))"

lemma written_index: "zset_slot (put_zset z)"
  by (simp add: put_zset_def)

lemma written_generation:
  "generation_at (keyspace_written d prefix trim r) prefix s =
     (if s = win_start r \<and> win_generation r > fst (window_of d prefix s) then Some (win_generation r)
      else generation_at d prefix s)"
  by (cases "s = win_start r") (simp_all add: keyspace_written_def generation_at_def Let_def update_conv')

lemma written_counts:
  "as_hash (keyspace_written d prefix trim r (window_key s prefix)) =
     (if s \<noteq> win_start r then as_hash (d (window_key s prefix))
      else AList.update (win_page r) (show_int (win_views r))
        (if win_generation r > fst (window_of d prefix s) then [] else as_hash (d (window_key s prefix))))"
  by (simp add: keyspace_written_def Let_def)

lemma written_ok: "windows_ok d prefix \<Longrightarrow> windows_ok (keyspace_written d prefix trim r) prefix"
  unfolding windows_ok_def written_generation
  by (auto simp: keyspace_written_def Let_def written_index)

lemma generation_known:
  "windows_ok d prefix \<Longrightarrow> generation_at d prefix s = Some (fst (window_of d prefix s))"
proof -
  assume "windows_ok d prefix"
  then have "generation_at d prefix s \<noteq> None" unfolding windows_ok_def by blast
  then show ?thesis by (auto simp: window_of_def)
qed

lemma written_refines:
  assumes "windows_ok d prefix" and "win_generation r \<ge> fst (window_of d prefix (win_start r))"
  shows "window_of (keyspace_written d prefix trim r) prefix s =
    (if s = win_start r then window_step (window_of d prefix s) (entry_of r) else window_of d prefix s)"
proof (cases "s = win_start r")
  case True
  obtain g c where gc: "window_of d prefix s = (g, c)" by (cases "window_of d prefix s")
  have gen: "generation_at d prefix s = Some g" using gc generation_known [OF assms(1), of s] by simp
  have cnt: "c = (\<lambda>p. Option.bind (map_of (as_hash (d (window_key s prefix))) p) py_int)"
    using gc by (simp add: window_of_def)
  show ?thesis
    using True gc gen assms(2) unfolding window_of_def [of "keyspace_written d prefix trim r"] written_generation written_counts
    by (auto simp: window_step_def entry_of_def update_conv' cnt fun_eq_iff)
next
  case False
  then show ?thesis unfolding window_of_def [of "keyspace_written d prefix trim r"] written_generation written_counts
    by (simp add: window_of_def)
qed

context redis_server
begin

lemma stored_is: "stored_generation rd (meta_key s prefix) w = generation_at (db w) prefix s"
  by (simp add: stored_generation_def generation_at_def hget_law)

lemma windows_slots:
  assumes "windows_ok (db w) prefix"
  shows "hash_slot (db w (window_key s prefix))" "hash_slot (db w (meta_key s prefix))" "zset_slot (db w (index_key prefix))"
  using assms by (simp_all add: windows_ok_def)

lemma script_writes:
  assumes ok: "windows_ok (db w) prefix" and clock: "now w < win_end r + retention"
    and live: "t < win_end r + retention" and gen: "win_generation r \<ge> fst (window_of (db w) prefix (win_start r))"
    and run: "script rd prefix retention t r w = (res, w')"
  shows "res = Some WRITTEN \<and> now w' = now w
    \<and> db w' = keyspace_written (db w) prefix (t - (win_end r + retention - win_start r)) r"
proof -
  let ?k1 = "window_key (win_start r) prefix" and ?k2 = "meta_key (win_start r) prefix" and ?k3 = "index_key prefix"
  let ?newer = "fst (window_of (db w) prefix (win_start r)) < win_generation r"
  define w1 where "w1 = (if ?newer
    then hset rd (hset rd (rdel rd w ?k1) ?k2 ''generation'' (show_int (win_generation r))) ?k2 ''end'' (show_int (win_end r))
    else w)"
  define w2 where "w2 = hset rd w1 ?k1 (win_page r) (show_int (win_views r))"
  define w4 where "w4 = expireat rd (expireat rd w2 ?k1 (win_end r + retention)) ?k2 (win_end r + retention)"
  have slots: "hash_slot (db w ?k1)" "hash_slot (db w ?k2)" "zset_slot (db w ?k3)"
    using windows_slots [OF ok] by blast+
  have d1: "now w1 = now w" "db w1 = (if ?newer then ((db w)(?k1 := None))(?k2 \<mapsto> RHash (AList.update ''end'' (show_int (win_end r))
      (AList.update ''generation'' (show_int (win_generation r)) (as_hash (db w ?k2))))) else db w)"
    using slots by (simp_all add: w1_def hset_law del_law)
  have "hash_slot (db w1 ?k1)" using slots d1(2) by simp
  then have d2: "now w2 = now w" "db w2 = (db w1)(?k1 \<mapsto> RHash (AList.update (win_page r) (show_int (win_views r)) (as_hash (db w1 ?k1))))"
    using d1(1) by (simp_all add: w2_def hset_law)
  have d4: "now w4 = now w" "db w4 = db w2" using d2(1) clock by (simp_all add: w4_def expireat_law)
  have z: "zset_slot (db w4 ?k3)" "as_zset (db w4 ?k3) = as_zset (db w ?k3)" using slots d4(2) d2(2) d1(2) by simp_all
  have "res = Some WRITTEN" and w': "w' = zremrangebyscore rd (zadd rd w4 ?k3 (win_start r) (show_int (win_start r))) ?k3
      (t - (win_end r + retention - win_start r))"
    using run live gen generation_known [OF ok, of "win_start r"]
    by (auto simp: script_def Let_def stored_is w1_def w2_def w4_def)
  moreover have "now w' = now w" using d4(1) by (simp add: w' zremrange_law zadd_law)
  moreover have "db w' = keyspace_written (db w) prefix (t - (win_end r + retention - win_start r)) r"
    using z by (simp add: w' zremrange_law zadd_law d4(2) d2(2) d1(2) keyspace_written_def Let_def)
  ultimately show ?thesis by blast
qed

text \<open>One script run against the specification, on every branch.\<close>

lemma script_refines:
  assumes ok: "windows_ok (db w) prefix" and clock: "now w < win_end r + retention"
    and run: "script rd prefix retention t r w = (res, w')"
  shows "windows_ok (db w') prefix \<and> now w' = now w
    \<and> res = Some (if win_end r + retention \<le> t then EXPIRED
        else if win_generation r < fst (window_of (db w) prefix (win_start r)) then REFUSED else WRITTEN)
    \<and> (\<forall>s. window_of (db w') prefix s =
        (if s = win_start r \<and> t < win_end r + retention
         then window_step (window_of (db w) prefix s) (entry_of r) else window_of (db w) prefix s))"
proof (cases "t < win_end r + retention \<and> win_generation r \<ge> fst (window_of (db w) prefix (win_start r))")
  case True
  with script_writes [OF ok clock _ _ run] written_ok [OF ok] written_refines [OF ok] show ?thesis by auto
next
  case False
  obtain g c where gc: "window_of (db w) prefix (win_start r) = (g, c)" by (cases "window_of (db w) prefix (win_start r)")
  have "w' = w \<and> res = Some (if win_end r + retention \<le> t then EXPIRED else REFUSED)"
    using run False generation_known [OF ok, of "win_start r"] by (auto simp: script_def Let_def stored_is split: if_splits)
  with False ok gc show ?thesis by (auto simp: window_step_def entry_of_def)
qed

end

definition live_entries :: "int \<Rightarrow> int \<Rightarrow> int \<Rightarrow> window_result list \<Rightarrow> (int \<times> string \<times> int) list" where
  "live_entries retention t s rs =
     map entry_of (filter (\<lambda>r. win_start r = s \<and> t < win_end r + retention) rs)"

lemma window_fold_Cons: "window_fold (e # es) st = window_fold es (window_step st e)"
  by (simp add: window_fold_def)

lemma window_fold_append: "window_fold (xs @ ys) st = window_fold ys (window_fold xs st)"
  by (simp add: window_fold_def)

context redis_server
begin

text \<open>A batch, whole or cut short by a lost connection: the scripts that ran, folded.\<close>

lemma run_scripts_refines:
  assumes "windows_ok (db w) prefix" and "\<forall>r \<in> set rs. now w < win_end r + retention"
    and "run_scripts rd prefix retention t lost rs w = (out, w')"
  shows "windows_ok (db w') prefix \<and> now w' = now w
    \<and> (lost = None \<longrightarrow> out \<noteq> None)
    \<and> (\<exists>n. (lost = None \<or> out \<noteq> None \<longrightarrow> length rs \<le> n) \<and>
        (\<forall>s. window_of (db w') prefix s = window_fold (live_entries retention t s (take n rs)) (window_of (db w) prefix s)))"
  using assms
proof (induction rs arbitrary: w lost out w')
  case Nil
  then show ?case by (auto simp: live_entries_def)
next
  case (Cons r rs)
  show ?case
  proof (cases "lost = Some 0")
    case True
    with Cons.prems show ?thesis by (auto simp: live_entries_def intro!: exI [of _ 0])
  next
    case False
    obtain res w1 where r: "script rd prefix retention t r w = (res, w1)" by (cases "script rd prefix retention t r w")
    obtain o2 w2 where o2: "run_scripts rd prefix retention t (map_option (\<lambda>n. n - 1) lost) rs w1 = (o2, w2)"
      by (cases "run_scripts rd prefix retention t (map_option (\<lambda>n. n - 1) lost) rs w1")
    have head: "windows_ok (db w1) prefix" "now w1 = now w" "res \<noteq> None"
      "\<And>s. window_of (db w1) prefix s = window_fold (live_entries retention t s [r]) (window_of (db w) prefix s)"
      using script_refines [OF Cons.prems(1) _ r] Cons.prems(2)
      by (auto simp: live_entries_def window_fold_Cons split: if_splits)
    have w': "w' = w2" "out \<noteq> None \<longleftrightarrow> o2 \<noteq> None"
      using Cons.prems(3) False r o2 head(3) by (auto split: option.splits)
    obtain n where n: "windows_ok (db w2) prefix" "now w2 = now w1" "lost = None \<longrightarrow> o2 \<noteq> None"
      "lost = None \<or> o2 \<noteq> None \<longrightarrow> length rs \<le> n"
      "\<And>s. window_of (db w2) prefix s = window_fold (live_entries retention t s (take n rs)) (window_of (db w1) prefix s)"
      using Cons.IH [OF head(1) _ o2] Cons.prems(2) head(2) by auto
    have "live_entries retention t s (take (Suc n) (r # rs)) = live_entries retention t s [r] @ live_entries retention t s (take n rs)" for s
      by (simp add: live_entries_def)
    with n w' head show ?thesis by (intro conjI exI [of _ "Suc n"]) (auto simp: window_fold_append)
  qed
qed

end

section \<open>Replays converge\<close>

lemma newest_Max: "newest g rs = Max (insert g (fst ` set rs))"
proof (induction rs rule: rev_induct)
  case (snoc r rs)
  have "insert g (fst ` set (rs @ [r])) = insert (fst r) (insert g (fst ` set rs))" by auto
  then have "Max (insert g (fst ` set (rs @ [r]))) = max (fst r) (Max (insert g (fst ` set rs)))"
    by (simp only:) (rule Max_insert, simp_all)
  with snoc show ?case by (simp add: max.commute)
qed simp

lemma last_views_append:
  "last_views g p (xs @ ys) = (case last_views g p ys of Some v \<Rightarrow> Some v | None \<Rightarrow> last_views g p xs)"
  unfolding last_views_def by (simp add: map_add_def)

lemma last_views_None: "last_views g p rs = None \<longleftrightarrow> (\<forall>v. (g, p, v) \<notin> set rs)"
  by (force simp: last_views_def map_of_eq_None_iff)

lemma window_fold_replay:
  assumes "set xs \<subseteq> set ys"
  shows "window_fold ys (window_fold xs st) = window_fold ys st"
proof -
  obtain g c where st: "st = (g, c)" by (cases st)
  have "newest g (xs @ ys) = newest g ys" using assms by (simp add: newest_Max image_Un [symmetric] Un_absorb1)
  moreover have "last_views h p (xs @ ys) = last_views h p ys" for h p
    using assms last_views_None [of h p xs] last_views_None [of h p ys]
    by (auto simp: last_views_append split: option.splits)
  ultimately have "window_fold (xs @ ys) (g, c) = window_fold ys (g, c)" by (simp only: window_fold_closed)
  then show ?thesis by (simp add: st window_fold_append)
qed

section \<open>The raw view of the topic\<close>

text \<open>\<open>windows.latest\<close>: a record of the topic, its generation 0 when it has none.\<close>

record raw_result =
  raw_start :: string
  raw_page :: string
  raw_views :: int
  raw_generation :: int

definition newest_by_start :: "raw_result list \<Rightarrow> (string \<times> int) list" where
  "newest_by_start rs =
     foldl (\<lambda>d r. AList.update (raw_start r)
       (max (case map_of d (raw_start r) of None \<Rightarrow> 0 | Some g \<Rightarrow> g) (raw_generation r)) d) [] rs"

definition by_key :: "raw_result list \<Rightarrow> ((string \<times> string) \<times> raw_result) list" where
  "by_key rs =
     foldl (\<lambda>d r. AList.update (raw_start r, raw_page r) r d) []
       (filter (\<lambda>r. map_of (newest_by_start rs) (raw_start r) = Some (raw_generation r)) rs)"

text \<open>\<open>starts[-n:]\<close>: the last \<open>n\<close>, and all of them for zero.\<close>

definition last_starts :: "nat \<Rightarrow> raw_result list \<Rightarrow> string list" where
  "last_starts n rs =
     (let starts = sorted_list_of_set (set (map (fst \<circ> fst) (by_key rs)))
      in if n = 0 then starts else drop (length starts - n) starts)"

definition latest :: "nat \<Rightarrow> raw_result list \<Rightarrow> raw_result list" where
  "latest n rs = sort_key (\<lambda>r. (raw_start r, raw_page r))
     (map snd (filter (\<lambda>((s, p), r). s \<in> set (last_starts n rs)) (by_key rs)))"

text \<open>\<open>Snapshot.repeated\<close>.\<close>

definition repeated :: "raw_result list \<Rightarrow> nat" where
  "repeated rs = length rs - card (set (map (\<lambda>r. (raw_start r, raw_page r)) rs))"

definition raw_entries :: "string \<Rightarrow> raw_result list \<Rightarrow> (int \<times> string \<times> int) list" where
  "raw_entries s rs = map (\<lambda>r. (raw_generation r, raw_page r, raw_views r)) (filter (\<lambda>r. raw_start r = s) rs)"

lemma foldl_update_lookup:
  "map_of (foldl (\<lambda>d r. AList.update (k r) r d) d rs) q
     = (case map_of (rev (map (\<lambda>r. (k r, r)) rs)) q of Some r \<Rightarrow> Some r | None \<Rightarrow> map_of d q)"
  by (induction rs arbitrary: d rule: rev_induct) (auto simp: update_conv')

lemma newest_by_start_lookup:
  assumes "\<forall>r \<in> set rs. 0 \<le> raw_generation r"
  shows "map_of (newest_by_start rs) s = (if raw_entries s rs = [] then None else Some (newest (- 1) (raw_entries s rs)))"
  using assms
proof (induction rs rule: rev_induct)
  case Nil
  then show ?case by (simp add: newest_by_start_def raw_entries_def)
next
  case (snoc r rs)
  have "newest (- 1) (raw_entries s rs) \<ge> 0" if "raw_entries s rs \<noteq> []"
  proof -
    from that obtain e where e: "e \<in> set (raw_entries s rs)" by (cases "raw_entries s rs") auto
    then have "0 \<le> fst e" using snoc.prems by (auto simp: raw_entries_def)
    with newest_member [OF e, of "- 1"] show ?thesis by simp
  qed
  with snoc show ?case by (auto simp: newest_by_start_def raw_entries_def update_conv')
qed

lemma by_key_distinct: "distinct_keys (by_key rs)"
proof -
  have "distinct_keys (foldl (\<lambda>d r. AList.update (k r) r d) d xs)" if "distinct_keys d"
    for k :: "raw_result \<Rightarrow> string \<times> string" and d xs
    using that by (induction xs arbitrary: d) (simp_all add: distinct_update)
  then show ?thesis by (simp add: by_key_def)
qed

lemma map_of_rev_key:
  "map_of (rev (map (\<lambda>r. (k r, r)) rs)) q = Some r \<Longrightarrow> k r = q \<and> r \<in> set rs"
  by (drule map_of_SomeD) auto

text \<open>The record kept for a window and page carries the views the specification leaves.\<close>

lemma by_key_spec:
  assumes pos: "\<forall>r \<in> set rs. 0 \<le> raw_generation r"
  shows "map_option (\<lambda>r. (raw_generation r, raw_views r)) (map_of (by_key rs) (s, p))
    = map_option (\<lambda>v. (newest (- 1) (raw_entries s rs), v)) (last_views (newest (- 1) (raw_entries s rs)) p (raw_entries s rs))"
proof -
  let ?g = "newest (- 1) (raw_entries s rs)"
  have keep: "map_of (newest_by_start rs) (raw_start r) = Some (raw_generation r) \<and> raw_start r = s
      \<longleftrightarrow> raw_start r = s \<and> raw_generation r = ?g" if "r \<in> set rs" for r
  proof -
    have "raw_start r = s \<Longrightarrow> raw_entries s rs \<noteq> []" using that by (auto simp: raw_entries_def filter_empty_conv)
    then show ?thesis using newest_by_start_lookup [OF pos, of s] by auto
  qed
  let ?f = "\<lambda>r. map_of (newest_by_start rs) (raw_start r) = Some (raw_generation r)"
  have lookup: "map_of (by_key rs) (s, p) = map_of (rev (map (\<lambda>r. ((raw_start r, raw_page r), r)) (filter ?f rs))) (s, p)"
    unfolding by_key_def by (simp add: foldl_update_lookup split: option.splits)
  have "map_option (\<lambda>r. (raw_generation r, raw_views r)) (map_of (rev (map (\<lambda>r. ((raw_start r, raw_page r), r)) (filter P xs))) (s, p))
      = map_option (\<lambda>v. (g, v)) (last_views g p (raw_entries s xs))"
    if "\<forall>r \<in> set xs. P r \<and> raw_start r = s \<longleftrightarrow> raw_start r = s \<and> raw_generation r = g" for P xs g
    using that
  proof (induction xs rule: rev_induct)
    case (snoc x xs)
    then show ?case by (auto simp: raw_entries_def)
  qed (simp add: raw_entries_def)
  from this [of rs ?f ?g] keep show ?thesis by (simp add: lookup)
qed

lemma latest_member:
  "r \<in> set (latest n rs) \<longleftrightarrow>
     map_of (by_key rs) (raw_start r, raw_page r) = Some r \<and> raw_start r \<in> set (last_starts n rs)"
proof -
  have key: "x = (raw_start r, raw_page r)" if "(x, r) \<in> set (by_key rs)" for x r
  proof -
    from that have "map_of (by_key rs) x = Some r" by (simp add: by_key_distinct)
    then show ?thesis unfolding by_key_def
      by (auto simp: foldl_update_lookup dest: map_of_rev_key split: option.splits)
  qed
  have "r \<in> set (latest n rs) \<longleftrightarrow>
      (\<exists>x. (x, r) \<in> set (by_key rs) \<and> fst x \<in> set (last_starts n rs))"
    unfolding latest_def set_sort set_map set_filter image_iff by (auto simp: case_prod_beta)
  also have "\<dots> \<longleftrightarrow> ((raw_start r, raw_page r), r) \<in> set (by_key rs) \<and> raw_start r \<in> set (last_starts n rs)"
    by (metis key fst_conv)
  finally show ?thesis by (simp add: by_key_distinct)
qed

lemma by_key_key:
  "map_of (by_key rs) (s, p) = Some r \<Longrightarrow> raw_start r = s \<and> raw_page r = p"
  unfolding by_key_def by (auto simp: foldl_update_lookup dest: map_of_rev_key split: option.splits)

text \<open>
  The raw view of the topic agrees with the writer: for every window it shows, the pages and
  views \<open>windows.latest\<close> prints are exactly the counts that writing all the records in order
  would leave, and all of the window's newest generation.
\<close>

lemma latest_shows_fold:
  assumes pos: "\<forall>r \<in> set rs. 0 \<le> raw_generation r" and "s \<in> set (last_starts n rs)"
    and "window_fold (raw_entries s rs) (- 1, Map.empty) = (g, c)"
  shows "(\<exists>r \<in> set (latest n rs). raw_start r = s \<and> raw_page r = p \<and> raw_views r = v \<and> raw_generation r = g)
    \<longleftrightarrow> c p = Some v"
proof -
  have g: "g = newest (- 1) (raw_entries s rs)" and c: "c p = last_views g p (raw_entries s rs)" 
    using assms(3) by (auto simp: window_fold_closed split: option.splits)
  note spec = by_key_spec [OF pos, of s p, folded g]
  show ?thesis
  proof
    assume "\<exists>r \<in> set (latest n rs). raw_start r = s \<and> raw_page r = p \<and> raw_views r = v \<and> raw_generation r = g"
    then obtain r where "map_of (by_key rs) (s, p) = Some r" "raw_views r = v" by (auto simp: latest_member)
    with spec c show "c p = Some v" by (auto simp: map_option_case split: option.splits)
  next
    assume "c p = Some v"
    with spec c obtain r where r: "map_of (by_key rs) (s, p) = Some r" "raw_generation r = g" "raw_views r = v"
      by (auto simp: map_option_case split: option.splits)
    with by_key_key [OF r(1)] assms(2) show
      "\<exists>r \<in> set (latest n rs). raw_start r = s \<and> raw_page r = p \<and> raw_views r = v \<and> raw_generation r = g"
      by (intro bexI [of _ r]) (auto simp: latest_member)
  qed
qed

section \<open>Properties\<close>

text \<open>
  C3: After any batch of results, in any order and from any mix of generations, every window in
  Redis holds exactly the newest generation it was ever given, and per page that generation's last
  result: it never moves back to an older generation, no page of an older generation lingers, and
  results past their retention change nothing.
\<close>

theorem windows_hold_newest_generation:
  assumes "redis_server rd db now" and "windows_ok (db w) prefix"
    and "\<forall>r \<in> set rs. now w < win_end r + retention"
    and "run_scripts rd prefix retention t None rs w = (out, w')"
    and "window_of (db w) prefix s = (g, c)"
  shows "window_of (db w') prefix s =
      (newest g (live_entries retention t s rs),
       (\<lambda>p. case last_views (newest g (live_entries retention t s rs)) p (live_entries retention t s rs) of
          Some v \<Rightarrow> Some v
        | None \<Rightarrow> if newest g (live_entries retention t s rs) = g then c p else None))
    \<and> g \<le> fst (window_of (db w') prefix s)"
proof -
  obtain n where n: "length rs \<le> n"
    "window_of (db w') prefix s = window_fold (live_entries retention t s (take n rs)) (window_of (db w) prefix s)"
    using redis_server.run_scripts_refines [OF assms(1-4)] by blast
  then show ?thesis by (simp add: assms(5) window_fold_closed newest_ge)
qed

text \<open>
  A batch that a lost connection cut short anywhere and that is then written again leaves
  every window as one undisturbed run would have: at-least-once delivery converges.
\<close>

theorem retried_batch_converges:
  assumes "redis_server rd db now" and "windows_ok (db w) prefix"
    and "\<forall>r \<in> set rs. now w < win_end r + retention \<and> t \<le> t' \<and> t' < win_end r + retention"
    and "run_scripts rd prefix retention t lost rs w = (out, w1)"
    and "run_scripts rd prefix retention t' None rs w1 = (out', w2)"
    and "run_scripts rd prefix retention t' None rs w = (out'', w3)"
  shows "window_of (db w2) prefix s = window_of (db w3) prefix s"
proof -
  have clock: "\<forall>r \<in> set rs. now w < win_end r + retention" using assms(3) by blast
  have all: "live_entries retention u s xs = map entry_of (filter (\<lambda>r. win_start r = s) xs)"
    if "set xs \<subseteq> set rs" "u \<in> {t, t'}" for u xs
    unfolding live_entries_def using that assms(3)
    by (intro arg_cong [of _ _ "map entry_of"] filter_cong) (auto dest!: subsetD intro: le_less_trans)
  note first = redis_server.run_scripts_refines [OF assms(1,2) clock assms(4)]
  obtain n where n: "window_of (db w1) prefix s = window_fold (live_entries retention t s (take n rs)) (window_of (db w) prefix s)"
    using first by blast
  have clock1: "\<forall>r \<in> set rs. now w1 < win_end r + retention" using clock first by simp
  obtain m where m: "length rs \<le> m"
    "window_of (db w2) prefix s = window_fold (live_entries retention t' s (take m rs)) (window_of (db w1) prefix s)"
    using redis_server.run_scripts_refines [OF assms(1) _ clock1 assms(5)] first by blast
  obtain k where k: "length rs \<le> k"
    "window_of (db w3) prefix s = window_fold (live_entries retention t' s (take k rs)) (window_of (db w) prefix s)"
    using redis_server.run_scripts_refines [OF assms(1,2) clock assms(6)] by blast
  have "set (live_entries retention t s (take n rs)) \<subseteq> set (live_entries retention t' s rs)"
    using all [of "take n rs" t] all [of rs t'] by (auto simp: set_take_subset dest: in_set_takeD)
  from window_fold_replay [OF this] show ?thesis using n m k by simp
qed

text \<open>
  The consumer's offsets are committed only when every result of the batch has been applied
  to Redis; otherwise every partition goes back to the batch's first offset and the retry delay
  stays within its cap.
\<close>

theorem windows_commit_after_write:
  assumes "redis_server rd db now" and "windows_ok (db w) prefix"
    and "\<forall>r \<in> set (fst (batch_results b)). now w < win_end r + retention"
    and "run_poll rd prefix retention clock lost b (retry, w) = (effects, retry', w')" and "b \<noteq> []"
  shows "if Commit \<in> set effects
    then \<forall>s. window_of (db w') prefix s
      = window_fold (live_entries retention (int_of_float clock) s (fst (batch_results b))) (window_of (db w) prefix s)
    else effects = [Seek (rewind b), Sleep retry] \<and> retry' \<le> RETRY_MAX_SECONDS"
proof -
  obtain rs bad where rs: "batch_results b = (rs, bad)" by (cases "batch_results b")
  obtain out w1 where out: "write_results rd prefix retention clock lost rs w = (out, w1)"
    by (cases "write_results rd prefix retention clock lost rs w")
  show ?thesis
  proof (cases out)
    case None
    then show ?thesis using assms(4,5) rs out by (auto simp: run_poll_def apply_batch_def)
  next
    case (Some xs)
    have run: "effects = [Commit, Announce (hint_windows (map fst (filter (\<lambda>(r, x). x = WRITTEN) (zip rs xs))))]" "w' = w1"
      using assms(4,5) rs out Some by (auto simp: run_poll_def apply_batch_def Let_def)
    have "window_of (db w1) prefix s
        = window_fold (live_entries retention (int_of_float clock) s rs) (window_of (db w) prefix s)" for s
    proof (cases "rs = []")
      case True
      then show ?thesis using out Some by (simp add: write_results_def live_entries_def)
    next
      case False
      then have "run_scripts rd prefix retention (int_of_float clock) lost rs w = (Some xs, w1)"
        using out Some by (simp add: write_results_def)
      from redis_server.run_scripts_refines [OF assms(1,2) _ this] assms(3) rs obtain n where "length rs \<le> n"
        "window_of (db w1) prefix s = window_fold (live_entries retention (int_of_float clock) s (take n rs)) (window_of (db w) prefix s)"
        by auto
      then show ?thesis by simp
    qed
    then show ?thesis using run rs by simp
  qed
qed

section \<open>Witnesses\<close>

definition ex_keyspace :: ref_keyspace where
  "ex_keyspace = \<lparr>ref_db = Map.empty, ref_now = 100\<rparr>"

definition ex_results :: "window_result list" where
  "ex_results =
     [\<lparr>win_start = 90, win_end = 100, win_page = ''/a'', win_views = 3, win_generation = 1\<rparr>,
      \<lparr>win_start = 90, win_end = 100, win_page = ''/b'', win_views = 5, win_generation = 2\<rparr>,
      \<lparr>win_start = 90, win_end = 100, win_page = ''/a'', win_views = 4, win_generation = 1\<rparr>]"

lemma ex_keyspace_ok: "windows_ok (ref_db ex_keyspace) []"
  by (simp add: windows_ok_def ex_keyspace_def generation_at_def)

lemma ex_window: "window_of (ref_db ex_keyspace) [] 90 = (- 1, \<lambda>p. None)"
  by (simp add: window_of_def ex_keyspace_def generation_at_def)

lemma ex_entries: "live_entries 60 100 90 ex_results = [(1, ''/a'', 3), (2, ''/b'', 5), (1, ''/a'', 4)]"
  by (simp add: live_entries_def ex_results_def entry_of_def)

theorem windows_hold_newest_generation_witness:
  "\<exists>out w'. run_scripts ref_redis [] 60 100 None ex_results ex_keyspace = (out, w')
     \<and> window_of (ref_db w') [] 90 = (2, [''/b'' \<mapsto> 5])"
proof -
  obtain out w' where run: "run_scripts ref_redis [] 60 100 None ex_results ex_keyspace = (out, w')" by fastforce
  have clock: "\<forall>r \<in> set ex_results. ref_now ex_keyspace < win_end r + 60"
    by (simp add: ex_results_def ex_keyspace_def)
  have "newest (- 1) [(1, ''/a'', 3), (2, ''/b'', 5), (1, ''/a'', 4)] = 2"
    "last_views 2 p [(1, ''/a'', 3), (2, ''/b'', 5), (1, ''/a'', 4)] = [''/b'' \<mapsto> 5] p" for p
    by (simp_all add: newest_def last_views_def)
  with windows_hold_newest_generation [OF ref_server.redis_server_axioms ex_keyspace_ok clock run ex_window] run
  show ?thesis unfolding ex_entries by (auto simp: fun_eq_iff)
qed

theorem retried_batch_converges_witness:
  "\<exists>w1 w2 w3. run_scripts ref_redis [] 60 100 (Some 1) ex_results ex_keyspace = (None, w1)
     \<and> window_of (ref_db w2) [] 90 = window_of (ref_db w3) [] 90
     \<and> w2 = snd (run_scripts ref_redis [] 60 101 None ex_results w1)
     \<and> w3 = snd (run_scripts ref_redis [] 60 101 None ex_results ex_keyspace)"
proof -
  obtain out w1 where r1: "run_scripts ref_redis [] 60 100 (Some 1) ex_results ex_keyspace = (out, w1)" by fastforce
  have "out = None" using r1 by (simp add: ex_results_def split: prod.splits option.splits)
  with r1 show ?thesis
    using retried_batch_converges [OF ref_server.redis_server_axioms ex_keyspace_ok _ r1
        prod.collapse [symmetric] prod.collapse [symmetric], where t' = 101 and s = 90]
    by (auto simp: ex_results_def ex_keyspace_def)
qed

theorem windows_commit_after_write_witness:
  "\<exists>effects retry' w'. run_poll ref_redis [] 60 100 (Some 0) [(0, [\<lparr>msg_offset = 7, msg_value = None\<rparr>])] (1, ex_keyspace)
     = (effects, retry', w') \<and> Commit \<in> set effects
     \<and> window_of (ref_db w') [] 90 = window_of (ref_db ex_keyspace) [] 90"
proof -
  let ?b = "[(0::nat, [\<lparr>msg_offset = 7, msg_value = None\<rparr>])]"
  obtain effects retry' w' where run: "run_poll ref_redis [] 60 100 (Some 0) ?b (1, ex_keyspace) = (effects, retry', w')"
    by (metis prod_cases3)
  have rs: "batch_results ?b = ([], 1)" by (simp add: batch_results_def parse_result_def List.map_filter_def)
  have "Commit \<in> set effects" using run rs by (auto simp: run_poll_def apply_batch_def write_results_def Let_def)
  with windows_commit_after_write [OF ref_server.redis_server_axioms ex_keyspace_ok _ run] run rs show ?thesis
    by (simp add: live_entries_def)
qed

end
