(* ===== verification/Topic_Read.thy ===== *)
theory Topic_Read
  imports Windows Coordination Keeper_Decision
begin

text \<open>
  The rest of \<open>windows.py\<close>: \<open>read_all\<close>, which reads the results' topic up to the end it had when
  the read began, and \<open>running_job\<close>. Kafka's consumer is a record of calls; the locale
  \<open>topic_reader\<close> holds what its documentation promises.
\<close>

section \<open>Reading to a fixed end\<close>

type_synonym tp = nat

text \<open>
  The consumer's calls. \<open>None\<close> is an exception (a timeout); a message is its offset and what
  \<open>json.loads\<close> makes of its value, \<open>None\<close> when that raises.
\<close>

type_synonym message = "int \<times> json option"

record 's kafka_reader =
  partitions_for_topic :: "'s \<Rightarrow> tp set option"
  assign :: "tp list \<Rightarrow> 's \<Rightarrow> 's"
  beginning_offsets :: "tp list \<Rightarrow> 's \<Rightarrow> ((tp \<Rightarrow> int) \<times> 's) option"
  end_offsets :: "tp list \<Rightarrow> 's \<Rightarrow> ((tp \<Rightarrow> int) \<times> 's) option"
  seek :: "tp \<Rightarrow> int \<Rightarrow> 's \<Rightarrow> 's"
  poll :: "'s \<Rightarrow> ((tp \<times> message list) list \<times> 's) option"
  position :: "tp \<Rightarrow> 's \<Rightarrow> int option option"

record snapshot =
  snap_records :: "json list"
  snap_expected :: int
  snap_complete :: bool

text \<open>The messages of a batch below the ends; \<open>None\<close> when one of them does not decode.\<close>

definition below_end :: "(tp \<Rightarrow> int) \<Rightarrow> (tp \<times> message list) list \<Rightarrow> (tp \<times> json option) list" where
  "below_end ends batch =
     concat (map (\<lambda>(p, ms). map (\<lambda>m. (p, snd m)) (filter (\<lambda>m. fst m < ends p) ms)) batch)"

definition decoded :: "(tp \<times> json option) list \<Rightarrow> json list option" where
  "decoded ms = (if list_all (\<lambda>m. snd m \<noteq> None) ms then Some (map (the \<circ> snd) ms) else None)"

text \<open>The partitions whose position is still before their end.\<close>

fun still_remaining ::
    "'s kafka_reader \<Rightarrow> (tp \<Rightarrow> int) \<Rightarrow> 's \<Rightarrow> tp list \<Rightarrow> tp list option" where
  "still_remaining k ends s [] = Some []"
| "still_remaining k ends s (p # ps) =
     (case position k p s of
        None \<Rightarrow> None
      | Some known \<Rightarrow>
          (case still_remaining k ends s ps of
             None \<Rightarrow> None
           | Some rest \<Rightarrow>
               Some (if (case known of Some a \<Rightarrow> a | None \<Rightarrow> 0) < ends p then p # rest else rest)))"

text \<open>
  The loop. The first argument counts how often the clock is still before the deadline when the
  loop looks; the records read so far, and whether nothing remains.
\<close>

fun read_loop ::
    "nat \<Rightarrow> 's kafka_reader \<Rightarrow> (tp \<Rightarrow> int) \<Rightarrow> tp list \<Rightarrow> json list \<Rightarrow> 's \<Rightarrow> (json list \<times> bool) option" where
  "read_loop looks k ends [] acc s = Some (acc, True)"
| "read_loop 0 k ends (p # ps) acc s = Some (acc, False)"
| "read_loop (Suc looks) k ends (p # ps) acc s =
     (case poll k s of
        None \<Rightarrow> None
      | Some (batch, s1) \<Rightarrow>
          (case decoded (below_end ends batch) of
             None \<Rightarrow> None
           | Some js \<Rightarrow>
               (case still_remaining k ends s1 (p # ps) of
                  None \<Rightarrow> None
                | Some rest \<Rightarrow> read_loop looks k ends rest (acc @ js) s1)))"

definition seek_all :: "'s kafka_reader \<Rightarrow> (tp \<Rightarrow> int) \<Rightarrow> tp list \<Rightarrow> 's \<Rightarrow> 's" where
  "seek_all k starts ps s = foldl (\<lambda>s p. seek k p (starts p) s) s ps"

text \<open>\<open>None\<close> is an exception, with no snapshot at all; the consumer is closed either way.\<close>

definition read_all :: "nat \<Rightarrow> 's kafka_reader \<Rightarrow> 's \<Rightarrow> snapshot option" where
  "read_all looks k s =
     (let ps = (case partitions_for_topic k s of Some P \<Rightarrow> sorted_list_of_set P | None \<Rightarrow> []) in
      if ps = [] then Some \<lparr>snap_records = [], snap_expected = 0, snap_complete = True\<rparr>
      else
        Option.bind (beginning_offsets k ps (assign k ps s)) (\<lambda>(starts, s1).
        Option.bind (end_offsets k ps s1) (\<lambda>(ends, s2).
        Option.bind (read_loop looks k ends (filter (\<lambda>p. starts p < ends p) ps) [] (seek_all k starts ps s2)) (\<lambda>(js, done_all).
          Some \<lparr>snap_records = js, snap_expected = sum_list (map (\<lambda>p. ends p - starts p) ps),
            snap_complete = done_all\<rparr>))))"

section \<open>The job the keeper last recorded\<close>

text \<open>
  \<open>running_job\<close>: \<open>None\<close> is an exception of \<open>Record.parse\<close>, \<open>Some None\<close> the \<open>None\<close> the function
  returns. The connection may fail; a read that raises is unavailable.
\<close>

definition running_job :: "'w kazoo option \<Rightarrow> string \<Rightarrow> 'w \<Rightarrow> string option option" where
  "running_job client zroot w =
     (case client of
        None \<Rightarrow> Some None
      | Some zk \<Rightarrow>
          (case read_flink_record zk zroot w of
             Inl _ \<Rightarrow> Some None
           | Inr (raw, version) \<Rightarrow>
               map_option (\<lambda>r. Option.bind (map_of (attempts r) (generation r)) job_id) (parse_record raw)))"

section \<open>What Kafka promises a reader\<close>

text \<open>
  A partition's records by offset; there may be gaps. A record stays what it is; records that
  arrive during the read have higher offsets, and retention is taken to remove none meanwhile.
\<close>

type_synonym topic_log = "tp \<Rightarrow> int \<Rightarrow> json option option"

definition stored :: "topic_log \<Rightarrow> tp \<Rightarrow> int \<Rightarrow> int \<Rightarrow> message list" where
  "stored tlog p a b = concat (map (\<lambda>i. case tlog p i of Some v \<Rightarrow> [(i, v)] | None \<Rightarrow> []) [a..b - 1])"

definition messages_of :: "tp \<Rightarrow> (tp \<times> message list) list \<Rightarrow> message list" where
  "messages_of p batch = concat (map snd (filter (\<lambda>(q, ms). q = p) batch))"

definition of_partition :: "tp \<Rightarrow> (tp \<times> 'v) list \<Rightarrow> 'v list" where
  "of_partition p tagged = map snd (filter (\<lambda>m. fst m = p) tagged)"

lemma of_partition_append [simp]: "of_partition p (xs @ ys) = of_partition p xs @ of_partition p ys"
  by (simp add: of_partition_def)

lemma below_end_partition:
  "of_partition p (below_end ends batch) = map snd (filter (\<lambda>m. fst m < ends p) (messages_of p batch))"
  by (induction batch) (auto simp: below_end_def of_partition_def messages_of_def filter_map comp_def)

lemma below_end_keys: "fst ` set (below_end ends batch) \<subseteq> fst ` set batch"
  by (force simp: below_end_def)

lemma stored_empty [simp]: "b \<le> a \<Longrightarrow> stored tlog p a b = []"
  by (simp add: stored_def)

lemma stored_split:
  assumes "a \<le> b" and "b \<le> c"
  shows "stored tlog p a c = stored tlog p a b @ stored tlog p b c"
proof (cases "b = c")
  case False
  then have "[a..c - 1] = [a..b - 1] @ [b..c - 1]" using assms by (intro upto_split1) simp_all
  then show ?thesis by (simp add: stored_def)
qed simp

lemma stored_offsets: "m \<in> set (stored tlog p a b) \<Longrightarrow> a \<le> fst m \<and> fst m < b"
  by (auto simp: stored_def split: option.splits)

lemma stored_below: "filter (\<lambda>m. fst m < e) (stored tlog p a b) = stored tlog p a (min b e)"
proof (cases "a \<le> e \<and> e \<le> b")
  case True
  then have "stored tlog p a b = stored tlog p a e @ stored tlog p e b" by (intro stored_split) simp_all
  moreover have "filter (\<lambda>m. fst m < e) (stored tlog p a e) = stored tlog p a e"
    by (auto simp: filter_id_conv dest: stored_offsets)
  moreover have "filter (\<lambda>m. fst m < e) (stored tlog p e b) = []"
    by (auto simp: filter_empty_conv dest: stored_offsets)
  ultimately show ?thesis using True by (simp add: min_def)
next
  case False
  then show ?thesis by (auto simp: filter_id_conv filter_empty_conv min_def dest!: stored_offsets)
qed

lemma stored_extend:
  assumes "a \<le> b" and "b \<le> c"
  shows "stored tlog p a (min b e) @ filter (\<lambda>m. fst m < e) (stored tlog p b c) = stored tlog p a (min c e)"
proof (cases "b \<le> e")
  case True
  then show ?thesis using assms stored_split [of a b "min c e" tlog p] by (simp add: stored_below min_def)
next
  case False
  then show ?thesis using assms by (simp add: stored_below min_def)
qed

text \<open>\<open>here\<close> is the consumer's position, and a poll returns what lies between two positions.\<close>

locale topic_reader =
  fixes k :: "'s kafka_reader" and tlog :: topic_log and here :: "'s \<Rightarrow> tp \<Rightarrow> int" and assigned :: "'s \<Rightarrow> tp set"
  assumes assign_assigns: "assigned (assign k ps s) = set ps"
    and beginning_law: "beginning_offsets k bps bs = Some (bo, bs') \<Longrightarrow> assigned bs' = assigned bs \<and> 0 \<le> bo bp"
    and end_law: "end_offsets k eps es = Some (eo, es') \<Longrightarrow> assigned es' = assigned es"
    and seek_law: "assigned (seek k sp so ss) = assigned ss" "here (seek k sp so ss) = (here ss)(sp := so)"
    and poll_keys: "poll k qs = Some (qb, qs') \<Longrightarrow> fst ` set qb \<subseteq> assigned qs \<and> assigned qs' = assigned qs"
    and poll_messages: "poll k ms = Some (mb, ms') \<Longrightarrow> mp \<in> assigned ms
      \<Longrightarrow> here ms mp \<le> here ms' mp \<and> messages_of mp mb = stored tlog mp (here ms mp) (here ms' mp)"
    and position_law: "position k pp pst = Some (Some pa) \<Longrightarrow> pa = here pst pp"
begin

lemma seek_all_here:
  "assigned (seek_all k starts ps s) = assigned s"
  "p \<in> set ps \<Longrightarrow> here (seek_all k starts ps s) p = starts p"
proof -
  show "assigned (seek_all k starts ps s) = assigned s"
    by (induction ps arbitrary: s) (simp_all add: seek_all_def seek_law)
  have "here (seek_all k starts ps s) = (\<lambda>q. if q \<in> set ps then starts q else here s q)"
    by (induction ps arbitrary: s) (auto simp: seek_all_def seek_law fun_eq_iff)
  then show "p \<in> set ps \<Longrightarrow> here (seek_all k starts ps s) p = starts p" by simp
qed

lemma still_remaining_sound:
  assumes "still_remaining k ends s ps = Some rest" and "\<forall>p \<in> set ps. 0 < ends p"
  shows "set rest \<subseteq> set ps \<and> (\<forall>p \<in> set ps - set rest. ends p \<le> here s p)"
  using assms
  by (induction ps arbitrary: rest) (fastforce split: option.splits if_splits dest: position_law)+

text \<open>What has been read: each partition's records from its start to the position or the end.\<close>

definition read_so_far :: "(tp \<Rightarrow> int) \<Rightarrow> (tp \<Rightarrow> int) \<Rightarrow> tp set \<Rightarrow> 's \<Rightarrow> (tp \<times> json option) list \<Rightarrow> bool" where
  "read_so_far starts ends P s tagged \<longleftrightarrow>
     assigned s = P \<and> fst ` set tagged \<subseteq> P
     \<and> (\<forall>p \<in> P. starts p \<le> here s p
          \<and> of_partition p tagged = map snd (stored tlog p (starts p) (min (here s p) (ends p))))"

lemma read_so_far_poll:
  assumes "read_so_far starts ends P s tagged" and "poll k s = Some (batch, s')"
  shows "read_so_far starts ends P s' (tagged @ below_end ends batch)"
proof -
  have P: "assigned s = P" "assigned s' = P" "fst ` set batch \<subseteq> P"
    using assms poll_keys [OF assms(2)] by (auto simp: read_so_far_def)
  have "starts p \<le> here s' p \<and> of_partition p (tagged @ below_end ends batch)
      = map snd (stored tlog p (starts p) (min (here s' p) (ends p)))" if "p \<in> P" for p
  proof -
    have start: "starts p \<le> here s p" and step: "here s p \<le> here s' p"
      and now: "messages_of p batch = stored tlog p (here s p) (here s' p)"
      using that assms(1) P(1) poll_messages [OF assms(2), of p] by (auto simp: read_so_far_def)
    have "of_partition p tagged = map snd (stored tlog p (starts p) (min (here s p) (ends p)))"
      using that assms(1) by (simp add: read_so_far_def)
    with stored_extend [OF start step, of tlog p "ends p"] start step now show ?thesis
      by (simp add: below_end_partition flip: map_append)
  qed
  moreover have "fst ` set (tagged @ below_end ends batch) \<subseteq> P"
    using subset_trans [OF below_end_keys P(3)] assms(1) by (simp add: read_so_far_def image_Un)
  ultimately show ?thesis using P(2) by (simp add: read_so_far_def)
qed

lemma read_loop_reads:
  assumes "read_loop looks k ends rem (map (the \<circ> snd) tagged) s = Some (js, fin)"
    and "read_so_far starts ends P s tagged" and "set rem \<subseteq> P" and "\<forall>p \<in> set rem. 0 < ends p"
    and "\<forall>p \<in> P - set rem. ends p \<le> here s p"
  shows "\<exists>tagged' s'. js = map (the \<circ> snd) tagged' \<and> read_so_far starts ends P s' tagged'
      \<and> (fin \<longrightarrow> (\<forall>p \<in> P. ends p \<le> here s' p))"
  using assms
proof (induction looks arbitrary: rem tagged s)
  case 0
  then show ?case by (cases rem) auto
next
  case (Suc looks)
  show ?case
  proof (cases rem)
    case Nil
    with Suc.prems show ?thesis by auto
  next
    case (Cons p ps)
    with Suc.prems(1) obtain batch s1 js1 rest where polled: "poll k s = Some (batch, s1)"
      and js1: "decoded (below_end ends batch) = Some js1" and rest: "still_remaining k ends s1 rem = Some rest"
      and go: "read_loop looks k ends rest (map (the \<circ> snd) tagged @ js1) s1 = Some (js, fin)"
      by (auto simp: comp_def simp del: still_remaining.simps split: option.splits)
    note still = still_remaining_sound [OF rest Suc.prems(4)]
    have "map (the \<circ> snd) tagged @ js1 = map (the \<circ> snd) (tagged @ below_end ends batch)"
      using js1 by (simp add: decoded_def split: if_splits)
    with go have "read_loop looks k ends rest (map (the \<circ> snd) (tagged @ below_end ends batch)) s1 = Some (js, fin)"
      by simp
    moreover note read_so_far_poll [OF Suc.prems(2) polled] still
    moreover have "ends q \<le> here s1 q" if "q \<in> P - set rest" for q
    proof (cases "q \<in> set rem")
      case False
      with that Suc.prems(5) have "ends q \<le> here s q" by blast
      with that poll_messages [OF polled, of q] Suc.prems(2) show ?thesis by (auto simp: read_so_far_def)
    qed (use that still in blast)
    ultimately show ?thesis using Suc.prems(3,4) by (intro Suc.IH) blast+
  qed
qed

lemma read_all_reads:
  assumes "partitions_for_topic k s = Some P" and "finite P" and "P \<noteq> {}"
    and "beginning_offsets k (sorted_list_of_set P) (assign k (sorted_list_of_set P) s) = Some (starts, s1)"
    and "end_offsets k (sorted_list_of_set P) s1 = Some (ends, s2)" and "read_all looks k s = Some snap"
  shows "\<exists>tagged. snap_records snap = map (the \<circ> snd) tagged \<and> fst ` set tagged \<subseteq> P
      \<and> (\<forall>p \<in> P. \<exists>b \<le> ends p. of_partition p tagged = map snd (stored tlog p (starts p) b)
          \<and> (snap_complete snap \<longrightarrow> b = ends p))"
proof -
  let ?ps = "sorted_list_of_set P" and ?s = "seek_all k starts (sorted_list_of_set P) s2"
  have P: "set ?ps = P" "?ps \<noteq> []" using assms(2,3) by auto
  have starts: "0 \<le> starts p" for p using beginning_law [OF assms(4)] by blast
  have "assigned s2 = P"
    using beginning_law [OF assms(4)] end_law [OF assms(5)] by (simp add: assign_assigns P)
  then have init: "read_so_far starts ends P ?s []"
    using P seek_all_here(1) [of starts ?ps s2] seek_all_here(2) [of _ ?ps starts s2]
    by (simp add: read_so_far_def of_partition_def)
  obtain js fin where loop: "read_loop looks k ends (filter (\<lambda>p. starts p < ends p) ?ps) (map (the \<circ> snd) ([] :: (tp \<times> json option) list)) ?s = Some (js, fin)"
    and snap: "snap_records snap = js" "snap_complete snap = fin"
    using assms(1,4-6) P by (auto simp: read_all_def Let_def split: Option.bind_splits prod.splits)
  have "ends p \<le> here ?s p" if "p \<in> P - set (filter (\<lambda>p. starts p < ends p) ?ps)" for p
    using that P seek_all_here(2) [of p ?ps starts s2] by auto
  with read_loop_reads [OF loop init] P starts obtain tagged s' where
    "js = map (the \<circ> snd) tagged" "read_so_far starts ends P s' tagged" "fin \<longrightarrow> (\<forall>p \<in> P. ends p \<le> here s' p)"
    by (force intro: le_less_trans)
  then show ?thesis using snap
    by (intro exI [of _ tagged]) (force simp: read_so_far_def min_def)
qed

end

section \<open>A reference consumer\<close>

text \<open>
  The partitions' records, the positions and the assignment; a poll reads at most two records of
  each assigned partition.
\<close>

record ref_consumer =
  rc_here :: "tp \<Rightarrow> int"
  rc_assigned :: "tp list"

definition ref_log :: "(tp \<times> json option list) list \<Rightarrow> topic_log" where
  "ref_log t p i = (case map_of t p of
     Some vs \<Rightarrow> if 0 \<le> i \<and> i < int (length vs) then Some (vs ! nat i) else None | None \<Rightarrow> None)"

definition ref_end :: "(tp \<times> json option list) list \<Rightarrow> tp \<Rightarrow> int" where
  "ref_end t p = (case map_of t p of Some vs \<Rightarrow> int (length vs) | None \<Rightarrow> 0)"

definition ref_next :: "(tp \<times> json option list) list \<Rightarrow> ref_consumer \<Rightarrow> tp \<Rightarrow> int" where
  "ref_next t s p = max (rc_here s p) (min (rc_here s p + 2) (ref_end t p))"

definition ref_reader :: "(tp \<times> json option list) list \<Rightarrow> ref_consumer kafka_reader" where
  "ref_reader t =
     \<lparr>partitions_for_topic = \<lambda>s. Some (fst ` set t),
      assign = \<lambda>ps s. s\<lparr>rc_assigned := ps\<rparr>,
      beginning_offsets = \<lambda>ps s. Some (\<lambda>p. 0, s),
      end_offsets = \<lambda>ps s. Some (ref_end t, s),
      seek = \<lambda>p a s. s\<lparr>rc_here := (rc_here s)(p := a)\<rparr>,
      poll = \<lambda>s. Some (map (\<lambda>p. (p, stored (ref_log t) p (rc_here s p) (ref_next t s p))) (remdups (rc_assigned s)),
        s\<lparr>rc_here := \<lambda>p. if p \<in> set (rc_assigned s) then ref_next t s p else rc_here s p\<rparr>),
      position = \<lambda>p s. Some (Some (rc_here s p))\<rparr>"

lemma messages_of_map:
  "distinct qs \<Longrightarrow> messages_of p (map (\<lambda>q. (q, f q)) qs) = (if p \<in> set qs then f p else [])"
  by (induction qs) (auto simp: messages_of_def)

interpretation ref_reading: topic_reader "ref_reader t" "ref_log t" rc_here "\<lambda>s. set (rc_assigned s)" for t
  by unfold_locales (auto simp: ref_reader_def messages_of_map ref_next_def)

section \<open>Two readers of one topic\<close>

text \<open>
  Results are keyed by page, so a page's results are on one partition. Two consumers see the same
  records of each partition in order, but interleaved differently; that makes no difference to a
  window.
\<close>

definition shows_result :: "raw_result \<Rightarrow> window_result \<Rightarrow> bool" where
  "shows_result raw r \<longleftrightarrow> iso (win_start r) = Some (raw_start raw) \<and> raw_page raw = win_page r
     \<and> raw_views raw = win_views r \<and> raw_generation raw = win_generation r"

lemma last_views_page: "last_views g p es = last_views g p (filter (\<lambda>e. fst (snd e) = p) es)"
  by (induction es rule: rev_induct) auto

lemma window_fold_by_page:
  assumes "\<And>p. filter (\<lambda>e. fst (snd e) = p) es = filter (\<lambda>e. fst (snd e) = p) es'"
  shows "window_fold es st = window_fold es' st"
proof -
  have "e \<in> set es \<longleftrightarrow> e \<in> set es'" for e
    using arg_cong [OF assms [of "fst (snd e)"], of "\<lambda>xs. e \<in> set xs"] by simp
  then have "set es = set es'" by blast
  then have "newest g es = newest g es'" for g by (simp add: newest_Max)
  moreover have "last_views g p es = last_views g p es'" for g p
    using last_views_page [of g p es] last_views_page [of g p es'] assms [of p] by simp
  ultimately show ?thesis by (cases st) (simp only: window_fold_closed)
qed

lemma filter_one_partition:
  assumes "\<forall>(p, x) \<in> set tagged. P x \<longrightarrow> p = q"
  shows "filter P (map snd tagged) = filter P (of_partition q tagged)"
  using assms by (induction tagged) (auto simp: of_partition_def)

lemma filter_related:
  assumes "list_all2 R xs ys" and "\<And>x y. R x y \<Longrightarrow> P x \<longleftrightarrow> Q y" and "\<And>x y. R x y \<Longrightarrow> f x = g y"
  shows "map f (filter P xs) = map g (filter Q ys)"
  using assms(1) by (induction rule: list_all2_induct) (auto simp: assms(2,3))

lemma iso_inject: "iso a = Some x \<Longrightarrow> iso b = Some x \<Longrightarrow> a = b"
  using epoch_seconds_iso by (metis option.inject)

lemma raw_entries_page:
  "filter (\<lambda>e. fst (snd e) = pg) (raw_entries start rs)
    = map (\<lambda>r. (raw_generation r, raw_page r, raw_views r)) (filter (\<lambda>r. raw_start r = start \<and> raw_page r = pg) rs)"
  by (induction rs) (auto simp: raw_entries_def)

lemma live_entries_page:
  "\<forall>r \<in> set rs. t < win_end r + retention \<Longrightarrow> filter (\<lambda>e. fst (snd e) = pg) (live_entries retention t s rs)
    = map entry_of (filter (\<lambda>r. win_start r = s \<and> win_page r = pg) rs)"
  by (induction rs) (auto simp: live_entries_def entry_of_def)

lemma interleavings_agree:
  assumes same: "\<forall>p. list_all2 shows_result (of_partition p seen) (of_partition p written)"
    and keyed: "\<forall>(p, r) \<in> set written. p = part (win_page r)"
    and live: "\<forall>r \<in> snd ` set written. t < win_end r + retention" and s: "iso s = Some start"
  shows "window_fold (raw_entries start (map snd seen)) st
    = window_fold (live_entries retention t s (map snd written)) st"
proof (rule window_fold_by_page)
  fix pg
  let ?P = "\<lambda>r. raw_start r = start \<and> raw_page r = pg"
  let ?Q = "\<lambda>r. win_start r = s \<and> win_page r = pg"
  have keyed': "p = part (raw_page r)" if "(p, r) \<in> set seen" for p r
  proof -
    have "r \<in> set (of_partition p seen)" using that by (force simp: of_partition_def)
    then obtain r' where "r' \<in> set (of_partition p written)" "shows_result r r'"
      using same by (metis list_all2_conv_all_nth in_set_conv_nth)
    then show ?thesis using keyed by (auto simp: of_partition_def shows_result_def)
  qed
  have "filter ?P (map snd seen) = filter ?P (of_partition (part pg) seen)"
    by (rule filter_one_partition) (auto dest: keyed')
  moreover have "filter ?Q (map snd written) = filter ?Q (of_partition (part pg) written)"
    by (rule filter_one_partition) (use keyed in auto)
  moreover have "map (\<lambda>r. (raw_generation r, raw_page r, raw_views r)) (filter ?P (of_partition (part pg) seen))
      = map entry_of (filter ?Q (of_partition (part pg) written))"
    using same s by (intro filter_related [where R = shows_result])
      (auto simp: shows_result_def entry_of_def dest: iso_inject)
  ultimately show "filter (\<lambda>e. fst (snd e) = pg) (raw_entries start (map snd seen))
      = filter (\<lambda>e. fst (snd e) = pg) (live_entries retention t s (map snd written))"
    using live by (simp only: raw_entries_page live_entries_page set_map)
qed

section \<open>Properties\<close>

text \<open>
  C29: what \<open>read_all\<close> returns is, for every partition, the records from its first offset on without
  a gap and in order, none past the end the topic had when the read began, whatever arrives
  meanwhile; and a snapshot called complete holds every record up to that end in every partition.
\<close>

theorem complete_read_is_whole_topic:
  assumes "topic_reader k tlog here assigned" and "partitions_for_topic k s = Some P" and "finite P" and "P \<noteq> {}"
    and "beginning_offsets k (sorted_list_of_set P) (assign k (sorted_list_of_set P) s) = Some (starts, s1)"
    and "end_offsets k (sorted_list_of_set P) s1 = Some (ends, s2)" and "read_all looks k s = Some snap"
  shows "\<exists>tagged. snap_records snap = map (the \<circ> snd) tagged \<and> fst ` set tagged \<subseteq> P
      \<and> (\<forall>p \<in> P. \<exists>b \<le> ends p. of_partition p tagged = map snd (stored tlog p (starts p) b)
          \<and> (snap_complete snap \<longrightarrow> b = ends p))"
  by (rule topic_reader.read_all_reads [OF assms])

definition ex_topic :: "(tp \<times> json option list) list" where
  "ex_topic = [(0, [Some (JInt 1), Some (JInt 2), Some (JInt 3)]), (1, [Some (JInt 4)])]"

definition ex_reader :: ref_consumer where
  "ex_reader = \<lparr>rc_here = \<lambda>_. 0, rc_assigned = []\<rparr>"

theorem complete_read_is_whole_topic_witness:
  "\<exists>tagged. [JInt 1, JInt 2, JInt 4, JInt 3] = map (the \<circ> snd) tagged \<and> fst ` set tagged \<subseteq> {0, 1}
      \<and> (\<forall>p \<in> {0, 1}. \<exists>b \<le> ref_end ex_topic p. of_partition p tagged = map snd (stored (ref_log ex_topic) p 0 b)
          \<and> (True \<longrightarrow> b = ref_end ex_topic p))"
proof -
  have "read_all 2 (ref_reader ex_topic) ex_reader
      = Some \<lparr>snap_records = [JInt 1, JInt 2, JInt 4, JInt 3], snap_expected = 4, snap_complete = True\<rparr>"
    by code_simp
  from complete_read_is_whole_topic [OF ref_reading.topic_reader_axioms _ _ _ _ _ this, of "{0, 1}" "\<lambda>p. 0" _ "ref_end ex_topic"]
  show ?thesis by (simp add: ref_reader_def ex_topic_def)
qed

end
