(* ===== verification/Windows_Loop.thy ===== *)
theory Windows_Loop
  imports Topic_Read
begin

text \<open>
  The loop of \<open>windows_writer.py\<close> over Kafka and Redis together: \<open>run\<close> with its rewinds and
  commits, over any number of lives of the process. A failed batch leaves some of its results in
  Redis and is polled again, in other batches; a restart goes back to the committed offsets. The
  windows converge all the same.
\<close>

section \<open>The loop\<close>

text \<open>
  One poll of \<open>run\<close> meets: what happened to Redis since the last one, the clock, where the
  connection is lost, and whether the commit is stored. A failed commit is only logged, so the
  code goes on alike.
\<close>

record 'w writer_turn =
  turn_env :: "'w \<Rightarrow> 'w"
  turn_clock :: rat
  turn_lost :: "nat option"
  turn_stored :: bool

record ('s, 'w) writer_run =
  wr_consumer :: 's
  wr_committed :: "tp \<Rightarrow> int"
  wr_retry :: rat
  wr_world :: 'w
  wr_effects :: "writer_effect list"

definition windows_batch :: "(tp \<times> Topic_Read.message list) list \<Rightarrow> batch" where
  "windows_batch polled = map (\<lambda>(p, ms). (p, map (\<lambda>(i, v). \<lparr>msg_offset = i, msg_value = v\<rparr>) ms)) polled"

text \<open>What the consumer does with \<open>seek\<close> and \<open>commit\<close>; the offsets it commits are \<open>offsets\<close>.\<close>

definition seek_to :: "'s kafka_reader \<Rightarrow> (tp \<times> int) list \<Rightarrow> 's \<Rightarrow> 's" where
  "seek_to k ps s = foldl (\<lambda>s (p, a). seek k p a s) s ps"

fun obey ::
    "'s kafka_reader \<Rightarrow> ('s \<Rightarrow> tp \<Rightarrow> int) \<Rightarrow> bool \<Rightarrow> 's \<times> (tp \<Rightarrow> int) \<Rightarrow> writer_effect \<Rightarrow> 's \<times> (tp \<Rightarrow> int)" where
  "obey k offsets stores (s, c) (Seek ps) = (seek_to k ps s, c)"
| "obey k offsets stores (s, c) Commit = (s, if stores then offsets s else c)"
| "obey k offsets stores (s, c) (Sleep _) = (s, c)"
| "obey k offsets stores (s, c) (Announce _) = (s, c)"

text \<open>\<open>run\<close>: false when a poll raised, which leaves it; true when the polls are used up.\<close>

fun run_writer ::
    "'w redis \<Rightarrow> string \<Rightarrow> int \<Rightarrow> 's kafka_reader \<Rightarrow> ('s \<Rightarrow> tp \<Rightarrow> int) \<Rightarrow> 'w writer_turn list
      \<Rightarrow> ('s, 'w) writer_run \<Rightarrow> ('s, 'w) writer_run \<times> bool" where
  "run_writer rd pre retention k offsets [] st = (st, True)"
| "run_writer rd pre retention k offsets (t # ts) st =
     (case poll k (wr_consumer st) of
        None \<Rightarrow> (st, False)
      | Some (polled, s1) \<Rightarrow>
          (case run_poll rd pre retention (turn_clock t) (turn_lost t) (windows_batch polled)
              (wr_retry st, turn_env t (wr_world st)) of
             (effects, retry, w) \<Rightarrow>
               (case foldl (obey k offsets (turn_stored t)) (s1, wr_committed st) effects of
                  (s2, c) \<Rightarrow>
                    run_writer rd pre retention k offsets ts
                      \<lparr>wr_consumer = s2, wr_committed = c, wr_retry = retry, wr_world = w,
                       wr_effects = wr_effects st @ effects\<rparr>)))"

text \<open>
  Lives of the process: each joins the group at the committed offsets and ends anywhere, a crash
  inside a batch being a lost connection with nothing after it.
\<close>

definition start_writer :: "((tp \<Rightarrow> int) \<Rightarrow> 's) \<Rightarrow> (tp \<Rightarrow> int) \<Rightarrow> 'w \<Rightarrow> ('s, 'w) writer_run" where
  "start_writer join c w =
     \<lparr>wr_consumer = join c, wr_committed = c, wr_retry = RETRY_INITIAL_SECONDS, wr_world = w, wr_effects = []\<rparr>"

fun writer_lives ::
    "'w redis \<Rightarrow> string \<Rightarrow> int \<Rightarrow> 's kafka_reader \<Rightarrow> ('s \<Rightarrow> tp \<Rightarrow> int) \<Rightarrow> ((tp \<Rightarrow> int) \<Rightarrow> 's)
      \<Rightarrow> 'w writer_turn list list \<Rightarrow> (tp \<Rightarrow> int) \<times> 'w \<Rightarrow> (tp \<Rightarrow> int) \<times> 'w" where
  "writer_lives rd pre retention k offsets join [] cw = cw"
| "writer_lives rd pre retention k offsets join (l # ls) cw =
     (case run_writer rd pre retention k offsets l (start_writer join (fst cw) (snd cw)) of
        (st, polled_all) \<Rightarrow> writer_lives rd pre retention k offsets join ls (wr_committed st, wr_world st))"

section \<open>The results of a log\<close>

definition log_results :: "topic_log \<Rightarrow> tp \<Rightarrow> int \<Rightarrow> int \<Rightarrow> window_result list" where
  "log_results tlog p a b = List.map_filter (parse_result \<circ> snd) (stored tlog p a b)"

definition beyond :: "topic_log \<Rightarrow> tp \<Rightarrow> int \<Rightarrow> window_result set" where
  "beyond tlog p a = {r. \<exists>i v. a \<le> i \<and> tlog p i = Some v \<and> parse_result v = Some r}"

definition window_entries :: "int \<Rightarrow> window_result list \<Rightarrow> (int \<times> string \<times> int) list" where
  "window_entries s rs = map entry_of (filter (\<lambda>r. win_start r = s) rs)"

definition tagged_results :: "(tp \<times> Topic_Read.message list) list \<Rightarrow> (tp \<times> window_result) list" where
  "tagged_results polled = concat (map (\<lambda>(p, ms). map (Pair p) (List.map_filter (parse_result \<circ> snd) ms)) polled)"

lemma window_entries_append [simp]: "window_entries s (xs @ ys) = window_entries s xs @ window_entries s ys"
  by (simp add: window_entries_def)

lemma window_entries_mono: "set xs \<subseteq> set ys \<Longrightarrow> set (window_entries s xs) \<subseteq> set (window_entries s ys)"
  by (auto simp: window_entries_def)

lemma live_all:
  "\<forall>r \<in> set rs. t < win_end r + retention \<Longrightarrow> live_entries retention t s rs = window_entries s rs"
  unfolding live_entries_def window_entries_def by (intro arg_cong [where f = "map entry_of"] filter_cong) auto

lemma log_results_empty [simp]: "b \<le> a \<Longrightarrow> log_results tlog p a b = []"
  by (simp add: log_results_def List.map_filter_def)

lemma log_results_split:
  "a \<le> b \<Longrightarrow> b \<le> c \<Longrightarrow> log_results tlog p a c = log_results tlog p a b @ log_results tlog p b c"
  by (simp add: log_results_def stored_split [of a b c] map_filter_append)

lemma stored_member: "m \<in> set (stored tlog p a b) \<longleftrightarrow> a \<le> fst m \<and> fst m < b \<and> tlog p (fst m) = Some (snd m)"
  by (force simp: stored_def split: option.splits)

lemma log_results_member:
  "r \<in> set (log_results tlog p a b) \<longleftrightarrow> (\<exists>i v. a \<le> i \<and> i < b \<and> tlog p i = Some v \<and> parse_result v = Some r)"
proof -
  have "r \<in> set (log_results tlog p a b) \<longleftrightarrow> (\<exists>m \<in> set (stored tlog p a b). parse_result (snd m) = Some r)"
    unfolding log_results_def List.map_filter_def by (auto simp: image_iff split: prod.splits) force+
  then show ?thesis by (metis stored_member fst_conv snd_conv)
qed

lemma log_results_beyond: "set (log_results tlog p a b) \<subseteq> beyond tlog p a"
  unfolding log_results_member beyond_def subset_iff by blast

lemma beyond_mono: "a \<le> b \<Longrightarrow> beyond tlog p b \<subseteq> beyond tlog p a"
  unfolding beyond_def using order_trans by blast

lemma beyond_split: "beyond tlog p a \<subseteq> set (log_results tlog p a b) \<union> beyond tlog p b"
  unfolding beyond_def log_results_member subset_iff Un_iff mem_Collect_eq by (metis not_le)

text \<open>The first message returned: nothing is stored between the position and it.\<close>

lemma stored_first:
  assumes "stored tlog p a b = (f, v) # ms"
  shows "a \<le> f \<and> log_results tlog p a f = []"
proof -
  have f: "a \<le> f" "f < b" using assms stored_member [of "(f, v)" tlog p a b] by auto
  then have "stored tlog p a f @ stored tlog p f b = (f, v) # ms" using assms stored_split [of a f b tlog p] by simp
  moreover have "(f, v) \<notin> set (stored tlog p a f)" by (simp add: stored_member)
  ultimately have "stored tlog p a f = []" by (cases "stored tlog p a f") auto
  with f show ?thesis by (simp add: log_results_def List.map_filter_def)
qed

lemma tagged_results_partition:
  "of_partition p (tagged_results polled) = List.map_filter (parse_result \<circ> snd) (messages_of p polled)"
  by (induction polled)
    (auto simp: tagged_results_def of_partition_def messages_of_def map_filter_append filter_map comp_def List.map_filter_def)

lemma tagged_results_keys: "fst ` set (tagged_results polled) \<subseteq> fst ` set polled"
  by (force simp: tagged_results_def)

lemma batch_results_tagged: "fst (batch_results (windows_batch polled)) = map snd (tagged_results polled)"
  by (induction polled)
    (auto simp: batch_results_def windows_batch_def tagged_results_def List.map_filter_def filter_map comp_def case_prod_beta)

lemma messages_of_absent: "p \<notin> fst ` set polled \<Longrightarrow> messages_of p polled = []"
  by (force simp: messages_of_def filter_empty_conv)

lemma rewind_lookup:
  assumes "distinct (map fst polled)"
  shows "map_of (rewind (windows_batch polled)) p
    = (case messages_of p polled of [] \<Rightarrow> None | m # _ \<Rightarrow> Some (fst m))"
  using assms
proof (induction polled)
  case (Cons x polled)
  obtain q ms where x: "x = (q, ms)" by (cases x)
  with Cons show ?case
    by (cases ms) (auto simp: rewind_def windows_batch_def messages_of_def case_prod_beta split: list.splits
        dest: messages_of_absent [unfolded messages_of_def])
qed (simp add: rewind_def windows_batch_def messages_of_def)

lemma rewind_keys: "distinct (map fst polled) \<Longrightarrow> distinct (map fst (rewind (windows_batch polled)))"
  by (auto simp: rewind_def windows_batch_def comp_def case_prod_beta filter_map intro: distinct_map_filter)

section \<open>What the job's sink writes\<close>

text \<open>
  The record the job's statement selects into the topic: both bounds formatted, the page, the
  views and the generation. It parses to the result it stands for.
\<close>

definition sink_value :: "window_result \<Rightarrow> json option" where
  "sink_value r =
     Option.bind (iso (win_start r)) (\<lambda>a. map_option (\<lambda>b.
       JObj [(''window_start'', JStr a), (''window_end'', JStr b), (''page'', JStr (win_page r)),
         (''views'', JInt (win_views r)), (''generation'', JInt (win_generation r))]) (iso (win_end r)))"

definition sink_result :: "window_result \<Rightarrow> bool" where
  "sink_result r \<longleftrightarrow> iso (win_start r) \<noteq> None \<and> iso (win_end r) \<noteq> None \<and> win_start r < win_end r
     \<and> win_page r \<noteq> [] \<and> length (win_page r) \<le> PAGE_MAX_LENGTH \<and> 0 \<le> win_views r \<and> 0 \<le> win_generation r"

lemma parse_sink_value [simp]: "sink_result r \<Longrightarrow> parse_result (sink_value r) = Some r"
proof -
  assume r: "sink_result r"
  then obtain a b where ab: "iso (win_start r) = Some a" "iso (win_end r) = Some b" by (auto simp: sink_result_def)
  show ?thesis
    using r by (simp add: sink_result_def sink_value_def parse_result_def generation_json_def ab
        ab [THEN epoch_seconds_iso])
qed

section \<open>A member of the group\<close>

text \<open>
  What the loop relies on beyond a reader's laws: a joining consumer has the partitions \<open>P\<close> at the
  committed offsets (the earliest ones where none are), \<open>commit\<close> stores its positions, and \<open>poll\<close>
  returns a dictionary. The group has this one member at a time.
\<close>

locale group_reader = topic_reader k tlog here assigned
  for k :: "'s kafka_reader" and tlog and here and assigned +
  fixes offsets :: "'s \<Rightarrow> tp \<Rightarrow> int" and join :: "(tp \<Rightarrow> int) \<Rightarrow> 's" and P :: "tp set"
  assumes offsets_law: "op \<in> assigned os \<Longrightarrow> offsets os op = here os op"
    and join_law: "assigned (join jc) = P" "jp \<in> P \<Longrightarrow> here (join jc) jp = jc jp"
    and poll_distinct: "poll k ds = Some (dm, ds') \<Longrightarrow> distinct (map fst dm)"
begin

lemma seek_to_laws:
  assumes "distinct (map fst ps)"
  shows "assigned (seek_to k ps s) = assigned s"
    "here (seek_to k ps s) p = (case map_of ps p of Some a \<Rightarrow> a | None \<Rightarrow> here s p)"
  using assms
  by (induction ps arbitrary: s) (auto simp: seek_to_def seek_law map_of_eq_None_iff split: option.splits
      intro: rev_image_eqI)

text \<open>After a failed batch: every partition is back where nothing unwritten lies behind it.\<close>

lemma rewound:
  assumes polled: "poll k s = Some (polled, s1)" and P: "assigned s = P" and p: "p \<in> P"
  defines "s2 \<equiv> seek_to k (rewind (windows_batch polled)) s1"
  shows "assigned s2 = P" "here s p \<le> here s2 p" "log_results tlog p (here s p) (here s2 p) = []"
proof -
  note keys = poll_distinct [OF polled]
  note s2 = seek_to_laws [OF rewind_keys [OF keys], of s1]
  show "assigned s2 = P" using s2(1) poll_keys [OF polled] P by (simp add: s2_def)
  have msgs: "here s p \<le> here s1 p" "messages_of p polled = stored tlog p (here s p) (here s1 p)"
    using poll_messages [OF polled, of p] P p by auto
  have "here s p \<le> here s2 p \<and> log_results tlog p (here s p) (here s2 p) = []"
  proof (cases "messages_of p polled")
    case Nil
    then have "here s2 p = here s1 p" using s2(2) [of p] by (simp add: rewind_lookup [OF keys] s2_def)
    then show ?thesis using Nil msgs by (simp add: log_results_def List.map_filter_def)
  next
    case (Cons m ms)
    then have "here s2 p = fst m" using s2(2) [of p] by (simp add: rewind_lookup [OF keys] s2_def)
    then show ?thesis using Cons msgs(2) stored_first [of tlog p "here s p" "here s1 p" "fst m" "snd m" ms] by simp
  qed
  then show "here s p \<le> here s2 p" "log_results tlog p (here s p) (here s2 p) = []" by simp_all
qed

end

section \<open>Convergence\<close>

text \<open>
  Redis has converged at given positions when it holds the results before them, in the log's
  order of each partition, up to some results from beyond them that will be written again:
  whatever is written next, once it has all of these, gives what the log alone would have given.
\<close>

definition converging ::
    "('w \<Rightarrow> keyspace) \<Rightarrow> topic_log \<Rightarrow> tp set \<Rightarrow> (tp \<Rightarrow> int) \<Rightarrow> string \<Rightarrow> (int \<Rightarrow> window_state) \<Rightarrow> (tp \<Rightarrow> int) \<Rightarrow> 'w \<Rightarrow> bool" where
  "converging db tlog P c0 pre st0 pos w \<longleftrightarrow>
     (\<exists>hist pending. fst ` set hist \<subseteq> P
        \<and> (\<forall>p \<in> P. c0 p \<le> pos p \<and> of_partition p hist = log_results tlog p (c0 p) (pos p))
        \<and> set pending \<subseteq> (\<Union>p \<in> P. beyond tlog p (pos p))
        \<and> (\<forall>s ys. set (window_entries s pending) \<subseteq> set ys \<longrightarrow>
             window_fold ys (window_of (db w) pre s) = window_fold (window_entries s (map snd hist) @ ys) (st0 s)))"

lemma convergingI:
  assumes "fst ` set hist \<subseteq> P"
    and "\<And>p. p \<in> P \<Longrightarrow> c0 p \<le> pos p \<and> of_partition p hist = log_results tlog p (c0 p) (pos p)"
    and "set pending \<subseteq> (\<Union>p \<in> P. beyond tlog p (pos p))"
    and "\<And>s ys. set (window_entries s pending) \<subseteq> set ys \<Longrightarrow>
      window_fold ys (window_of (db w) pre s) = window_fold (window_entries s (map snd hist) @ ys) (st0 s)"
  shows "converging db tlog P c0 pre st0 pos w"
  unfolding converging_def using assms by blast

text \<open>Results from beyond the positions, some or all of a batch, change nothing of this.\<close>

lemma converging_ahead:
  assumes "converging db tlog P c0 pre st0 pos w" and "set xs \<subseteq> (\<Union>p \<in> P. beyond tlog p (pos p))"
    and "\<And>s. window_of (db w') pre s = window_fold (window_entries s xs) (window_of (db w) pre s)"
  shows "converging db tlog P c0 pre st0 pos w'"
proof -
  obtain hist pending where h: "fst ` set hist \<subseteq> P"
    "\<And>p. p \<in> P \<Longrightarrow> c0 p \<le> pos p \<and> of_partition p hist = log_results tlog p (c0 p) (pos p)"
    "set pending \<subseteq> (\<Union>p \<in> P. beyond tlog p (pos p))"
    "\<And>s ys. set (window_entries s pending) \<subseteq> set ys \<Longrightarrow>
      window_fold ys (window_of (db w) pre s) = window_fold (window_entries s (map snd hist) @ ys) (st0 s)"
    using assms(1) unfolding converging_def by blast
  show ?thesis
  proof (rule convergingI [OF h(1,2)])
    show "set (pending @ xs) \<subseteq> (\<Union>p \<in> P. beyond tlog p (pos p))" using h(3) assms(2) by simp
  next
    fix s ys assume ys: "set (window_entries s (pending @ xs)) \<subseteq> set ys"
    then have "window_fold ys (window_of (db w') pre s) = window_fold (window_entries s xs @ ys) (window_of (db w) pre s)"
      by (simp add: assms(3) window_fold_append)
    also have "\<dots> = window_fold (window_entries s (map snd hist) @ window_entries s xs @ ys) (st0 s)"
      using ys by (intro h(4)) auto
    also have "\<dots> = window_fold (window_entries s (map snd hist) @ ys) (st0 s)"
      using ys window_fold_replay [of "window_entries s xs" ys] by (simp add: window_fold_append)
    finally show "window_fold ys (window_of (db w') pre s) = window_fold (window_entries s (map snd hist) @ ys) (st0 s)" .
  qed
qed

text \<open>A whole batch moves the positions on.\<close>

lemma converging_written:
  assumes "converging db tlog P c0 pre st0 pos w" and "fst ` set tagged \<subseteq> P"
    and moved: "\<And>p. p \<in> P \<Longrightarrow> pos p \<le> pos' p \<and> of_partition p tagged = log_results tlog p (pos p) (pos' p)"
    and "\<And>s. window_of (db w') pre s = window_fold (window_entries s (map snd tagged)) (window_of (db w) pre s)"
  shows "converging db tlog P c0 pre st0 pos' w'"
proof -
  obtain hist pending where h: "fst ` set hist \<subseteq> P"
    "\<And>p. p \<in> P \<Longrightarrow> c0 p \<le> pos p \<and> of_partition p hist = log_results tlog p (c0 p) (pos p)"
    "set pending \<subseteq> (\<Union>p \<in> P. beyond tlog p (pos p))"
    "\<And>s ys. set (window_entries s pending) \<subseteq> set ys \<Longrightarrow>
      window_fold ys (window_of (db w) pre s) = window_fold (window_entries s (map snd hist) @ ys) (st0 s)"
    using assms(1) unfolding converging_def by blast
  let ?rest = "filter (\<lambda>r. r \<notin> snd ` set tagged) pending"
  have "set (log_results tlog p (pos p) (pos' p)) \<subseteq> snd ` set tagged" if "p \<in> P" for p
    using moved [OF that] by (auto simp: of_partition_def simp flip: moved [OF that, THEN conjunct2])
  then have "beyond tlog p (pos p) \<subseteq> snd ` set tagged \<union> beyond tlog p (pos' p)" if "p \<in> P" for p
    using that beyond_split [of tlog p "pos p" "pos' p"] by blast
  then have "(\<Union>p \<in> P. beyond tlog p (pos p)) \<subseteq> snd ` set tagged \<union> (\<Union>p \<in> P. beyond tlog p (pos' p))" by blast
  with h(3) have rest: "set ?rest \<subseteq> (\<Union>p \<in> P. beyond tlog p (pos' p))" by auto
  show ?thesis
  proof (rule convergingI)
    show "fst ` set (hist @ tagged) \<subseteq> P" using h(1) assms(2) by auto
    show "c0 p \<le> pos' p \<and> of_partition p (hist @ tagged) = log_results tlog p (c0 p) (pos' p)" if "p \<in> P" for p
      using h(2) [OF that] moved [OF that] log_results_split [of "c0 p" "pos p" "pos' p" tlog p] by auto
    show "set ?rest \<subseteq> (\<Union>p \<in> P. beyond tlog p (pos' p))" by (rule rest)
  next
    fix s ys assume ys: "set (window_entries s ?rest) \<subseteq> set ys"
    have "set (window_entries s pending) \<subseteq> set (window_entries s (map snd tagged @ ?rest))"
      by (rule window_entries_mono) auto
    with ys have "set (window_entries s pending) \<subseteq> set (window_entries s (map snd tagged) @ ys)" by auto
    from h(4) [OF this] show "window_fold ys (window_of (db w') pre s)
        = window_fold (window_entries s (map snd (hist @ tagged)) @ ys) (st0 s)"
      by (simp add: assms(4) window_fold_append)
  qed
qed

lemma converging_start: "converging db tlog P c0 pre (window_of (db w) pre) c0 w"
  by (rule convergingI [where hist = "[]" and pending = "[]"]) (simp_all add: of_partition_def window_entries_def)

text \<open>When nothing lies beyond the positions, the windows hold what the log says.\<close>

lemma converged:
  assumes "converging db tlog P c0 pre st0 pos w" and "\<And>p. p \<in> P \<Longrightarrow> beyond tlog p (pos p) = {}"
  shows "\<exists>hist. fst ` set hist \<subseteq> P \<and> (\<forall>p \<in> P. of_partition p hist = log_results tlog p (c0 p) (pos p))
    \<and> (\<forall>s. window_of (db w) pre s = window_fold (window_entries s (map snd hist)) (st0 s))"
proof -
  obtain hist pending where h: "fst ` set hist \<subseteq> P"
    "\<And>p. p \<in> P \<Longrightarrow> of_partition p hist = log_results tlog p (c0 p) (pos p)"
    "set pending \<subseteq> (\<Union>p \<in> P. beyond tlog p (pos p))"
    "\<And>s ys. set (window_entries s pending) \<subseteq> set ys \<Longrightarrow>
      window_fold ys (window_of (db w) pre s) = window_fold (window_entries s (map snd hist) @ ys) (st0 s)"
    using assms(1) unfolding converging_def by blast
  have "pending = []" using h(3) assms(2) by simp
  then have "window_of (db w) pre s = window_fold (window_entries s (map snd hist)) (st0 s)" for s
    using h(4) [of s "[]"] by (simp add: window_entries_def)
  with h(1,2) show ?thesis by blast
qed

section \<open>Kafka and Redis together\<close>

text \<open>
  A turn in time: nobody else writes the windows, and retention does not end on either clock.
\<close>

definition fair_turn ::
    "('w \<Rightarrow> keyspace) \<Rightarrow> ('w \<Rightarrow> int) \<Rightarrow> string \<Rightarrow> int \<Rightarrow> 'w writer_turn \<Rightarrow> bool" where
  "fair_turn db now pre horizon t \<longleftrightarrow> int_of_float (turn_clock t) \<le> horizon
     \<and> (\<forall>w. now (turn_env t w) \<le> horizon \<and> (windows_ok (db w) pre \<longrightarrow> windows_ok (db (turn_env t w)) pre)
          \<and> (\<forall>s. window_of (db (turn_env t w)) pre s = window_of (db w) pre s))"

definition kept_until :: "topic_log \<Rightarrow> tp set \<Rightarrow> int \<Rightarrow> int \<Rightarrow> bool" where
  "kept_until tlog P retention horizon \<longleftrightarrow>
     (\<forall>p \<in> P. \<forall>i v r. tlog p i = Some v \<longrightarrow> parse_result v = Some r \<longrightarrow> horizon < win_end r + retention)"

locale windows_run = group_reader k tlog here assigned offsets join P + redis_server rd db now
  for k :: "'s kafka_reader" and tlog here assigned offsets join P
    and rd :: "'w redis" and db :: "'w \<Rightarrow> keyspace" and now :: "'w \<Rightarrow> int"
begin

text \<open>One poll: all of the batch is written and committed, or some of it is and the batch is rewound.\<close>

lemma poll_writes:
  assumes "windows_ok (db w) pre" and "fair_turn db now pre horizon t"
    and live: "\<And>x. x \<in> set (tagged_results polled) \<Longrightarrow> horizon < win_end (snd x) + retention"
    and run: "run_poll rd pre retention (turn_clock t) (turn_lost t) (windows_batch polled) (retry, turn_env t w)
      = (effects, retry', w')"
  shows "windows_ok (db w') pre
    \<and> (\<exists>n. (\<forall>s. window_of (db w') pre s
          = window_fold (window_entries s (take n (map snd (tagged_results polled)))) (window_of (db w) pre s))
        \<and> (length (tagged_results polled) \<le> n \<and> (effects = [] \<or> (\<exists>ws. effects = [Commit, Announce ws]))
           \<or> effects = [Seek (rewind (windows_batch polled)), Sleep retry]))"
proof -
  let ?rs = "map snd (tagged_results polled)" and ?w = "turn_env t w"
  note rs = batch_results_tagged [of polled]
  have env: "windows_ok (db ?w) pre" "\<And>s. window_of (db ?w) pre s = window_of (db w) pre s" "now ?w \<le> horizon"
    "int_of_float (turn_clock t) \<le> horizon" using assms(1,2) by (auto simp: fair_turn_def)
  have in_time: "horizon < win_end r + retention" if "r \<in> set ?rs" for r using that live by auto
  then have live_take: "live_entries retention (int_of_float (turn_clock t)) s (take n ?rs) = window_entries s (take n ?rs)" for s n
    using env(4) by (intro live_all) (fastforce dest: in_set_takeD)
  obtain out w1 where out: "write_results rd pre retention (turn_clock t) (turn_lost t) ?rs ?w = (out, w1)" by fastforce
  have written: "windows_ok (db w1) pre \<and> (\<exists>n. (out \<noteq> None \<longrightarrow> length ?rs \<le> n)
      \<and> (\<forall>s. window_of (db w1) pre s = window_fold (window_entries s (take n ?rs)) (window_of (db w) pre s)))"
  proof (cases "?rs = []")
    case True
    then show ?thesis using out env(1,2) by (auto simp: write_results_def window_entries_def)
  next
    case False
    then have "run_scripts rd pre retention (int_of_float (turn_clock t)) (turn_lost t) ?rs ?w = (out, w1)"
      using out by (simp add: write_results_def)
    from run_scripts_refines [OF env(1) _ this] in_time env(3) show ?thesis
      unfolding live_take env(2) by fastforce
  qed
  show ?thesis
  proof (cases "windows_batch polled = []")
    case True
    then have "polled = []" by (simp add: windows_batch_def)
    then show ?thesis using run env(1,2) by (simp add: run_poll_def windows_batch_def tagged_results_def window_entries_def)
  next
    case False
    obtain bad where bad: "batch_results (windows_batch polled) = (?rs, bad)" by (metis rs prod.collapse)
    show ?thesis
      using run False bad out written by (cases out) (auto simp: run_poll_def apply_batch_def Let_def)
  qed
qed

text \<open>The polled results, by partition: what the log holds between the two positions.\<close>

lemma polled_results:
  assumes "poll k s = Some (polled, s1)" and "assigned s = P"
  shows "fst ` set (tagged_results polled) \<subseteq> P" "assigned s1 = P"
    "p \<in> P \<Longrightarrow> here s p \<le> here s1 p \<and> of_partition p (tagged_results polled) = log_results tlog p (here s p) (here s1 p)"
    "x \<in> set (tagged_results polled) \<Longrightarrow> fst x \<in> P \<and> snd x \<in> beyond tlog (fst x) (here s (fst x))"
proof -
  show keys: "fst ` set (tagged_results polled) \<subseteq> P" and "assigned s1 = P"
    using poll_keys [OF assms(1)] assms(2) tagged_results_keys [of polled] by auto
  have part: "here s p \<le> here s1 p \<and> of_partition p (tagged_results polled) = log_results tlog p (here s p) (here s1 p)"
    if "p \<in> P" for p
    using poll_messages [OF assms(1), of p] that assms(2) by (simp add: tagged_results_partition log_results_def)
  then show "p \<in> P \<Longrightarrow> here s p \<le> here s1 p \<and> of_partition p (tagged_results polled) = log_results tlog p (here s p) (here s1 p)" .
  assume x: "x \<in> set (tagged_results polled)"
  then have p: "fst x \<in> P" using keys by auto
  have "snd x \<in> set (of_partition (fst x) (tagged_results polled))" using x by (force simp: of_partition_def)
  with part [OF p] log_results_beyond [of tlog "fst x"] p show "fst x \<in> P \<and> snd x \<in> beyond tlog (fst x) (here s (fst x))" by auto
qed

definition loop_ok :: "string \<Rightarrow> (tp \<Rightarrow> int) \<Rightarrow> (int \<Rightarrow> window_state) \<Rightarrow> 's \<Rightarrow> (tp \<Rightarrow> int) \<Rightarrow> 'w \<Rightarrow> bool" where
  "loop_ok pre c0 st0 s c w \<longleftrightarrow> windows_ok (db w) pre \<and> assigned s = P \<and> (\<forall>p \<in> P. c p \<le> here s p)
     \<and> converging db tlog P c0 pre st0 (here s) w \<and> converging db tlog P c0 pre st0 c w"

lemma converging_moved:
  assumes "converging db tlog P c0 pre st0 pos w"
    and "\<And>p. p \<in> P \<Longrightarrow> pos p \<le> pos' p \<and> log_results tlog p (pos p) (pos' p) = []"
  shows "converging db tlog P c0 pre st0 pos' w"
  using assms(2) by (intro converging_written [OF assms(1), of "[]"]) (simp_all add: of_partition_def window_entries_def)

lemma poll_keeps_loop_ok:
  assumes ok: "loop_ok pre c0 st0 s c w" and fair: "fair_turn db now pre horizon t" and kept: "kept_until tlog P retention horizon" and polled: "poll k s = Some (polled, s1)"
    and run: "run_poll rd pre retention (turn_clock t) (turn_lost t) (windows_batch polled) (retry, turn_env t w)
      = (effects, retry', w')"
    and obeyed: "foldl (obey k offsets stores) (s1, c) effects = (s2, c2)"
  shows "loop_ok pre c0 st0 s2 c2 w'"
proof -
  have inv: "windows_ok (db w) pre" "assigned s = P" "\<And>p. p \<in> P \<Longrightarrow> c p \<le> here s p"
    "converging db tlog P c0 pre st0 (here s) w" "converging db tlog P c0 pre st0 c w"
    using ok by (auto simp: loop_ok_def)
  note r = polled_results [OF polled inv(2)]
  have in_time': "horizon < win_end (snd x) + retention" if "x \<in> set (tagged_results polled)" for x
    using r(4) [OF that] kept unfolding beyond_def kept_until_def by blast
  obtain n where w': "windows_ok (db w') pre" and folded: "\<And>s. window_of (db w') pre s
        = window_fold (window_entries s (take n (map snd (tagged_results polled)))) (window_of (db w) pre s)"
    and which: "length (tagged_results polled) \<le> n \<and> (effects = [] \<or> (\<exists>ws. effects = [Commit, Announce ws]))
       \<or> effects = [Seek (rewind (windows_batch polled)), Sleep retry]"
    using poll_writes [OF inv(1) fair in_time' run] by auto
  have ahead: "set (take n (map snd (tagged_results polled))) \<subseteq> (\<Union>p \<in> P. beyond tlog p (here s p))"
    using r(4) set_take_subset [of n "map snd (tagged_results polled)"] by fastforce
  also have "\<dots> \<subseteq> (\<Union>p \<in> P. beyond tlog p (c p))" using inv(3) by (intro UN_mono beyond_mono) auto
  finally have c: "converging db tlog P c0 pre st0 c w'" by (rule converging_ahead [OF inv(5) _ folded])
  from which show ?thesis
  proof
    assume whole: "length (tagged_results polled) \<le> n \<and> (effects = [] \<or> (\<exists>ws. effects = [Commit, Announce ws]))"
    have "converging db tlog P c0 pre st0 (here s1) w'"
      by (rule converging_written [OF inv(4) r(1,3)]) (use folded whole in simp_all)
    moreover have "s2 = s1" "c2 = c \<or> c2 = offsets s1" using obeyed whole by auto
    moreover have "converging db tlog P c0 pre st0 (offsets s1) w'" if "converging db tlog P c0 pre st0 (here s1) w'"
      by (rule converging_moved [OF that]) (simp add: offsets_law r(2))
    moreover have "c p \<le> here s1 p \<and> c2 p \<le> here s1 p" if "p \<in> P" for p
      using order_trans [OF inv(3) [OF that]] r(2) r(3) [OF that] \<open>c2 = c \<or> c2 = offsets s1\<close> that by (auto simp: offsets_law)
    ultimately show ?thesis using c w' r(2) by (auto simp: loop_ok_def)
  next
    assume eff: "effects = [Seek (rewind (windows_batch polled)), Sleep retry]"
    then have s2: "s2 = seek_to k (rewind (windows_batch polled)) s1" "c2 = c" using obeyed by auto
    note rw = rewound [OF polled inv(2)]
    have "converging db tlog P c0 pre st0 (here s2) w'"
      by (rule converging_moved [OF converging_ahead [OF inv(4) ahead folded]]) (use rw s2 in auto)
    moreover have "assigned s2 = P" using s2 seek_to_laws(1) [OF rewind_keys [OF poll_distinct [OF polled]]] r(2) by simp
    moreover have "c p \<le> here s2 p" if "p \<in> P" for p using order_trans [OF inv(3) rw(2)] that s2(1) by simp
    ultimately show ?thesis using c w' s2(2) by (simp add: loop_ok_def)
  qed
qed

lemma run_writer_keeps_loop_ok:
  assumes "loop_ok pre c0 st0 (wr_consumer st) (wr_committed st) (wr_world st)" and "\<forall>t \<in> set ts. fair_turn db now pre horizon t"
    and "kept_until tlog P retention horizon"
    and "run_writer rd pre retention k offsets ts st = (st', fin)"
  shows "loop_ok pre c0 st0 (wr_consumer st') (wr_committed st') (wr_world st')"
  using assms
proof (induction ts arbitrary: st)
  case (Cons t ts)
  show ?case
  proof (cases "poll k (wr_consumer st)")
    case (Some x)
    obtain polled s1 where x: "x = (polled, s1)" by (cases x)
    obtain effects retry w where p: "run_poll rd pre retention (turn_clock t) (turn_lost t) (windows_batch polled)
        (wr_retry st, turn_env t (wr_world st)) = (effects, retry, w)" by (metis prod_cases3)
    obtain s2 c where e: "foldl (obey k offsets (turn_stored t)) (s1, wr_committed st) effects = (s2, c)" by fastforce
    have "loop_ok pre c0 st0 s2 c w"
      using poll_keeps_loop_ok [OF Cons.prems(1) _ Cons.prems(3) Some [unfolded x] p e] Cons.prems(2) by simp
    then show ?thesis
      using Cons.prems Some x p e
      by (intro Cons.IH [of "\<lparr>wr_consumer = s2, wr_committed = c, wr_retry = retry, wr_world = w,
                       wr_effects = wr_effects st @ effects\<rparr>"]) simp_all
  qed (use Cons.prems in simp)
qed simp

lemma writer_lives_converge:
  assumes "windows_ok (db w) pre" and "converging db tlog P c0 pre st0 c w" 
    and "\<forall>l \<in> set ls. \<forall>t \<in> set l. fair_turn db now pre horizon t" and "kept_until tlog P retention horizon"
    and "writer_lives rd pre retention k offsets join ls (c, w) = (c', w')"
  shows "converging db tlog P c0 pre st0 c' w'"
  using assms
proof (induction ls arbitrary: c w)
  case (Cons l ls)
  obtain st fin where run: "run_writer rd pre retention k offsets l (start_writer join c w) = (st, fin)" by fastforce
  have "converging db tlog P c0 pre st0 (here (join c)) w"
    by (rule converging_moved [OF Cons.prems(2)]) (simp add: join_law)
  then have "loop_ok pre c0 st0 (join c) c w" using Cons.prems(1,2) by (simp add: loop_ok_def join_law)
  with run_writer_keeps_loop_ok [OF _ _ Cons.prems(4) run] Cons.prems(3)
  have "loop_ok pre c0 st0 (wr_consumer st) (wr_committed st) (wr_world st)" by (simp add: start_writer_def)
  then show ?case using Cons.prems(3-5) run by (intro Cons.IH [of "wr_world st" "wr_committed st"]) (auto simp: loop_ok_def)
qed simp

end

section \<open>The reference services\<close>

definition ref_join :: "(tp \<times> json option list) list \<Rightarrow> (tp \<Rightarrow> int) \<Rightarrow> ref_consumer" where
  "ref_join t c = \<lparr>rc_here = c, rc_assigned = map fst t\<rparr>"

interpretation ref_windows: windows_run "ref_reader t" "ref_log t" rc_here "\<lambda>s. set (rc_assigned s)" rc_here "ref_join t"
  "fst ` set t" ref_redis ref_db ref_now for t
  by unfold_locales (auto simp: ref_reader_def ref_join_def comp_def)

section \<open>Properties\<close>

text \<open>
  C8: The windows converge whatever happens to the writer: over any number of its lives, with
  connections to Redis lost inside a batch, batches rewound and polled again in other pieces,
  commits that fail and crashes anywhere, once the committed offsets cover the topic every window
  holds what writing each partition's results once and in order leaves. This is while no result of
  the topic is past its retention, by the process's clock or by Redis's (\<open>kept_until\<close>), and nobody
  else writes the windows (\<open>fair_turn\<close>).
\<close>

theorem writer_converges:
  assumes "windows_run k tlog here assigned offsets join P rd db now" and "windows_ok (db w) pre"
    and "kept_until tlog P retention horizon" and "\<forall>l \<in> set lives. \<forall>t \<in> set l. fair_turn db now pre horizon t"
    and "writer_lives rd pre retention k offsets join lives (c, w) = (c', w')"
    and "\<forall>p \<in> P. \<forall>i \<ge> c' p. tlog p i = None"
  shows "\<exists>hist. fst ` set hist \<subseteq> P \<and> (\<forall>p \<in> P. of_partition p hist = log_results tlog p (c p) (c' p))
    \<and> (\<forall>s. window_of (db w') pre s = window_fold (window_entries s (map snd hist)) (window_of (db w) pre s))"
proof (rule converged)
  show "converging db tlog P c pre (window_of (db w) pre) c' w'"
    by (rule windows_run.writer_lives_converge [OF assms(1,2) converging_start assms(4,3,5)])
  show "beyond tlog p (c' p) = {}" if "p \<in> P" for p using assms(6) that by (auto simp: beyond_def)
qed

section \<open>Witness\<close>

text \<open>
  Two partitions with a result each. The first life loses its connection after one script and
  crashes; the second writes and commits.
\<close>

definition ex_a :: window_result where
  "ex_a = \<lparr>win_start = 90, win_end = 100, win_page = ''/a'', win_views = 3, win_generation = 1\<rparr>"

definition ex_b :: window_result where
  "ex_b = \<lparr>win_start = 90, win_end = 100, win_page = ''/b'', win_views = 5, win_generation = 2\<rparr>"

definition ex_sink :: "(tp \<times> json option list) list" where
  "ex_sink = [(0, [sink_value ex_a]), (1, [sink_value ex_b])]"

definition ex_turn :: "nat option \<Rightarrow> ref_keyspace writer_turn" where
  "ex_turn lost = \<lparr>turn_env = \<lambda>w. w\<lparr>ref_now := 100\<rparr>, turn_clock = 100, turn_lost = lost, turn_stored = True\<rparr>"

definition ex_polled :: "(tp \<times> Topic_Read.message list) list" where
  "ex_polled = [(0, [(0, sink_value ex_a)]), (1, [(0, sink_value ex_b)])]"

lemma ex_sink_results: "sink_result ex_a" "sink_result ex_b"
  using iso_defined [of 90] iso_defined [of 100]
  by (auto simp: sink_result_def ex_a_def ex_b_def PAGE_MAX_LENGTH_def)

lemma ex_sink_log: "ref_log ex_sink p i = (if i = 0 then if p = 0 then Some (sink_value ex_a)
    else if p = 1 then Some (sink_value ex_b) else None else None)"
  by (auto simp: ref_log_def ex_sink_def)

lemma ex_sink_poll:
  "\<exists>s1. poll (ref_reader ex_sink) (ref_join ex_sink (\<lambda>_. 0)) = Some (ex_polled, s1) \<and> rc_here s1 0 = 1 \<and> rc_here s1 1 = 1"
  by (simp add: ref_reader_def ref_join_def ex_polled_def ref_next_def ref_end_def stored_def upto.simps ex_sink_log)
    (simp add: ex_sink_def)

lemma ex_turn_fair: "fair_turn ref_db ref_now [] 100 (ex_turn lost)"
  by (simp add: fair_turn_def ex_turn_def int_of_float_def)

lemma ex_sink_kept: "kept_until (ref_log ex_sink) {0, 1} 60 100"
proof -
  have "win_end ex_a = 100" "win_end ex_b = 100" by (simp_all add: ex_a_def ex_b_def)
  then show ?thesis by (auto simp: kept_until_def ex_sink_log ex_sink_results)
qed

lemma run_scripts_lost: "n \<le> length rs \<Longrightarrow> fst (run_scripts rd pre retention t (Some n) rs w) = None"
proof (induction rs arbitrary: n w)
  case (Cons r rs)
  then have "fst (run_scripts rd pre retention t (Some (n - 1)) rs w1) = None" for w1 by simp
  then show ?case by (auto split: prod.splits option.splits) (metis fst_conv option.distinct(1))
qed simp

lemma ex_batch_results: "batch_results (windows_batch ex_polled) = ([ex_a, ex_b], 0)"
  by (simp add: batch_results_def windows_batch_def ex_polled_def List.map_filter_def ex_sink_results)

lemma ex_poll_lost:
  assumes "windows_ok (ref_db w) []" and "ref_now w \<le> 100"
  shows "\<exists>w1. windows_ok (ref_db w1) [] \<and> run_poll ref_redis [] 60 100 (Some 1) (windows_batch ex_polled) (retry, w)
     = ([Seek [(0, 0), (1, 0)], Sleep retry], min RETRY_MAX_SECONDS (retry * 2), w1)"
proof -
  obtain out w1 where run: "run_scripts ref_redis [] 60 100 (Some 1) [ex_a, ex_b] w = (out, w1)" by fastforce
  then have "out = None" using run_scripts_lost [of 1 "[ex_a, ex_b]" ref_redis "[]" 60 100 w] by simp
  moreover have "rewind (windows_batch ex_polled) = [(0, 0), (1, 0)]" "windows_batch ex_polled \<noteq> []"
    by (simp_all add: rewind_def windows_batch_def ex_polled_def)
  moreover have "windows_ok (ref_db w1) []"
    using ref_server.run_scripts_refines [OF assms(1) _ run] assms(2) by (simp add: ex_a_def ex_b_def)
  ultimately show ?thesis
    using run ex_batch_results by (simp add: run_poll_def apply_batch_def write_results_def int_of_float_def)
qed

lemma ex_poll_written:
  assumes "windows_ok (ref_db w) []" and "ref_now w \<le> 100"
  shows "\<exists>ws w1. run_poll ref_redis [] 60 100 None (windows_batch ex_polled) (retry, w)
     = ([Commit, Announce ws], RETRY_INITIAL_SECONDS, w1)"
proof -
  obtain out w1 where run: "run_scripts ref_redis [] 60 100 None [ex_a, ex_b] w = (out, w1)" by fastforce
  have "out \<noteq> None" using ref_server.run_scripts_refines [OF assms(1) _ run] assms(2) by (simp add: ex_a_def ex_b_def)
  moreover have "windows_batch ex_polled \<noteq> []" by (simp add: windows_batch_def ex_polled_def)
  ultimately show ?thesis
    using run ex_batch_results by (auto simp: run_poll_def apply_batch_def write_results_def int_of_float_def Let_def)
qed

lemma ex_lives_caught_up:
  "\<exists>c' w'. writer_lives ref_redis [] 60 (ref_reader ex_sink) rc_here (ref_join ex_sink) [[ex_turn (Some 1)], [ex_turn None]]
      (\<lambda>_. 0, ex_keyspace) = (c', w') \<and> c' 0 = 1 \<and> c' 1 = 1"
proof -
  obtain s1 where s1: "poll (ref_reader ex_sink) (ref_join ex_sink (\<lambda>_. 0)) = Some (ex_polled, s1)"
    "rc_here s1 0 = 1" "rc_here s1 1 = 1" using ex_sink_poll by blast
  have ok: "windows_ok (ref_db (ex_keyspace\<lparr>ref_now := 100\<rparr>)) []" using ex_keyspace_ok by simp
  obtain w1 where w1: "windows_ok (ref_db w1) []"
    "run_poll ref_redis [] 60 100 (Some 1) (windows_batch ex_polled) (RETRY_INITIAL_SECONDS, ex_keyspace\<lparr>ref_now := 100\<rparr>)
      = ([Seek [(0, 0), (1, 0)], Sleep RETRY_INITIAL_SECONDS], min RETRY_MAX_SECONDS (RETRY_INITIAL_SECONDS * 2), w1)"
    using ex_poll_lost [OF ok, of RETRY_INITIAL_SECONDS] by auto
  obtain ws w2 where w2: "run_poll ref_redis [] 60 100 None (windows_batch ex_polled) (RETRY_INITIAL_SECONDS, w1\<lparr>ref_now := 100\<rparr>)
      = ([Commit, Announce ws], RETRY_INITIAL_SECONDS, w2)"
    using ex_poll_written [of "w1\<lparr>ref_now := 100\<rparr>" RETRY_INITIAL_SECONDS] w1(1) by auto
  show ?thesis by (simp add: start_writer_def ex_turn_def s1 w1(2) w2 del: One_nat_def)
qed

theorem writer_converges_witness:
  "\<exists>c' w' hist. writer_lives ref_redis [] 60 (ref_reader ex_sink) rc_here (ref_join ex_sink) [[ex_turn (Some 1)], [ex_turn None]]
      (\<lambda>_. 0, ex_keyspace) = (c', w') \<and> c' 0 = 1 \<and> c' 1 = 1 \<and> of_partition 0 hist = [ex_a] \<and> of_partition 1 hist = [ex_b]
      \<and> window_of (ref_db w') [] 90 = window_fold (window_entries 90 (map snd hist)) (- 1, Map.empty)"
proof -
  obtain c' w' where run: "writer_lives ref_redis [] 60 (ref_reader ex_sink) rc_here (ref_join ex_sink)
      [[ex_turn (Some 1)], [ex_turn None]] (\<lambda>_. 0, ex_keyspace) = (c', w')" and c': "c' 0 = 1" "c' 1 = 1"
    using ex_lives_caught_up by blast
  have P: "fst ` set ex_sink = {0, 1}" by (simp add: ex_sink_def)
  obtain hist where "of_partition 0 hist = log_results (ref_log ex_sink) 0 0 1" "of_partition 1 hist = log_results (ref_log ex_sink) 1 0 1"
    "window_of (ref_db w') [] 90 = window_fold (window_entries 90 (map snd hist)) (- 1, Map.empty)"
    using writer_converges [OF ref_windows.windows_run_axioms ex_keyspace_ok _ _ run, of 100] ex_sink_kept ex_turn_fair c' ex_window
    by (auto simp: P ex_sink_log)
  moreover have "log_results (ref_log ex_sink) 0 0 1 = [ex_a]" "log_results (ref_log ex_sink) 1 0 1 = [ex_b]"
    by (simp_all add: log_results_def stored_def upto.simps ex_sink_log List.map_filter_def ex_sink_results)
  ultimately show ?thesis using run c' by auto
qed

end
