(* ===== verification/Windows_View.thy ===== *)
theory Windows_View
  imports Windows_Loop Flink_Cluster
begin

text \<open>
  The command \<open>windows\<close>, the \<open>main\<close> of \<open>windows.py\<close>, with what it prints as values, and the
  property that joins it with the writer: what the command shows of a topic is what the writer
  left in Redis.
\<close>

section \<open>The command\<close>

definition SHOW_WINDOWS :: nat where "SHOW_WINDOWS = 5"

datatype view_line =
    CannotRead
  | Incomplete nat int
  | NoWindows
  | ResultLine raw_result
  | CountLine nat nat
  | LateLine "int option"

text \<open>
  How the command ends: its exit code, or an exception. The topic's records are read as the
  sink's: one of another shape, which may raise in \<open>latest\<close> or print what it holds, is an end of
  its own.
\<close>

datatype view_end = ViewExit int | ViewRaised | OtherShape

definition raw_of_json :: "json \<Rightarrow> raw_result option" where
  "raw_of_json j =
     (case (jget j ''window_start'', jget j ''page'', jget j ''views'', generation_json j) of
        (Some (JStr a), Some (JStr p), Some (JInt v), JInt g) \<Rightarrow>
          Some \<lparr>raw_start = a, raw_page = p, raw_views = v, raw_generation = g\<rparr>
      | _ \<Rightarrow> None)"

text \<open>The last lines: the late records of the running job, when there is one.\<close>

definition late_lines ::
    "string option option \<Rightarrow> 'w flink_services \<Rightarrow> 'w \<Rightarrow> view_line list \<times> view_end \<times> 'w" where
  "late_lines job api w =
     (case job of
        None \<Rightarrow> ([], ViewRaised, w)
      | Some None \<Rightarrow> ([], ViewExit 0, w)
      | Some (Some i) \<Rightarrow>
          if i = [] then ([], ViewExit 0, w)
          else (case metric_sum api i ''numLateRecordsDropped'' w of
              (Escapes, w1) \<Rightarrow> ([], ViewRaised, w1)
            | (Unmeasured, w1) \<Rightarrow> ([LateLine None], ViewExit 0, w1)
            | (Measured n, w1) \<Rightarrow> ([LateLine (Some n)], ViewExit 0, w1)))"

text \<open>\<open>kafka_error\<close>: whether an exception of the read was Kafka's, which alone is caught.\<close>

definition windows_main ::
    "nat \<Rightarrow> 's kafka_reader \<Rightarrow> 's \<Rightarrow> bool \<Rightarrow> 'z kazoo option \<Rightarrow> string \<Rightarrow> 'z \<Rightarrow> 'w flink_services \<Rightarrow> 'w
      \<Rightarrow> view_line list \<times> view_end \<times> 'w" where
  "windows_main looks k s kafka_error client zroot zw api w =
     (case read_all looks k s of
        None \<Rightarrow> if kafka_error then ([CannotRead], ViewExit 1, w) else ([], ViewRaised, w)
      | Some snap \<Rightarrow>
          (let warning = (if snap_complete snap then [] else [Incomplete (length (snap_records snap)) (snap_expected snap)]) in
           if snap_records snap = [] then (warning @ [NoWindows], ViewExit 0, w)
           else case those (map raw_of_json (snap_records snap)) of
             None \<Rightarrow> (warning, OtherShape, w)
           | Some rs \<Rightarrow>
               (case late_lines (running_job client zroot zw) api w of
                  (late, how, w1) \<Rightarrow>
                    (warning @ map ResultLine (latest SHOW_WINDOWS rs) @ [CountLine (length rs) (repeated rs)] @ late, how, w1))))"

lemma late_lines_no_result: "late_lines job api w = (late, how, w1) \<Longrightarrow> ResultLine r \<notin> set late"
  by (auto simp: late_lines_def split: option.splits if_splits prod.splits measured.splits)

lemma windows_main_results:
  assumes "windows_main looks k s kafka_error client zroot zw api w = (lines, how, w1)"
    and "read_all looks k s = Some snap"
  shows "ResultLine r \<in> set lines \<longleftrightarrow>
    snap_records snap \<noteq> [] \<and> (\<exists>rs. map raw_of_json (snap_records snap) = map Some rs \<and> r \<in> set (latest SHOW_WINDOWS rs))"
  using assms
  by (cases "snap_records snap = []"; cases "those (map raw_of_json (snap_records snap))")
    (auto simp: windows_main_def Let_def inj_map_eq_map dest: late_lines_no_result split: prod.splits if_splits)

section \<open>The view of an interleaving\<close>

lemma raw_of_sink:
  "sink_result r \<Longrightarrow> \<exists>j raw. sink_value r = Some j \<and> raw_of_json j = Some raw \<and> shows_result raw r \<and> 0 \<le> raw_generation raw"
  by (auto simp: sink_result_def sink_value_def raw_of_json_def generation_json_def shows_result_def)

lemma latest_generation:
  assumes "\<forall>r \<in> set rs. 0 \<le> raw_generation r" and "r \<in> set (latest n rs)"
  shows "raw_generation r = newest (- 1) (raw_entries (raw_start r) rs)"
  using by_key_spec [OF assms(1), of "raw_start r" "raw_page r"] assms(2)
  by (auto simp: latest_member map_option_case split: option.splits)

text \<open>For a window it shows, the view prints exactly what the results leave, whatever their interleaving.\<close>

lemma view_of_interleaving:
  assumes same: "\<forall>p. list_all2 shows_result (of_partition p seen) (of_partition p written)"
    and keyed: "\<forall>(p, r) \<in> set written. p = part (win_page r)"
    and live: "\<forall>r \<in> snd ` set written. t < win_end r + retention"
    and pos: "\<forall>r \<in> snd ` set seen. 0 \<le> raw_generation r" and s: "iso s = Some start"
    and shown: "r0 \<in> set (latest n (map snd seen))" "raw_start r0 = start"
    and st: "window_fold (window_entries s (map snd written)) (- 1, Map.empty) = (g, c)"
  shows "\<lparr>raw_start = start, raw_page = pg, raw_views = v, raw_generation = h\<rparr> \<in> set (latest n (map snd seen))
    \<longleftrightarrow> h = g \<and> c pg = Some v"
proof -
  have pos': "\<forall>r \<in> set (map snd seen). 0 \<le> raw_generation r" using pos by simp
  have fold: "window_fold (raw_entries start (map snd seen)) (- 1, Map.empty) = (g, c)"
    using interleavings_agree [OF same keyed live s] live_all [of "map snd written" t retention s] live st by simp
  then have "g = newest (- 1) (raw_entries start (map snd seen))" by (simp add: window_fold_closed)
  then have gen: "raw_generation r = g" if "r \<in> set (latest n (map snd seen))" "raw_start r = start" for r
    using latest_generation [OF pos' that(1)] that(2) by simp
  have "start \<in> set (last_starts n (map snd seen))" using shown by (auto simp: latest_member)
  from latest_shows_fold [OF pos' this fold, of pg v] gen show ?thesis
    by (metis (full_types) raw_result.select_convs raw_result.surjective old.unit.exhaust)
qed

section \<open>The command and Redis\<close>

lemma stored_past:
  assumes "\<forall>i \<ge> b. tlog p i = None" and "\<forall>i \<ge> c. tlog p i = None"
  shows "stored tlog p a b = stored tlog p a c"
proof -
  have *: "stored tlog p a c = stored tlog p a b" if "b \<le> c" "\<forall>i \<ge> b. tlog p i = None" for b c
  proof (cases "a \<le> b")
    case True
    moreover have "stored tlog p b c = []" using that(2) by (auto simp: stored_def)
    ultimately show ?thesis using that(1) stored_split [of a b c tlog p] by simp
  next
    case False
    moreover from this have "stored tlog p a c = []" using that(2) by (auto simp: stored_def)
    ultimately show ?thesis by simp
  qed
  from * [of b c] * [of c b] assms show ?thesis by (cases "b \<le> c") auto
qed

text \<open>The topic holds the sink's records only, a page's on the partition of its key.\<close>

definition sink_log :: "topic_log \<Rightarrow> tp set \<Rightarrow> (string \<Rightarrow> tp) \<Rightarrow> bool" where
  "sink_log tlog P part \<longleftrightarrow> (\<forall>p \<in> P. \<forall>i v. tlog p i = Some v \<longrightarrow>
     (\<exists>r. sink_result r \<and> v = sink_value r \<and> p = part (win_page r)))"

lemma of_partition_absent: "fst ` set xs \<subseteq> P \<Longrightarrow> p \<notin> P \<Longrightarrow> of_partition p xs = []"
  unfolding of_partition_def by (auto simp: filter_empty_conv)

lemma of_partition_member: "(p, x) \<in> set xs \<Longrightarrow> x \<in> set (of_partition p xs)"
  by (force simp: of_partition_def)

definition seen_of :: "(tp \<times> json option) list \<Rightarrow> (tp \<times> raw_result) list" where
  "seen_of tagged = map (\<lambda>(p, v). (p, the (raw_of_json (the v)))) tagged"

lemma seen_of_partition: "of_partition p (seen_of tagged) = map (\<lambda>v. the (raw_of_json (the v))) (of_partition p tagged)"
  by (induction tagged) (auto simp: of_partition_def seen_of_def)

lemma sink_log_shown:
  assumes "sink_log tlog P part" and "p \<in> P"
  shows "list_all2 shows_result (map (\<lambda>v. the (raw_of_json (the v))) (map snd (stored tlog p a b))) (log_results tlog p a b)"
proof -
  have each: "\<exists>r. sink_result r \<and> snd m = sink_value r" if "m \<in> set (stored tlog p a b)" for m
    using that assms unfolding sink_log_def stored_member by blast
  then have "\<forall>m \<in> set (stored tlog p a b). (parse_result \<circ> snd) m \<noteq> None" by fastforce
  then have "log_results tlog p a b = map (the \<circ> (parse_result \<circ> snd)) (stored tlog p a b)"
    by (simp only: log_results_def map_filter_all)
  moreover have "shows_result (the (raw_of_json (the (snd m)))) (the (parse_result (snd m)))"
    if "m \<in> set (stored tlog p a b)" for m
    using each [OF that] raw_of_sink by fastforce
  ultimately show ?thesis by (auto simp: list.rel_map intro: list.rel_refl_strong)
qed

text \<open>What a complete read of such a topic gives: records of the sink, and per partition all of them.\<close>

lemma read_sink_log:
  assumes "sink_log tlog P part" and "fst ` set tagged \<subseteq> P"
    and parts: "\<forall>p \<in> P. of_partition p tagged = map snd (stored tlog p (starts p) (ends p))"
  shows "map raw_of_json (map (the \<circ> snd) tagged) = map Some (map snd (seen_of tagged))"
    "\<forall>r \<in> snd ` set (seen_of tagged). 0 \<le> raw_generation r"
    "p \<in> P \<Longrightarrow> list_all2 shows_result (of_partition p (seen_of tagged)) (log_results tlog p (starts p) (ends p))"
    "p \<notin> P \<Longrightarrow> of_partition p (seen_of tagged) = []"
proof -
  have each: "\<exists>raw. raw_of_json (the v) = Some raw \<and> 0 \<le> raw_generation raw" if x: "(q, v) \<in> set tagged" for q v
  proof -
    have q: "q \<in> P" using x assms(2) by force
    obtain i where "tlog q i = Some v" using of_partition_member [OF x] parts q by (auto simp: stored_member)
    with assms(1) q obtain r where "sink_result r" "v = sink_value r" unfolding sink_log_def by blast
    with raw_of_sink [of r] show ?thesis by auto
  qed
  show "map raw_of_json (map (the \<circ> snd) tagged) = map Some (map snd (seen_of tagged))"
    using each by (fastforce simp: seen_of_def)
  show "\<forall>r \<in> snd ` set (seen_of tagged). 0 \<le> raw_generation r" using each by (fastforce simp: seen_of_def)
  show "p \<in> P \<Longrightarrow> list_all2 shows_result (of_partition p (seen_of tagged)) (log_results tlog p (starts p) (ends p))"
    using sink_log_shown [OF assms(1)] parts by (simp add: seen_of_partition)
  show "p \<notin> P \<Longrightarrow> of_partition p (seen_of tagged) = []"
    using of_partition_absent [OF assms(2)] by (simp add: seen_of_partition)
qed

text \<open>
  C9: The command and the writer, end to end. When the topic holds the sink's records, the
  command's read of it is complete, and the writer, from the topic's start and over any lives and
  failures, has committed all of it while nothing in it was past retention and nobody else wrote the windows, then for every window
  that the command shows and that Redis did not have before, it prints a page with its views and
  generation exactly if that is what Redis holds of the window. Of a writer that lags behind the
  topic, or results it found expired, this says nothing.
\<close>

theorem windows_command_shows_redis:
  assumes "sink_log tlog P part" and "\<forall>p \<in> P. \<forall>i \<ge> min (ends p) (c' p). tlog p i = None"
    and "topic_reader k tlog here assigned" and "partitions_for_topic k s = Some P" and "finite P" and "P \<noteq> {}"
    and "beginning_offsets k (sorted_list_of_set P) (assign k (sorted_list_of_set P) s) = Some (starts, s1)"
    and "end_offsets k (sorted_list_of_set P) s1 = Some (ends, s2)"
    and "read_all looks k s = Some snap" and "snap_complete snap"
    and "windows_run kw tlog here' assigned' offsets join P rd db now" and "windows_ok (db w) pre"
    and "kept_until tlog P retention horizon" and "\<forall>l \<in> set lives. \<forall>t \<in> set l. fair_turn db now pre horizon t"
    and "writer_lives rd pre retention kw offsets join lives (starts, w) = (c', w')"
    and "window_of (db w) pre secs = (- 1, Map.empty)" and "iso secs = Some start"
    and "windows_main looks k s kafka_error client zroot zw api fw = (lines, how, fw')"
    and "ResultLine shown \<in> set lines" and "raw_start shown = start"
  shows "ResultLine \<lparr>raw_start = start, raw_page = pg, raw_views = v, raw_generation = g\<rparr> \<in> set lines
    \<longleftrightarrow> fst (window_of (db w') pre secs) = g \<and> snd (window_of (db w') pre secs) pg = Some v"
proof -
  have past: "stored tlog p a (ends p) = stored tlog p a (c' p)" if "p \<in> P" for p a
    using assms(2) that by (intro stored_past) (auto simp: min_def split: if_splits)
  obtain tagged where tagged: "snap_records snap = map (the \<circ> snd) tagged" "fst ` set tagged \<subseteq> P"
    "\<forall>p \<in> P. of_partition p tagged = map snd (stored tlog p (starts p) (ends p))"
    using topic_reader.read_all_reads [OF assms(3-9)] assms(10) by (metis (no_types, lifting))
  note seen = read_sink_log [OF assms(1) tagged(2,3)]
  have rest: "\<forall>p \<in> P. beyond tlog p (c' p) = {}" using assms(2) by (auto simp: beyond_def)
  obtain hist where hist: "fst ` set hist \<subseteq> P" "\<And>p. p \<in> P \<Longrightarrow> of_partition p hist = log_results tlog p (starts p) (c' p)"
    "window_of (db w') pre secs = window_fold (window_entries secs (map snd hist)) (- 1, Map.empty)"
    using converged [OF windows_run.writer_lives_converge [OF assms(11,12) converging_start assms(14,13,15)]] rest assms(16)
    by metis
  have member: "p \<in> P \<and> r \<in> set (log_results tlog p (starts p) (c' p))" if "(p, r) \<in> set hist" for p r
  proof -
    have "p \<in> P" using hist(1) that by auto
    with of_partition_member [OF that] hist(2) show ?thesis by simp
  qed
  have keyed: "\<forall>(p, r) \<in> set hist. p = part (win_page r)"
    using member assms(1) unfolding sink_log_def log_results_member by (fastforce dest: parse_sink_value)
  have live: "\<forall>r \<in> snd ` set hist. horizon < win_end r + retention"
    using member assms(13) unfolding kept_until_def log_results_member by fastforce
  have same: "\<forall>p. list_all2 shows_result (of_partition p (seen_of tagged)) (of_partition p hist)"
  proof
    fix p
    show "list_all2 shows_result (of_partition p (seen_of tagged)) (of_partition p hist)"
    proof (cases "p \<in> P")
      case True
      then show ?thesis using seen(3) [OF True] hist(2) [OF True] past [OF True] by (simp add: log_results_def)
    next
      case False
      then have "of_partition p hist = []" by (rule of_partition_absent [OF hist(1)])
      then show ?thesis using seen(4) [OF False] by simp
    qed
  qed
  have lines: "ResultLine r \<in> set lines \<longleftrightarrow> r \<in> set (latest SHOW_WINDOWS (map snd (seen_of tagged)))" for r
    using windows_main_results [OF assms(18,9), unfolded tagged(1) seen(1), of r]
      windows_main_results [OF assms(18,9), unfolded tagged(1) seen(1), of shown] assms(19)
    by (simp add: inj_map_eq_map del: map_map)
  show ?thesis
    using view_of_interleaving [OF same keyed live seen(2) assms(17) _ assms(20)
        prod.collapse [symmetric], where n = SHOW_WINDOWS] assms(19) hist(3) by (auto simp: lines)
qed

section \<open>Witness\<close>

definition ex_raw_a :: raw_result where
  "ex_raw_a = \<lparr>raw_start = the (iso 90), raw_page = ''/a'', raw_views = 3, raw_generation = 1\<rparr>"

definition ex_raw_b :: raw_result where
  "ex_raw_b = \<lparr>raw_start = the (iso 90), raw_page = ''/b'', raw_views = 5, raw_generation = 2\<rparr>"

lemma ex_sink_raw:
  "\<exists>ja jb. sink_value ex_a = Some ja \<and> sink_value ex_b = Some jb \<and> raw_of_json ja = Some ex_raw_a \<and> raw_of_json jb = Some ex_raw_b"
  using ex_sink_results
  by (auto simp: sink_result_def sink_value_def raw_of_json_def generation_json_def ex_a_def ex_b_def ex_raw_a_def ex_raw_b_def)

lemma ex_latest: "latest SHOW_WINDOWS [ex_raw_a, ex_raw_b] = [ex_raw_b]"
  by (simp add: latest_def last_starts_def by_key_def newest_by_start_def ex_raw_a_def ex_raw_b_def SHOW_WINDOWS_def)

lemma ex_sink_read:
  "\<exists>ja jb. read_all 2 (ref_reader ex_sink) ex_reader
       = Some \<lparr>snap_records = [ja, jb], snap_expected = 2, snap_complete = True\<rparr>
     \<and> raw_of_json ja = Some ex_raw_a \<and> raw_of_json jb = Some ex_raw_b"
proof -
  obtain ja jb where j: "sink_value ex_a = Some ja" "sink_value ex_b = Some jb"
    "raw_of_json ja = Some ex_raw_a" "raw_of_json jb = Some ex_raw_b" using ex_sink_raw by blast
  have ends: "ref_end ex_sink p = (if p = 0 \<or> p = 1 then 1 else 0)" for p by (simp add: ref_end_def ex_sink_def)
  have parts: "fst ` set ex_sink = {0, 1}" by (simp add: ex_sink_def)
  show ?thesis
    by (simp add: read_all_def Let_def ref_reader_def ex_reader_def parts seek_all_def numeral_2_eq_2 ref_next_def ends
        stored_def upto.simps ex_sink_log below_end_def decoded_def j)
qed

definition ex_flink :: "unit flink_services" where
  "ex_flink = \<lparr>fetch = (\<lambda>w path m. (HttpError 500, w)), popen = (\<lambda>w c. (CannotRun, w))\<rparr>"

definition ex_lines :: "view_line list" where
  "ex_lines = [ResultLine ex_raw_b, CountLine 2 0]"

lemma ex_windows_main:
  "windows_main 2 (ref_reader ex_sink) ex_reader False (None :: unit kazoo option) [] () ex_flink () = (ex_lines, ViewExit 0, ())"
proof -
  obtain ja jb where "read_all 2 (ref_reader ex_sink) ex_reader
      = Some \<lparr>snap_records = [ja, jb], snap_expected = 2, snap_complete = True\<rparr>"
    "raw_of_json ja = Some ex_raw_a" "raw_of_json jb = Some ex_raw_b" using ex_sink_read by blast
  moreover have "repeated [ex_raw_a, ex_raw_b] = 0" by (simp add: repeated_def ex_raw_a_def ex_raw_b_def)
  ultimately show ?thesis
    by (simp add: windows_main_def ex_latest late_lines_def running_job_def ex_lines_def)
qed

theorem windows_command_shows_redis_witness:
  "\<exists>c' w'. writer_lives ref_redis [] 60 (ref_reader ex_sink) rc_here (ref_join ex_sink) [[ex_turn (Some 1)], [ex_turn None]]
      (\<lambda>_. 0, ex_keyspace) = (c', w') \<and> fst (window_of (ref_db w') [] 90) = 2 \<and> snd (window_of (ref_db w') [] 90) ''/b'' = Some 5"
proof -
  obtain c' w' where run: "writer_lives ref_redis [] 60 (ref_reader ex_sink) rc_here (ref_join ex_sink)
      [[ex_turn (Some 1)], [ex_turn None]] (\<lambda>_. 0, ex_keyspace) = (c', w')" and c': "c' 0 = 1" "c' 1 = 1"
    using ex_lives_caught_up by blast
  obtain ja jb where snap: "read_all 2 (ref_reader ex_sink) ex_reader
      = Some \<lparr>snap_records = [ja, jb], snap_expected = 2, snap_complete = True\<rparr>" using ex_sink_read by blast
  have P: "fst ` set ex_sink = {0, 1}" by (simp add: ex_sink_def)
  have keys: "sink_log (ref_log ex_sink) {0, 1} (\<lambda>g. if g = ''/a'' then 0 else 1)"
  proof -
    have "win_page ex_a = ''/a''" "win_page ex_b \<noteq> ''/a''" by (simp_all add: ex_a_def ex_b_def)
    then show ?thesis using ex_sink_results unfolding sink_log_def ex_sink_log
      by (auto intro: exI [of _ ex_a] exI [of _ ex_b] split: if_splits)
  qed
  have past: "\<forall>p \<in> {0, 1}. \<forall>i \<ge> min (ref_end ex_sink p) (c' p). ref_log ex_sink p i = None"
    using c' by (simp add: ex_sink_log ref_end_def) (simp add: ex_sink_def)
  have "iso 90 = Some (the (iso 90))" using iso_defined [of 90] by auto
  from windows_command_shows_redis [OF keys past ref_reading.topic_reader_axioms _ _ _ _ _ snap _
      ref_windows.windows_run_axioms [of ex_sink, unfolded P] ex_keyspace_ok ex_sink_kept _ run ex_window this ex_windows_main,
      where ?s1.0 = "ex_reader\<lparr>rc_assigned := [0, 1]\<rparr>" and ?s2.0 = "ex_reader\<lparr>rc_assigned := [0, 1]\<rparr>" and shown = ex_raw_b and pg = "''/b''" and v = 5 and g = 2]
  show ?thesis using run ex_turn_fair by (simp add: ref_reader_def P ex_lines_def ex_raw_b_def)
qed

end
