(* ===== verification/Consumer.thy ===== *)
theory Consumer
  imports Notifications
begin

text \<open>
  \<open>kafka_consumer.py\<close>, \<open>worker.py\<close> and \<open>producer.py\<close>: what one event does to the stores, when
  its offset is committed, how a job is acknowledged, and where an event is sent.

  Kafka keeps one log of events per partition. A consumer's life starts at the committed offsets
  and takes messages in some order of partitions; an exception, a crash or a shutdown ends it, and
  the next life, of this or another consumer, starts from what was committed.
\<close>

section \<open>One event\<close>

record 'w services =
  sv_redis :: "'w redis"
  sv_cassandra :: "'w cassandra"
  sv_rabbit :: "'w rabbit"
  sv_publish :: "'w \<Rightarrow> string \<Rightarrow> json \<Rightarrow> bool \<times> 'w"

text \<open>
  \<open>handle\<close>: Redis, Cassandra, the job, and last the notification. The result says whether it
  returned; the flag beside the state is the notifier's.
\<close>

definition handle ::
    "'w services \<Rightarrow> string \<Rightarrow> string \<Rightarrow> bool \<Rightarrow> answer \<times> answer \<Rightarrow> nat \<Rightarrow> nat \<Rightarrow> event \<Rightarrow> bool \<times> 'w \<Rightarrow> bool \<times> bool \<times> 'w" where
  "handle sv prefix q notify ans part_no offset e st =
     (case record_pageview (sv_redis sv) prefix ans e (snd st) of
        (False, w1) \<Rightarrow> (False, fst st, w1)
      | (True, w1) \<Rightarrow>
          (case insert_pageview (sv_cassandra sv) e w1 of
             (False, w2) \<Rightarrow> (False, fst st, w2)
           | (True, w2) \<Rightarrow>
               (case publish_job (sv_rabbit sv) q e w2 of
                  (False, w3) \<Rightarrow> (False, fst st, w3)
                | (True, w3) \<Rightarrow>
                    (True, if notify
                       then announce (sv_publish sv) (channel prefix) e (int part_no) (int offset) (fst st, w3)
                       else (fst st, w3)))))"

section \<open>The loop\<close>

record 'w cstate =
  committed :: "nat \<Rightarrow> nat"
  position :: "nat \<Rightarrow> nat"
  processed :: nat
  last_commit :: nat
  failing :: bool
  cworld :: 'w

datatype ending = Drained | Raised | Crashed nat

text \<open>
  \<open>consume_forever\<close> on the messages one life takes: the partition of each, and how its Redis
  commands are answered. \<open>last_commit\<close> is the model's own: what \<open>processed\<close> was at the last
  commit. The crash reports how many messages are uncommitted.
\<close>

definition commit :: "'w cstate \<Rightarrow> 'w cstate" where
  "commit s = s\<lparr>committed := position s, last_commit := processed s\<rparr>"

definition advance :: "nat \<Rightarrow> bool \<Rightarrow> 'w \<Rightarrow> 'w cstate \<Rightarrow> 'w cstate" where
  "advance p fl w s =
     s\<lparr>position := (position s)(p := Suc (position s p)), processed := Suc (processed s), failing := fl, cworld := w\<rparr>"

definition crash_due :: "nat option \<Rightarrow> nat \<Rightarrow> bool" where
  "crash_due crash_after n = (case crash_after of None \<Rightarrow> False | Some c \<Rightarrow> n \<ge> c)"

definition commit_due :: "nat \<Rightarrow> 'w cstate \<Rightarrow> 'w cstate" where
  "commit_due commit_every s = (if processed s mod commit_every = 0 then commit s else s)"

fun consume_forever ::
    "'w services \<Rightarrow> string \<Rightarrow> string \<Rightarrow> bool \<Rightarrow> nat \<Rightarrow> nat option \<Rightarrow> (nat \<Rightarrow> event list)
      \<Rightarrow> (nat \<times> answer \<times> answer) list \<Rightarrow> 'w cstate \<Rightarrow> ending \<times> 'w cstate" where
  "consume_forever sv prefix q notify commit_every crash_after kafka_log [] s = (Drained, s)"
| "consume_forever sv prefix q notify commit_every crash_after kafka_log ((p, ans) # rest) s =
     (if position s p \<ge> length (kafka_log p)
      then consume_forever sv prefix q notify commit_every crash_after kafka_log rest s
      else case handle sv prefix q notify ans p (position s p) (kafka_log p ! position s p) (failing s, cworld s) of
        (False, fl, w) \<Rightarrow> (Raised, s\<lparr>failing := fl, cworld := w\<rparr>)
      | (True, fl, w) \<Rightarrow>
          (if crash_due crash_after (Suc (processed s))
           then (Crashed ((Suc (processed s) - 1) mod commit_every + 1), advance p fl w s)
           else consume_forever sv prefix q notify commit_every crash_after kafka_log rest
                  (commit_due commit_every (advance p fl w s))))"

text \<open>Induction over the messages a life takes, one case per way a turn can end.\<close>

lemma consume_forever_cases:
  assumes "consume_forever sv prefix q notify commit_every crash_after kafka_log (m # rest) s = (ending, s')"
  obtains (skip) "consume_forever sv prefix q notify commit_every crash_after kafka_log rest s = (ending, s')"
  | (raised) p ans fl w where "position s p < length (kafka_log p)"
      "handle sv prefix q notify ans p (position s p) (kafka_log p ! position s p) (failing s, cworld s) = (False, fl, w)"
      "ending = Raised" "s' = s\<lparr>failing := fl, cworld := w\<rparr>"
  | (crashed) p ans fl w where "position s p < length (kafka_log p)"
      "handle sv prefix q notify ans p (position s p) (kafka_log p ! position s p) (failing s, cworld s) = (True, fl, w)"
      "ending = Crashed (processed s mod commit_every + 1)" "s' = advance p fl w s"
  | (handled) p ans fl w where "position s p < length (kafka_log p)"
      "handle sv prefix q notify ans p (position s p) (kafka_log p ! position s p) (failing s, cworld s) = (True, fl, w)"
      "consume_forever sv prefix q notify commit_every crash_after kafka_log rest
        (commit_due commit_every (advance p fl w s)) = (ending, s')"
proof -
  obtain p ans where m: "m = (p, ans)" by (cases m)
  obtain ok fl w where h: "handle sv prefix q notify ans p (position s p) (kafka_log p ! position s p) (failing s, cworld s)
      = (ok, fl, w)" by (metis prod_cases3)
  show ?thesis
  proof (cases "position s p < length (kafka_log p)")
    case False
    then show ?thesis using assms m skip by simp
  next
    case True
    then show ?thesis
      using assms m h raised [OF True] crashed [OF True] handled [OF True]
      by (cases ok; cases "crash_due crash_after (Suc (processed s))") auto
  qed
qed

text \<open>Lives one after the other: each starts where the last commit left off.\<close>

record life =
  life_messages :: "(nat \<times> answer \<times> answer) list"
  life_crash :: "nat option"

definition start_life :: "'w cstate \<Rightarrow> 'w cstate" where
  "start_life s = s\<lparr>position := committed s, processed := 0, last_commit := 0, failing := False\<rparr>"

fun run_lives ::
    "'w services \<Rightarrow> string \<Rightarrow> string \<Rightarrow> bool \<Rightarrow> nat \<Rightarrow> (nat \<Rightarrow> event list) \<Rightarrow> life list \<Rightarrow> 'w cstate \<Rightarrow> 'w cstate" where
  "run_lives sv prefix q notify commit_every kafka_log [] s = s"
| "run_lives sv prefix q notify commit_every kafka_log (l # ls) s =
     run_lives sv prefix q notify commit_every kafka_log ls
       (snd (consume_forever sv prefix q notify commit_every (life_crash l) kafka_log (life_messages l) (start_life s)))"

section \<open>Workers\<close>

text \<open>
  \<open>handle_job\<close>: work, record, acknowledge. \<open>body\<close> is the parsed job, none for one that is not
  JSON; a crash may come after any of the steps, and the trace says which happened. An id goes to
  Redis as a text or a decimal number; \<open>job_body\<close> writes a text, and a fractional id, which
  redis-py would print, is treated like the kinds it refuses.
\<close>

datatype job_step = Worked rat | Recorded string | Acked nat

fun redis_field :: "json \<Rightarrow> string option" where
  "redis_field (JStr s) = Some s"
| "redis_field (JInt i) = Some (show_int i)"
| "redis_field _ = None"

definition handle_job ::
    "'w redis \<Rightarrow> string \<Rightarrow> answer \<Rightarrow> rat \<Rightarrow> nat \<Rightarrow> json option \<Rightarrow> 'w \<Rightarrow> job_step list \<times> 'w" where
  "handle_job rd prefix ans delay tag body w =
     (case (Option.bind body (\<lambda>b. jget b ''event_id''), Option.bind body (\<lambda>b. jget b ''user_id''),
            Option.bind body (\<lambda>b. jget b ''page'')) of
        (Some i, Some _, Some _) \<Rightarrow>
          (case redis_field i of
             None \<Rightarrow> ([Worked delay], w)
           | Some eid \<Rightarrow>
               (case answered ans (record_execution rd eid prefix) w of
                  (True, w1) \<Rightarrow> ([Worked delay, Recorded eid, Acked tag], w1)
                | (False, w1) \<Rightarrow> ([Worked delay], w1)))
      | _ \<Rightarrow> ([], w))"

section \<open>The producer\<close>

definition PAGES :: "string list" where
  "PAGES = [''/'', ''/pricing'', ''/docs'', ''/checkout'']"

text \<open>Letters of the first 256 code points.\<close>

definition is_alpha :: "char \<Rightarrow> bool" where
  "is_alpha c = (let n = of_char c :: nat in
     65 \<le> n \<and> n \<le> 90 \<or> 97 \<le> n \<and> n \<le> 122 \<or> n \<in> {170, 181, 186} \<or> 192 \<le> n \<and> n \<noteq> 215 \<and> n \<noteq> 247)"

text \<open>
  \<open>rnd\<close> is the rounding of Python's float division; the quotient of two floats is floored exactly.
  No partitions at all is a division by zero, for a name that starts with a letter.
\<close>

definition get_partition :: "(rat \<Rightarrow> rat) \<Rightarrow> string \<Rightarrow> int \<Rightarrow> int option" where
  "get_partition rnd username n =
     (case username of
        [] \<Rightarrow> Some 0
      | c # _ \<Rightarrow>
          (let l = lower_char c in
           if \<not> is_alpha l then Some 0
           else if n = 0 then None
           else let index = int (of_char l) - 97; bucket_size = rnd (26 / of_int n)
             in Some (min (floor (of_int index / bucket_size)) (n - 1))))"

text \<open>
  \<open>produce\<close>: the events generated, each with the partition it is sent to; \<open>acked\<close> says which
  sends the broker acknowledged in time, and the first that is not ends the run with an exception.
  The result is what was sent, and how many were reported as produced.
\<close>

fun produce :: "(rat \<Rightarrow> rat) \<Rightarrow> int \<Rightarrow> nat option \<Rightarrow> (event \<times> bool) list \<Rightarrow> nat \<Rightarrow> (event \<times> int) list \<times> nat" where
  "produce rnd n wanted [] produced = ([], produced)"
| "produce rnd n wanted ((e, acked) # rest) produced =
     (if (case wanted of None \<Rightarrow> False | Some c \<Rightarrow> produced \<ge> c) then ([], produced)
      else case get_partition rnd (user_id e) n of
        None \<Rightarrow> ([], produced)
      | Some p \<Rightarrow>
          if \<not> acked then ([(e, p)], produced)
          else let (sent_on, total) = produce rnd n wanted rest (Suc produced)
            in ((e, p) # sent_on, total))"

section \<open>What handling guarantees\<close>

definition all_services :: "'w redis \<Rightarrow> 'w cassandra \<Rightarrow> 'w rabbit \<Rightarrow> ('w \<Rightarrow> string \<Rightarrow> json \<Rightarrow> bool \<times> 'w) \<Rightarrow> 'w services" where
  [simp]: "all_services rd cass rb pub = \<lparr>sv_redis = rd, sv_cassandra = cass, sv_rabbit = rb, sv_publish = pub\<rparr>"

text \<open>An event is applied when its row is there and its job was accepted.\<close>

definition applied :: "('w \<Rightarrow> row_key \<Rightarrow> string option) \<Rightarrow> ('w \<Rightarrow> json list) \<Rightarrow> event \<Rightarrow> 'w \<Rightarrow> bool" where
  "applied table published e w \<longleftrightarrow> table w (row_key_of e) = Some (page e) \<and> job_body e \<in> set (published w)"

text \<open>Rows written so far keep their page when no two events share a key and differ in the page.\<close>

definition one_page_per_key :: "(nat \<Rightarrow> event list) \<Rightarrow> bool" where
  "one_page_per_key kafka_log \<longleftrightarrow>
     (\<forall>p p' e e'. e \<in> set (kafka_log p) \<and> e' \<in> set (kafka_log p') \<and> row_key_of e = row_key_of e' \<longrightarrow> page e = page e')"

definition counter :: "('w \<Rightarrow> keyspace) \<Rightarrow> string \<Rightarrow> string \<Rightarrow> 'w \<Rightarrow> int option" where
  "counter db prefix p w =
     (if str_slot (db w (page_count_key p prefix)) then int_text (as_str (db w (page_count_key p prefix))) else None)"

definition settled ::
    "('w \<Rightarrow> row_key \<Rightarrow> string option) \<Rightarrow> ('w \<Rightarrow> json list) \<Rightarrow> (nat \<Rightarrow> event list) \<Rightarrow> (nat \<Rightarrow> nat) \<Rightarrow> 'w \<Rightarrow> bool" where
  "settled table published kafka_log bound w \<longleftrightarrow>
     (\<forall>p i. i < bound p \<longrightarrow> i < length (kafka_log p) \<and> applied table published (kafka_log p ! i) w)"

lemma settled_mono: "settled table published kafka_log g w \<Longrightarrow> f \<le> g \<Longrightarrow> settled table published kafka_log f w"
  unfolding settled_def le_fun_def by (meson less_le_trans)

lemma store_keys_apart [simp]:
  "page_count_key p prefix \<noteq> last_page_key u prefix" "last_page_key u prefix \<noteq> page_count_key p prefix"
  "page_count_key p prefix = page_count_key q prefix \<longleftrightarrow> p = q"
  by (simp_all add: store_keys)

context event_stores
begin

lemma record_pageview_frame:
  assumes "record_pageview rd prefix ans e w = (ok, w')"
  shows "table w' = table w \<and> published w' = published w"
  using assms by (auto simp: record_pageview_def answered_def redis_frame split: answer.splits bool.splits)

text \<open>One page counter through one event's Redis writes.\<close>

lemma record_pageview_counter:
  assumes "record_pageview rd prefix ans e w = (ok, w')" and "counter db prefix p w = Some n"
    and "counter db prefix (page e) w \<noteq> None"
  shows "\<exists>k \<in> {0, 1}. counter db prefix p w' = Some (n + (if p = page e then k else 0)) \<and> (ok \<longrightarrow> k = 1)"
proof -
  let ?k = "page_count_key (page e) prefix"
  obtain m where m: "str_slot (db w ?k)" "int_text (as_str (db w ?k)) = Some m"
    using assms(3) by (auto simp: counter_def split: if_splits)
  have same: "counter db prefix q w2 = counter db prefix q w1"
    if "db w2 (page_count_key q prefix) = db w1 (page_count_key q prefix)" for q w1 w2
    using that by (simp add: counter_def)
  have incr: "counter db prefix p (rincr rd w ?k) = Some (n + (if p = page e then 1 else 0))"
    using assms(2) m incr_law(1) [OF m] by (auto simp: counter_def int_text_def split: if_splits)
  have set': "counter db prefix p (rset rd w1 (last_page_key (user_id e) prefix) v) = counter db prefix p w1" for w1 v
    by (rule same) (simp add: set_law)
  show ?thesis
    using assms(1,2) incr set' by (cases "fst ans"; cases "snd ans")
      (auto simp: record_pageview_def answered_def split: if_splits)
qed

lemma insert_pageview_effect:
  assumes "insert_pageview cass e w = (ok, w1)"
  shows "(table w1 = (table w)(row_key_of e \<mapsto> page e) \<or> \<not> ok \<and> table w1 = table w)
    \<and> db w1 = db w \<and> published w1 = published w"
  using assms insert_law [of w "user_id e" "event_micros e" "event_id e" "page e" ok w1]
  by (auto simp: insert_pageview_def event_timestamp_def row_key_of_def split: if_splits)

lemma handle_effect:
  assumes "handle (all_services rd cass rb pub) prefix q notify ans part_no offset e st = (ok, fl, w')"
  shows "(\<exists>w1 okr. record_pageview rd prefix ans e (snd st) = (okr, w1) \<and> (ok \<longrightarrow> okr) \<and> db w' = db w1)
    \<and> (table w' = table (snd st) \<or> table w' = (table (snd st))(row_key_of e \<mapsto> page e))
    \<and> set (published (snd st)) \<subseteq> set (published w')
    \<and> (ok \<longrightarrow> applied table published e w')"
proof -
  obtain okr w1 where r: "record_pageview rd prefix ans e (snd st) = (okr, w1)" by fastforce
  note frame = record_pageview_frame [OF r]
  show ?thesis
  proof (cases okr)
    case False
    then show ?thesis using assms r frame by (auto simp: handle_def)
  next
    case True
    obtain oki w2 where i: "insert_pageview cass e w1 = (oki, w2)" by fastforce
    note ins = insert_pageview_effect [OF i]
    show ?thesis
    proof (cases oki)
      case False
      then show ?thesis using assms r True i frame ins by (auto simp: handle_def)
    next
      case oki: True
      obtain a w3 where pu: "basic_publish rb w2 q (job_body e) = (a, w3)" by fastforce
      note publ = publish_law [OF pu]
      show ?thesis
      proof (cases "a = Routed")
        case False
        then show ?thesis using assms r True i oki pu frame ins publ
          by (auto simp: handle_def publish_job_def)
      next
        case routed: True
        obtain cf w4 where n: "pub w3 (channel prefix) (encode e (int part_no) (int offset)) = (cf, w4)" by fastforce
        note pb = pub_law [OF n]
        have w': "ok" "db w' = db w3" "table w' = table w3" "published w' = published w3"
          using assms r True i oki pu routed n pb
          by (auto simp: handle_def publish_job_def announce_def split: if_splits bool.splits)
        then show ?thesis using r True oki frame ins publ routed by (auto simp: applied_def)
      qed
    qed
  qed
qed

text \<open>An applied event stays applied while others are handled.\<close>

lemma applied_stays:
  assumes "handle (all_services rd cass rb pub) prefix q notify ans part_no offset e st = (ok, fl, w')"
    and "applied table published e' (snd st)" and "row_key_of e' = row_key_of e \<Longrightarrow> page e' = page e"
  shows "applied table published e' w'"
  using handle_effect [OF assms(1)] assms(2,3) by (auto simp: applied_def)

lemma settled_step:
  assumes "handle (all_services rd cass rb pub) prefix q notify ans p (position s p) (kafka_log p ! position s p)
      (failing s, cworld s) = (ok, fl, w)"
    and "position s p < length (kafka_log p)" and "one_page_per_key kafka_log"
    and "settled table published kafka_log (position s) (cworld s)"
  shows "settled table published kafka_log (position s) w"
    and "ok \<Longrightarrow> settled table published kafka_log ((position s)(p := Suc (position s p))) w"
proof -
  have keep: "applied table published (kafka_log p' ! i) w" if "i < position s p'" for p' i
    using applied_stays [OF assms(1), of "kafka_log p' ! i"] assms(2-4) that
    unfolding settled_def one_page_per_key_def by (metis nth_mem snd_conv)
  then show "settled table published kafka_log (position s) w" using assms(4) by (simp add: settled_def)
  show "settled table published kafka_log ((position s)(p := Suc (position s p))) w" if ok
    using keep handle_effect [OF assms(1)] that assms(2,4) by (auto simp: settled_def less_Suc_eq)
qed

text \<open>The loop's invariant: what is below the position has been applied.\<close>

lemma consume_forever_inv:
  assumes "consume_forever (all_services rd cass rb pub) prefix q notify commit_every crash_after kafka_log msgs s = (ending, s')"
    and "one_page_per_key kafka_log" and "settled table published kafka_log (position s) (cworld s)"
    and "committed s \<le> position s"
  shows "settled table published kafka_log (committed s') (cworld s') \<and> committed s \<le> committed s'"
  using assms
proof (induction msgs arbitrary: s)
  case Nil
  then show ?case by (auto intro: settled_mono)
next
  case (Cons m rest)
  note one = Cons.prems(2) and inv = Cons.prems(3) and le = Cons.prems(4)
  from Cons.prems(1) show ?case
  proof (cases rule: consume_forever_cases)
    case skip
    from Cons.IH [OF this one inv le] show ?thesis .
  next
    case (raised p ans fl w)
    from settled_mono [OF settled_step(1) [OF raised(2,1) one inv] le] raised(4) show ?thesis by simp
  next
    case (crashed p ans fl w)
    from settled_mono [OF settled_step(1) [OF crashed(2,1) one inv] le] crashed(4) show ?thesis
      by (simp add: advance_def)
  next
    case (handled p ans fl w)
    let ?s1 = "commit_due commit_every (advance p fl w s)"
    have inv1: "settled table published kafka_log (position ?s1) (cworld ?s1)"
      using settled_step(2) [OF handled(2,1) one inv] by (simp add: commit_due_def commit_def advance_def)
    have le1: "committed ?s1 \<le> position ?s1" and up: "committed s \<le> committed ?s1"
      using le by (auto simp: commit_due_def commit_def advance_def le_fun_def intro: le_SucI)
    from Cons.IH [OF handled(3) one inv1 le1] up show ?thesis by (meson order.trans)
  qed
qed

end

text \<open>What the crash reports.\<close>

lemma consume_forever_crash:
  assumes "consume_forever sv prefix q notify commit_every crash_after kafka_log msgs s = (Crashed n, s')"
    and "0 < commit_every" and "last_commit s = processed s - processed s mod commit_every"
  shows "n = processed s' - last_commit s' \<and> 1 \<le> n \<and> n \<le> commit_every"
  using assms
proof (induction msgs arbitrary: s)
  case (Cons m rest)
  from Cons.prems(1) show ?case
  proof (cases rule: consume_forever_cases)
    case skip
    from Cons.IH [OF this Cons.prems(2,3)] show ?thesis .
  next
    case (crashed p ans fl w)
    moreover have "processed s mod commit_every < commit_every" "processed s mod commit_every \<le> processed s"
      using Cons.prems(2) by simp_all
    ultimately show ?thesis using Cons.prems(3) by (simp add: advance_def)
  next
    case (handled p ans fl w)
    have "Suc k - Suc k mod commit_every = k - k mod commit_every" if "Suc k mod commit_every \<noteq> 0" for k
      using that by (simp add: mod_Suc split: if_splits)
    then have "last_commit (commit_due commit_every (advance p fl w s))
        = processed (commit_due commit_every (advance p fl w s)) - processed (commit_due commit_every (advance p fl w s)) mod commit_every"
      using Cons.prems(3) by (simp add: commit_due_def commit_def advance_def)
    from Cons.IH [OF handled(3) Cons.prems(2) this] show ?thesis .
  qed simp
qed simp

lemma run_lives_settled:
  assumes "event_stores rd db now cass table rb published pub" and "one_page_per_key kafka_log"
    and "settled table published kafka_log (committed s) (cworld s)"
    and "s' = run_lives (all_services rd cass rb pub) prefix q notify commit_every kafka_log lives s"
  shows "settled table published kafka_log (committed s') (cworld s') \<and> committed s \<le> committed s'"
  using assms(3,4)
proof (induction lives arbitrary: s)
  case (Cons l ls)
  obtain ending s1 where run: "consume_forever (all_services rd cass rb pub) prefix q notify commit_every (life_crash l)
      kafka_log (life_messages l) (start_life s) = (ending, s1)" by fastforce
  have "settled table published kafka_log (position (start_life s)) (cworld (start_life s))"
    using Cons.prems(1) by (simp add: start_life_def)
  from event_stores.consume_forever_inv [OF assms(1) run assms(2) this]
  have one: "settled table published kafka_log (committed s1) (cworld s1)" "committed s \<le> committed s1"
    by (simp_all add: start_life_def)
  have "settled table published kafka_log (committed s') (cworld s') \<and> committed s1 \<le> committed s'"
    using Cons.prems(2) run by (intro Cons.IH [OF one(1)]) simp
  with one(2) show ?case by (meson order.trans)
qed simp

section \<open>Properties\<close>

text \<open>
  C6: At least once, across any number of consumer lives, exceptions, crashes and shutdowns: every
  event below a committed offset has its row in Cassandra and its job accepted by the queue, and
  committed offsets never move back.
\<close>

theorem committed_events_are_applied:
  assumes "event_stores rd db now cass table rb published pub" and "one_page_per_key kafka_log"
    and "settled table published kafka_log (committed s) (cworld s)"
    and "s' = run_lives (all_services rd cass rb pub) prefix q notify commit_every kafka_log lives s"
  shows "settled table published kafka_log (committed s') (cworld s') \<and> committed s \<le> committed s'"
  by (rule run_lives_settled [OF assms])

text \<open>
  The injected crash reports the truth: the number it logs is how many messages were handled
  since the last commit, at least one and at most the batch size, a full batch on a boundary.
\<close>

theorem crash_reports_uncommitted:
  assumes "consume_forever sv prefix q notify commit_every crash_after kafka_log msgs (start_life s) = (Crashed n, s')"
    and "0 < commit_every"
  shows "n = processed s' - last_commit s' \<and> 1 \<le> n \<and> n \<le> commit_every"
  using consume_forever_crash [OF assms] by (simp add: start_life_def)

text \<open>
  C27: The same replay, two outcomes: handling an event again counts it again in Redis and leaves
  Cassandra's table as it was.
\<close>

theorem replay_counts_again_but_keeps_rows:
  assumes "event_stores rd db now cass table rb published pub"
    and "handle (all_services rd cass rb pub) prefix q notify (Done, Done) part_no offset e (f0, w0) = (True, f1, w1)"
    and "handle (all_services rd cass rb pub) prefix q notify (Done, Done) part_no offset e (f1, w1) = (True, f2, w2)"
    and "counter db prefix (page e) w0 = Some n"
  shows "counter db prefix (page e) w2 = Some (n + 2) \<and> table w2 = table w1"
proof -
  have once: "counter db prefix (page e) w' = Some (m + 1)"
    if "handle (all_services rd cass rb pub) prefix q notify (Done, Done) part_no offset e (f, w) = (True, f', w')"
      "counter db prefix (page e) w = Some m" for f w f' w' m
  proof -
    note eff = event_stores.handle_effect [OF assms(1) that(1)] and start = that(2)
    from eff obtain u okr where u: "record_pageview rd prefix (Done, Done) e w = (okr, u)" "okr" "db w' = db u"
      by auto
    have "counter db prefix (page e) w' = counter db prefix (page e) u" using u(3) by (simp add: counter_def)
    with event_stores.record_pageview_counter [OF assms(1) u(1) start] u(2) start show ?thesis by auto
  qed
  have c1: "counter db prefix (page e) w1 = Some (n + 1)" by (rule once [OF assms(2,4)])
  have c2: "counter db prefix (page e) w2 = Some (n + 1 + 1)" by (rule once [OF assms(3) c1])
  have "table w1 (row_key_of e) = Some (page e)"
    using event_stores.handle_effect [OF assms(1,2)] by (simp add: applied_def)
  then have "table w2 = table w1" using event_stores.handle_effect [OF assms(1,3)] by (auto simp: fun_upd_idem)
  with c2 show ?thesis by simp
qed

text \<open>
  Routing is total and stable: for at least one partition every username goes to one that
  exists, and letters later in the alphabet never go to an earlier partition.
\<close>

theorem partition_in_range:
  assumes "1 \<le> n" and "0 < rnd (26 / of_int n)"
  shows "\<exists>p. get_partition rnd u n = Some p \<and> 0 \<le> p \<and> p < n
    \<and> (is_alpha (lower_char c) \<and> is_alpha (lower_char d) \<and> (of_char (lower_char c) :: nat) \<le> of_char (lower_char d)
       \<longrightarrow> the (get_partition rnd (c # s) n) \<le> the (get_partition rnd (d # t) n))"
proof -
  have low: "97 \<le> (of_char (lower_char c) :: nat)" if "is_alpha (lower_char c)" for c
    using that by (auto simp: lower_char_def is_alpha_def Let_def of_char_of split: if_splits)
  have "\<exists>p. get_partition rnd u n = Some p \<and> 0 \<le> p \<and> p < n"
  proof (cases u)
    case (Cons c s)
    show ?thesis
    proof (cases "is_alpha (lower_char c)")
      case True
      have "0 \<le> (of_int (int (of_char (lower_char c)) - 97) / rnd (26 / of_int n) :: rat)"
        using low [OF True] assms(2) by (intro divide_nonneg_pos) simp_all
      then show ?thesis using Cons True assms by (simp add: get_partition_def Let_def)
    qed (use Cons assms in \<open>simp add: get_partition_def Let_def\<close>)
  qed (use assms in \<open>simp add: get_partition_def\<close>)
  moreover have "the (get_partition rnd (c # s) n) \<le> the (get_partition rnd (d # t) n)"
    if "is_alpha (lower_char c)" "is_alpha (lower_char d)" "(of_char (lower_char c) :: nat) \<le> of_char (lower_char d)"
  proof -
    have "(of_int (int (of_char (lower_char c)) - 97) / rnd (26 / of_int n) :: rat)
        \<le> of_int (int (of_char (lower_char d)) - 97) / rnd (26 / of_int n)"
      using that(3) assms(2) by (intro divide_right_mono) simp_all
    from floor_mono [OF this] that(1,2) assms(1) show ?thesis by (simp add: get_partition_def Let_def min_le_iff_disj)
  qed
  ultimately show ?thesis by blast
qed

section \<open>Witnesses\<close>

definition ex_stores :: ref_stores where
  "ex_stores = \<lparr>ref_db = Map.empty, ref_now = 0, ref_table = Map.empty, ref_published = []\<rparr>"

abbreviation ex_services :: "ref_stores services" where
  "ex_services \<equiv> all_services ref_redis ref_cassandra ref_rabbit ref_pub"

definition ex_cstate :: "ref_stores cstate" where
  "ex_cstate = \<lparr>committed = (\<lambda>p. 0), position = (\<lambda>p. 0), processed = 0, last_commit = 0, failing = False, cworld = ex_stores\<rparr>"

definition ex_log :: "nat \<Rightarrow> event list" where
  "ex_log p = (if p = 0 then [ex_event, ex_event\<lparr>event_id := ''e2''\<rparr>] else [])"

lemma ex_log_pages: "one_page_per_key ex_log"
  by (auto simp: one_page_per_key_def ex_log_def row_key_of_def ex_event_def split: if_splits)

lemma ex_event_time [simp]: "event_timestamp ex_event = Some 1700000000000000"
  "event_timestamp (ex_event\<lparr>event_id := i\<rparr>) = Some 1700000000000000"
  "event_micros ex_event = 1700000000000000"
  by (simp_all add: event_timestamp_def event_micros_def round_half_even_def FIRST_MICROSECOND_def LAST_MICROSECOND_def
      ex_event_def Let_def)

lemmas ex_handle_simps = handle_def record_pageview_def answered_def insert_pageview_def publish_job_def
  announce_def ref_redis_def ref_cassandra_def ref_rabbit_def ref_pub_def ref_put_def

theorem committed_events_are_applied_witness:
  "\<exists>s'. s' = run_lives ex_services [] ''q'' True 1 ex_log
      [\<lparr>life_messages = [(0, Done, Done), (0, Done, RaisedAfter)], life_crash = None\<rparr>] ex_cstate
    \<and> committed s' 0 = 1 \<and> applied ref_table ref_published ex_event (cworld s')"
proof -
  let ?s = "run_lives ex_services [] ''q'' True 1 ex_log
      [\<lparr>life_messages = [(0, Done, Done), (0, Done, RaisedAfter)], life_crash = None\<rparr>] ex_cstate"
  have c: "committed ?s 0 = 1"
    by (simp add: ex_cstate_def start_life_def ex_log_def ex_handle_simps crash_due_def commit_due_def commit_def advance_def)
  have "settled ref_table ref_published ex_log (committed ex_cstate) (cworld ex_cstate)"
    by (simp add: settled_def ex_cstate_def)
  from committed_events_are_applied [OF ref_all.event_stores_axioms ex_log_pages this refl]
  have "settled ref_table ref_published ex_log (committed ?s) (cworld ?s)" by blast
  then have "applied ref_table ref_published (ex_log 0 ! 0) (cworld ?s)" using c unfolding settled_def by (metis zero_less_one)
  with c show ?thesis by (simp add: ex_log_def)
qed

theorem crash_reports_uncommitted_witness:
  "\<exists>s'. consume_forever ex_services [] ''q'' True 5 (Some 1) ex_log [(0, Done, Done)] (start_life ex_cstate) = (Crashed 1, s')
     \<and> processed s' - last_commit s' = 1"
proof -
  have "\<exists>s'. consume_forever ex_services [] ''q'' True 5 (Some 1) ex_log [(0, Done, Done)] (start_life ex_cstate) = (Crashed 1, s')"
    by (simp add: ex_cstate_def start_life_def ex_log_def ex_handle_simps crash_due_def)
  then obtain s' where "consume_forever ex_services [] ''q'' True 5 (Some 1) ex_log [(0, Done, Done)] (start_life ex_cstate) = (Crashed 1, s')"
    by blast
  with crash_reports_uncommitted [OF this] show ?thesis by auto
qed

theorem replay_counts_again_but_keeps_rows_witness:
  "\<exists>f1 w1 f2 w2. handle ex_services [] ''q'' False (Done, Done) 0 0 ex_event (False, ex_stores) = (True, f1, w1)
     \<and> handle ex_services [] ''q'' False (Done, Done) 0 0 ex_event (f1, w1) = (True, f2, w2)
     \<and> counter ref_db [] ''/docs'' w2 = Some 2 \<and> ref_table w2 = ref_table w1"
proof -
  obtain f1 w1 where h1: "handle ex_services [] ''q'' False (Done, Done) 0 0 ex_event (False, ex_stores) = (True, f1, w1)"
    by (auto simp: ex_handle_simps)
  obtain f2 w2 where h2: "handle ex_services [] ''q'' False (Done, Done) 0 0 ex_event (f1, w1) = (True, f2, w2)"
    by (auto simp: ex_handle_simps)
  have c0: "counter ref_db [] (page ex_event) ex_stores = Some 0"
    by (simp add: counter_def ex_stores_def int_text_def)
  have pg: "page ex_event = ''/docs''" by (simp add: ex_event_def)
  from replay_counts_again_but_keeps_rows [OF ref_all.event_stores_axioms h1 h2 c0] h1 h2 show ?thesis
    unfolding pg by auto
qed

theorem partition_in_range_witness: "\<exists>p. get_partition id ''nick'' 4 = Some p \<and> 0 \<le> p \<and> p < 4"
  using partition_in_range [of 4 id "''nick''" "CHR ''a''" "CHR ''b''" "[]" "[]"] by auto

end
