(* ===== verification/Topics.thy ===== *)
theory Topics
  imports Consumer
begin

text \<open>
  The start of every process, from \<open>__init__.py\<close>: retried connections, the topics that must exist
  before anything connects, and \<open>create-topics\<close> of \<open>topics.py\<close>. Kafka's admin client is a record
  of calls with the locale \<open>topic_admin\<close> of what it documents.
\<close>

section \<open>Retried connections\<close>

datatype 'e start_error = Raised 'e | RuntimeError string

text \<open>
  \<open>wait_for_connection\<close>: the attempts are numbered from one; the last error is raised again. The
  pauses and log lines are not represented.
\<close>

fun attempts_from :: "nat \<Rightarrow> nat \<Rightarrow> string \<Rightarrow> (nat \<Rightarrow> 'e + 'a) \<Rightarrow> 'e start_error + 'a" where
  "attempts_from 0 i name connect = Inl (RuntimeError (name @ '': failed to connect''))"
| "attempts_from (Suc left) i name connect =
     (case connect i of
        Inr client \<Rightarrow> Inr client
      | Inl e \<Rightarrow> if left = 0 then Inl (Raised e) else attempts_from left (Suc i) name connect)"

definition wait_for_connection :: "string \<Rightarrow> (nat \<Rightarrow> 'e + 'a) \<Rightarrow> nat \<Rightarrow> 'e start_error + 'a" where
  "wait_for_connection name connect retries = attempts_from retries 1 name connect"

section \<open>Topics\<close>

datatype 'e create_result = Created | TopicAlreadyExists | CreateFailed 'e

record ('c, 'e) admin_client =
  create_topics :: "string \<Rightarrow> int \<Rightarrow> 'c \<Rightarrow> 'e create_result \<times> 'c"
  describe_partitions :: "string \<Rightarrow> 'c \<Rightarrow> 'e + int"
  create_partitions :: "string \<Rightarrow> int \<Rightarrow> 'c \<Rightarrow> 'e option \<times> 'c"

definition too_many :: "string \<Rightarrow> int \<Rightarrow> int \<Rightarrow> string" where
  "too_many name existing wanted =
     ''Topic '' @ name @ '' has '' @ show_int existing @ '' partitions, more than the '' @ show_int wanted
     @ '' this release expects. Kafka cannot remove partitions; delete the topic or adjust KAFKA_PARTITIONS.''"

text \<open>The body of \<open>ensure_topic\<close> with a connected client.\<close>

definition reconcile ::
    "('c, 'e) admin_client \<Rightarrow> string \<Rightarrow> int \<Rightarrow> 'c \<Rightarrow> ('e start_error + unit) \<times> 'c" where
  "reconcile admin name wanted c =
     (case create_topics admin name wanted c of
        (Created, c1) \<Rightarrow> (Inr (), c1)
      | (CreateFailed e, c1) \<Rightarrow> (Inl (Raised e), c1)
      | (TopicAlreadyExists, c1) \<Rightarrow>
          (case describe_partitions admin name c1 of
             Inl e \<Rightarrow> (Inl (Raised e), c1)
           | Inr existing \<Rightarrow>
               if existing = wanted then (Inr (), c1)
               else if existing < wanted then
                 (case create_partitions admin name wanted c1 of
                    (None, c2) \<Rightarrow> (Inr (), c2)
                  | (Some e, c2) \<Rightarrow> (Inl (Raised e), c2))
               else (Inl (RuntimeError (too_many name existing wanted)), c1)))"

definition ensure_topic ::
    "(nat \<Rightarrow> 'e + ('c, 'e) admin_client) \<Rightarrow> string \<Rightarrow> int \<Rightarrow> 'c \<Rightarrow> ('e start_error + unit) \<times> 'c" where
  "ensure_topic connect name wanted c =
     (case wait_for_connection ''Kafka admin'' connect 10 of
        Inl e \<Rightarrow> (Inl e, c)
      | Inr admin \<Rightarrow> reconcile admin name wanted c)"

text \<open>\<open>topics.main\<close>: the page views' topic, then the windows'; the exit code is 0.\<close>

definition create_topics_main ::
    "(nat \<Rightarrow> 'e + ('c, 'e) admin_client) \<Rightarrow> (nat \<Rightarrow> 'e + ('c, 'e) admin_client)
       \<Rightarrow> string \<Rightarrow> string \<Rightarrow> int \<Rightarrow> 'c \<Rightarrow> ('e start_error + int) \<times> 'c" where
  "create_topics_main connect connect2 views windows wanted c =
     (case ensure_topic connect views wanted c of
        (Inl e, c1) \<Rightarrow> (Inl e, c1)
      | (Inr _, c1) \<Rightarrow>
          (case ensure_topic connect2 windows wanted c1 of
             (Inl e, c2) \<Rightarrow> (Inl e, c2)
           | (Inr _, c2) \<Rightarrow> (Inr 0, c2)))"

text \<open>\<open>wait_for_topic\<close> with a connected client: what each listing answers, in turn.\<close>

fun await_topic :: "nat \<Rightarrow> nat \<Rightarrow> string \<Rightarrow> (nat \<Rightarrow> 'e + string set) \<Rightarrow> 'e start_error + unit" where
  "await_topic 0 i name listing =
     Inl (RuntimeError (''Topic '' @ name @ '' does not exist. Run `uv run create-topics` first.''))"
| "await_topic (Suc left) i name listing =
     (case listing i of
        Inl e \<Rightarrow> Inl (Raised e)
      | Inr ts \<Rightarrow> if name \<in> ts then Inr () else await_topic left (Suc i) name listing)"

definition wait_for_topic ::
    "(nat \<Rightarrow> 'e + (nat \<Rightarrow> 'e + string set)) \<Rightarrow> string \<Rightarrow> nat \<Rightarrow> 'e start_error + unit" where
  "wait_for_topic connect name retries =
     (case wait_for_connection ''Kafka admin'' connect 10 of
        Inl e \<Rightarrow> Inl e
      | Inr listing \<Rightarrow> await_topic retries 1 name listing)"

section \<open>What the waits do\<close>

lemma attempts_from_first:
  assumes "attempts_from left i name connect = Inr client"
  shows "\<exists>j < left. connect (i + j) = Inr client \<and> (\<forall>l < j. isl (connect (i + l)))"
  using assms
proof (induction left arbitrary: i)
  case (Suc left)
  show ?case
  proof (cases "connect i")
    case (Inr a)
    with Suc.prems show ?thesis by (intro exI [of _ 0]) simp
  next
    case (Inl e)
    with Suc.prems obtain j where "j < left" "connect (Suc i + j) = Inr client" "\<forall>l < j. isl (connect (Suc i + l))"
      using Suc.IH [of "Suc i"] by (auto split: if_splits)
    with Inl show ?thesis by (intro exI [of _ "Suc j"]) (auto simp: less_Suc_eq_0_disj)
  qed
qed simp

lemma attempts_from_error:
  assumes "attempts_from left i name connect = Inl err" and "0 < left"
  shows "\<exists>e. err = Raised e \<and> connect (i + left - 1) = Inl e"
  using assms
proof (induction left arbitrary: i)
  case (Suc left)
  then show ?case by (cases "left = 0") (fastforce split: sum.splits)+
qed simp

section \<open>What the admin client promises\<close>

text \<open>
  \<open>parts\<close> gives each existing topic's partition count. A call that fails may or may not have
  taken effect; creating never touches an existing topic.
\<close>

locale topic_admin =
  fixes admin :: "('c, 'e) admin_client" and parts :: "'c \<Rightarrow> string \<rightharpoonup> int"
  assumes created: "create_topics admin n1 w1 c1 = (Created, d1) \<Longrightarrow> parts c1 n1 = None \<and> parts d1 = (parts c1)(n1 \<mapsto> w1)"
    and exists_already: "create_topics admin n2 w2 c2 = (TopicAlreadyExists, d2) \<Longrightarrow> parts c2 n2 \<noteq> None \<and> parts d2 = parts c2"
    and create_failed: "create_topics admin n3 w3 c3 = (CreateFailed e3, d3)
      \<Longrightarrow> parts d3 = parts c3 \<or> parts c3 n3 = None \<and> parts d3 = (parts c3)(n3 \<mapsto> w3)"
    and described: "describe_partitions admin n4 c4 = Inr x4 \<Longrightarrow> parts c4 n4 = Some x4"
    and expanded: "create_partitions admin n5 w5 c5 = (None, d5) \<Longrightarrow> parts d5 = (parts c5)(n5 \<mapsto> w5)"
    and expand_failed: "create_partitions admin n6 w6 c6 = (Some e6, d6)
      \<Longrightarrow> parts d6 = parts c6 \<or> parts d6 = (parts c6)(n6 \<mapsto> w6)"
begin

text \<open>Every branch, by what was there before.\<close>

lemma reconcile_effect:
  assumes "reconcile admin name wanted c = (r, c')"
  shows "(parts c' = parts c \<or> parts c' = (parts c)(name \<mapsto> wanted) \<and> (\<forall>x. parts c name = Some x \<longrightarrow> x < wanted))
    \<and> (r = Inr () \<longrightarrow> parts c' name = Some wanted)"
  using assms
  by (auto simp: reconcile_def split: prod.splits create_result.splits sum.splits if_splits option.splits
      dest!: created exists_already create_failed described expanded expand_failed)

end

text \<open>Connected clients that keep the promises.\<close>

definition admins :: "(nat \<Rightarrow> 'e + ('c, 'e) admin_client) \<Rightarrow> ('c \<Rightarrow> string \<rightharpoonup> int) \<Rightarrow> bool" where
  "admins connect parts \<longleftrightarrow> (\<forall>i admin. connect i = Inr admin \<longrightarrow> topic_admin admin parts)"

lemma ensure_topic_effect:
  assumes "admins connect parts" and "ensure_topic connect name wanted c = (r, c')"
  shows "(parts c' = parts c \<or> parts c' = (parts c)(name \<mapsto> wanted) \<and> (\<forall>x. parts c name = Some x \<longrightarrow> x < wanted))
    \<and> (r = Inr () \<longrightarrow> parts c' name = Some wanted)"
proof (cases "wait_for_connection ''Kafka admin'' connect 10")
  case (Inl e)
  with assms(2) show ?thesis by (auto simp: ensure_topic_def)
next
  case (Inr admin)
  then have "topic_admin admin parts"
    using assms(1) by (auto simp: wait_for_connection_def admins_def dest: attempts_from_first)
  with topic_admin.reconcile_effect [of admin parts name wanted c r c'] Inr assms(2) show ?thesis
    by (simp add: ensure_topic_def)
qed

section \<open>A reference admin client\<close>

definition ref_admin :: "((string \<times> int) list, string) admin_client" where
  "ref_admin =
     \<lparr>create_topics = \<lambda>n w c. if map_of c n = None then (Created, AList.update n w c) else (TopicAlreadyExists, c),
      describe_partitions = \<lambda>n c. (case map_of c n of None \<Rightarrow> Inl ''unknown topic'' | Some x \<Rightarrow> Inr x),
      create_partitions = \<lambda>n w c. (None, AList.update n w c)\<rparr>"

interpretation ref_topics: topic_admin ref_admin map_of
  by unfold_locales (auto simp: ref_admin_def update_conv' split: if_splits option.splits)

section \<open>Properties\<close>

text \<open>
  C30: when \<open>create-topics\<close> exits with 0, both topics have exactly the wanted partitions, so every
  username's partition exists; on every way out no other topic changes, no topic loses a
  partition, and one with more than wanted is left as it is.
\<close>

theorem create_topics_reconciles:
  assumes "admins connect parts" and "admins connect2 parts" and "views \<noteq> windows"
    and "1 \<le> wanted" and "0 < rnd (26 / of_int wanted)"
    and "create_topics_main connect connect2 views windows wanted c = (r, c')"
  shows "(r = Inr 0 \<longrightarrow> parts c' views = Some wanted \<and> parts c' windows = Some wanted
        \<and> (\<forall>u. \<exists>p. get_partition rnd u wanted = Some p \<and> 0 \<le> p \<and> p < the (parts c' views)))
    \<and> (\<forall>t. parts c' t = parts c t \<or> t \<in> {views, windows} \<and> parts c' t = Some wanted \<and> (\<forall>x. parts c t = Some x \<longrightarrow> x < wanted))"
proof -
  obtain r1 c1 where first: "ensure_topic connect views wanted c = (r1, c1)" by fastforce
  obtain r2 c2 where second: "ensure_topic connect2 windows wanted c1 = (r2, c2)" by fastforce
  note effects = ensure_topic_effect [OF assms(1) first] ensure_topic_effect [OF assms(2) second]
  have range: "\<exists>p. get_partition rnd u wanted = Some p \<and> 0 \<le> p \<and> p < wanted" for u
    using partition_in_range [where n = wanted and rnd = rnd and u = u] assms(4,5) by blast
  consider e where "r1 = Inl e" "r = Inl e" "c' = c1" | e where "r1 = Inr ()" "r2 = Inl e" "r = Inl e" "c' = c2"
    | "r1 = Inr ()" "r2 = Inr ()" "r = Inr 0" "c' = c2"
    using assms(6) first second by (auto simp: create_topics_main_def split: sum.splits)
  then show ?thesis
    using effects assms(3) range by cases (auto split: if_splits)
qed

theorem create_topics_reconciles_witness:
  "map_of [(''views'', 4), (''other'', 9), (''windows'', 4)] ''views'' = Some (4 :: int)
   \<and> (\<forall>u. \<exists>p. get_partition id u 4 = Some p \<and> 0 \<le> p \<and> p < 4)"
proof -
  have run: "create_topics_main (\<lambda>i. if i < 3 then Inl ''refused'' else Inr ref_admin) (\<lambda>_. Inr ref_admin)
      ''views'' ''windows'' 4 [(''views'', 2), (''other'', 9)] = (Inr 0, [(''views'', 4), (''other'', 9), (''windows'', 4)])"
    by code_simp
  have "admins (\<lambda>i. if i < 3 then Inl ''refused'' else Inr ref_admin) map_of" "admins (\<lambda>_. Inr ref_admin) map_of"
    using ref_topics.topic_admin_axioms by (auto simp: admins_def split: if_splits)
  from create_topics_reconciles [OF this _ _ _ run, of id] show ?thesis by simp
qed

end
