(* ===== verification/Topology.thy ===== *)
theory Topology
  imports Stores
begin

text \<open>
  \<open>topology_runner.py\<close>: which process groups belong to the topology, how it is stopped and
  verified to have stopped, and how readiness is awaited under one deadline. The operating
  system's answers are inputs.
\<close>

section \<open>The process table\<close>

datatype ps_result = PsMissing | PsTimeout | PsFailed string | PsListed string

type_synonym processes = "(int \<times> int \<times> int) list"

text \<open>\<open>line.split()\<close>: the words between blanks.\<close>

fun words_from :: "string \<Rightarrow> string \<Rightarrow> string list" where
  "words_from acc [] = (if acc = [] then [] else [rev acc])"
| "words_from acc (c # s) =
     (if is_blank c then (if acc = [] then words_from [] s else rev acc # words_from [] s)
      else words_from (c # acc) s)"

definition table_line :: "processes \<Rightarrow> string \<Rightarrow> processes" where
  "table_line t line =
     (case map py_int (words_from [] line) of
        [Some pid, Some ppid, Some pgid] \<Rightarrow> AList.update pid (ppid, pgid) t
      | _ \<Rightarrow> t)"

definition process_table :: "ps_result \<Rightarrow> string + processes" where
  "process_table r =
     (case r of
        PsMissing \<Rightarrow> Inl ''ps is not available on PATH''
      | PsTimeout \<Rightarrow> Inl ''listing processes timed out''
      | PsFailed err \<Rightarrow> Inl (''listing processes failed: '' @ strip err)
      | PsListed out \<Rightarrow> Inr (foldl table_line [] (split_lines [] out)))"

section \<open>The topology's groups\<close>

definition children_of :: "processes \<Rightarrow> int \<Rightarrow> int list" where
  "children_of t p = map fst (filter (\<lambda>(c, pp, g). pp = p) t)"

definition group_of :: "processes \<Rightarrow> int \<Rightarrow> int" where
  "group_of t p = (case map_of t p of Some (pp, g) \<Rightarrow> g | None \<Rightarrow> 0)"

text \<open>
  The loop over \<open>pending\<close>, a stack with its top first; the first argument bounds the iterations,
  \<open>None\<close> when it does not suffice.
\<close>

fun collect_groups :: "nat \<Rightarrow> processes \<Rightarrow> int list \<Rightarrow> int set \<Rightarrow> int set option" where
  "collect_groups n t [] gs = Some gs"
| "collect_groups 0 t (p # ps) gs = None"
| "collect_groups (Suc n) t (p # ps) gs =
     collect_groups n t (rev (children_of t p) @ ps) (gs \<union> group_of t ` set (children_of t p))"

definition topology_groups :: "ps_result \<Rightarrow> int \<Rightarrow> nat \<Rightarrow> (string + int set) option" where
  "topology_groups r pid n =
     (case process_table r of
        Inl e \<Rightarrow> Some (Inl e)
      | Inr t \<Rightarrow>
          if map_of t pid = None then Some (Inl (''honcho pid '' @ show_int pid @ '' was absent; shutdown cannot be verified''))
          else map_option Inr (collect_groups n t [pid] {group_of t pid}))"

section \<open>Stopping\<close>

text \<open>What \<open>killpg\<close> answers: done, no such process, not permitted.\<close>

datatype killpg_result = Signalled | ProcessLookupError | PermissionError

definition process_group_is_empty :: "killpg_result \<Rightarrow> bool" where
  "process_group_is_empty r =
     (case r of ProcessLookupError \<Rightarrow> True | PermissionError \<Rightarrow> False | Signalled \<Rightarrow> False)"

datatype signal_sent = SigTerm int | SigKill int

text \<open>
  The wait for the groups to drain: one element for each look before the deadline, with the
  kernel's answer for each group.
\<close>

fun drain :: "int set \<Rightarrow> (int \<Rightarrow> killpg_result) list \<Rightarrow> int list \<Rightarrow> bool \<times> string" where
  "drain groups [] survivors =
     (False, ''process groups still running after shutdown: ['' @ show_items survivors @ '']'')"
| "drain groups (kill0 # looks) survivors =
     (let left = filter (\<lambda>g. \<not> process_group_is_empty (kill0 g)) (sorted_list_of_set groups) in
      if left = [] then (True, []) else drain groups looks left)"

text \<open>
  \<open>_stop_topology\<close>: the snapshot of the groups, honcho's own group if it still runs, whether it
  ended within the first wait, and the looks; with the signals that were sent, in order.
\<close>

definition stop_topology ::
    "string + int set \<Rightarrow> int option \<Rightarrow> bool \<Rightarrow> (int \<Rightarrow> killpg_result) list \<Rightarrow> (bool \<times> string) \<times> signal_sent list" where
  "stop_topology snapshot honcho ended looks =
     (case snapshot of Inl e \<Rightarrow> (False, e) | Inr groups \<Rightarrow> drain groups looks [],
      case honcho of None \<Rightarrow> [] | Some g \<Rightarrow> SigTerm g # (if ended then [] else [SigKill g]))"

section \<open>The topology object\<close>

text \<open>What \<open>Popen\<close> gave: the pid, and the exit code \<open>poll\<close> sees.\<close>

record popen =
  popen_pid :: int
  popen_returncode :: "int option"

record topology =
  topo_process :: "popen option"

text \<open>\<open>start\<close>: \<open>None\<close> stands for the \<open>FileNotFoundError\<close> of a missing honcho.\<close>

definition start_topology :: "popen option \<Rightarrow> topology \<Rightarrow> topology \<times> string" where
  "start_topology spawned tp =
     (case spawned of
        None \<Rightarrow> (tp, ''.venv/bin/honcho is missing; run `uv sync --all-extras`'')
      | Some p \<Rightarrow> (tp\<lparr>topo_process := Some p\<rparr>, []))"

definition died :: "topology \<Rightarrow> string" where
  "died tp =
     (case topo_process tp of
        None \<Rightarrow> []
      | Some p \<Rightarrow> (case popen_returncode p of
          None \<Rightarrow> []
        | Some code \<Rightarrow> ''honcho exited early with code '' @ show_int code))"

definition stop ::
    "topology \<Rightarrow> (int \<Rightarrow> string + int set) \<Rightarrow> int option \<Rightarrow> bool \<Rightarrow> (int \<Rightarrow> killpg_result) list
       \<Rightarrow> (bool \<times> string) \<times> signal_sent list" where
  "stop tp groups honcho ended looks =
     (case topo_process tp of
        None \<Rightarrow> ((True, []), [])
      | Some p \<Rightarrow> stop_topology (groups (popen_pid p)) honcho ended looks)"

text \<open>The loop over the predicates: the first that does not hold, or the details of all.\<close>

type_synonym answers = "(string \<times> bool \<times> string) list"

fun check_predicates :: "answers \<Rightarrow> string + string list" where
  "check_predicates [] = Inr []"
| "check_predicates ((name, ready, detail) # rest) =
     (if \<not> ready then Inl (name @ '': '' @ detail)
      else case check_predicates rest of Inl e \<Rightarrow> Inl e | Inr ds \<Rightarrow> Inr (detail # ds))"

fun join_semicolon :: "string list \<Rightarrow> string" where
  "join_semicolon [] = []"
| "join_semicolon [d] = d"
| "join_semicolon (d # ds) = d @ ''; '' @ join_semicolon ds"

text \<open>
  \<open>wait_until_ready\<close>: one element for each turn before the deadline, with the topology as \<open>poll\<close>
  sees it and the predicates' answers. The dash of the message is written by its UTF-8 bytes.
\<close>

fun wait_turns :: "nat \<Rightarrow> (topology \<times> answers) list \<Rightarrow> string \<Rightarrow> bool \<times> string" where
  "wait_turns timeout [] detail =
     (False, ''not ready within '' @ show_nat timeout @ ''s '' @ [CHR 0xE2, CHR 0x80, CHR 0x94] @ '' '' @ detail)"
| "wait_turns timeout ((tp, answers) # rest) detail =
     (if died tp \<noteq> [] then (False, died tp)
      else case check_predicates answers of
        Inr ds \<Rightarrow> (True, join_semicolon ds)
      | Inl d \<Rightarrow> wait_turns timeout rest d)"

definition wait_until_ready :: "nat \<Rightarrow> (topology \<times> answers) list \<Rightarrow> bool \<times> string" where
  "wait_until_ready timeout turns = wait_turns timeout turns ''nothing was checked''"

section \<open>The table and its parent links\<close>

definition parent_of :: "processes \<Rightarrow> (int \<times> int) set" where
  "parent_of t = (\<lambda>(c, pp, g). (pp, c)) ` set t"

lemma table_line_distinct: "distinct_keys t \<Longrightarrow> distinct_keys (table_line t line)"
  by (auto simp: table_line_def distinct_update split: list.splits option.splits)

lemma process_table_distinct:
  assumes "process_table r = Inr t"
  shows "distinct_keys t"
proof -
  have "distinct_keys t' \<Longrightarrow> distinct_keys (foldl table_line t' ls)" for ls t'
    by (induction ls arbitrary: t') (simp_all add: table_line_distinct)
  with assms show ?thesis by (auto simp: process_table_def split: ps_result.splits)
qed

lemma children_parent: "set (children_of t p) = parent_of t `` {p}"
  by (force simp: children_of_def parent_of_def)

lemma children_distinct: "distinct_keys t \<Longrightarrow> distinct (children_of t p)"
  by (simp add: children_of_def distinct_map_filter)

lemma one_parent: "distinct_keys t \<Longrightarrow> (p, c) \<in> parent_of t \<Longrightarrow> (q, c) \<in> parent_of t \<Longrightarrow> p = q"
  by (auto simp: parent_of_def dest: eq_key_imp_eq_value)

lemma parent_keys: "(p, c) \<in> parent_of t \<Longrightarrow> c \<in> keys t"
  by (force simp: parent_of_def keys_def)

lemma closed_is_everything:
  assumes "r `` V \<subseteq> V" and "V \<subseteq> r\<^sup>* `` {a}" and "a \<in> V"
  shows "r\<^sup>* `` {a} = V"
proof -
  have "r\<^sup>* `` V = V" by (rule Image_closed_trancl [OF assms(1)])
  with assms(2,3) show ?thesis by blast
qed

section \<open>The worklist\<close>

text \<open>
  The state of the loop: \<open>V\<close> are the processes already popped. Popping a process adds children
  that were seen nowhere before, because every process has one parent.
\<close>

definition worklist :: "processes \<Rightarrow> int \<Rightarrow> int set \<Rightarrow> int list \<Rightarrow> bool" where
  "worklist t pid V pending \<longleftrightarrow>
     distinct pending \<and> V \<inter> set pending = {} \<and> V \<union> set pending \<subseteq> keys t \<and> pid \<in> V \<union> set pending
     \<and> (\<forall>c \<in> V \<union> set pending. c = pid \<or> (\<exists>p \<in> V. (p, c) \<in> parent_of t))
     \<and> V \<union> set pending \<subseteq> (parent_of t)\<^sup>* `` {pid} \<and> parent_of t `` V \<subseteq> V \<union> set pending"

lemma worklist_start: "map_of t pid \<noteq> None \<Longrightarrow> worklist t pid {} [pid]"
  by (simp add: worklist_def keys_def dom_map_of_conv_image_fst [symmetric] domIff)

lemma worklist_fresh:
  assumes w: "worklist t pid V (p # ps)" and t: "distinct_keys t"
    and cyc: "(pid, pid) \<notin> (parent_of t)\<^sup>+" and c: "(p, c) \<in> parent_of t"
  shows "c \<notin> V \<union> set (p # ps)"
proof
  assume "c \<in> V \<union> set (p # ps)"
  with w consider "c = pid" | q where "q \<in> V" "(q, c) \<in> parent_of t"
    unfolding worklist_def by blast
  then show False
  proof cases
    case 1
    have "(pid, p) \<in> (parent_of t)\<^sup>*" using w by (auto simp: worklist_def)
    with c 1 cyc show False by (auto dest: rtrancl_into_trancl1)
  next
    case 2
    with one_parent [OF t c] w show False by (auto simp: worklist_def)
  qed
qed

lemma worklist_step:
  assumes w: "worklist t pid V (p # ps)" and t: "distinct_keys t"
    and cyc: "(pid, pid) \<notin> (parent_of t)\<^sup>+"
  shows "worklist t pid (insert p V) (rev (children_of t p) @ ps)"
proof -
  note fresh = worklist_fresh [OF w t cyc]
  have p: "(pid, p) \<in> (parent_of t)\<^sup>*" using w by (auto simp: worklist_def)
  have "distinct (rev (children_of t p) @ ps)"
    using w fresh children_distinct [OF t] by (auto simp: worklist_def children_parent)
  moreover have "insert p V \<inter> set (rev (children_of t p) @ ps) = {}"
    using w fresh by (auto simp: worklist_def children_parent)
  moreover have "parent_of t `` {p} \<subseteq> (parent_of t)\<^sup>* `` {pid}"
    using p by (auto intro: rtrancl_into_rtrancl)
  moreover have "parent_of t `` {p} \<subseteq> keys t" by (auto dest: parent_keys)
  ultimately show ?thesis using w unfolding worklist_def set_append set_rev children_parent
    by (simp add: children_parent) blast
qed

lemma collect_groups_descendants:
  assumes "distinct_keys t" and "(pid, pid) \<notin> (parent_of t)\<^sup>+" and "worklist t pid V pending"
    and "gs = group_of t ` (V \<union> set pending)" and "card (keys t) \<le> n + card V"
  shows "collect_groups n t pending gs = Some (group_of t ` ((parent_of t)\<^sup>* `` {pid}))"
  using assms
proof (induction n t pending gs arbitrary: V rule: collect_groups.induct)
  case (1 n t gs)
  then show ?case using closed_is_everything [of "parent_of t" V pid] by (simp add: worklist_def)
next
  case (2 t p ps gs)
  then have "V \<subset> keys t" by (auto simp: worklist_def)
  with psubset_card_mono [of "keys t" V] 2 show ?case by (simp add: keys_def)
next
  case (3 n t p ps gs)
  have "finite V" "p \<notin> V"
    using 3(4) finite_subset [of V "keys t"] by (auto simp: worklist_def keys_def)
  with 3(6) have "card (keys t) \<le> n + card (insert p V)" by simp
  moreover have "gs \<union> group_of t ` set (children_of t p)
      = group_of t ` (insert p V \<union> set (rev (children_of t p) @ ps))" using 3(5) by auto
  ultimately show ?case using 3(1) [OF 3(2,3) worklist_step [OF 3(4,2,3)]] by simp
qed

lemma topology_groups_collect:
  assumes "process_table r = Inr t" and "map_of t pid \<noteq> None" and "(pid, pid) \<notin> (parent_of t)\<^sup>+"
    and "length t \<le> n"
  shows "topology_groups r pid n = Some (Inr (group_of t ` ((parent_of t)\<^sup>* `` {pid})))"
proof -
  have t: "distinct_keys t" by (rule process_table_distinct [OF assms(1)])
  have "card (keys t) \<le> n" using assms(4) card_length [of "map fst t"] by (simp add: keys_def)
  then have "collect_groups n t [pid] {group_of t pid} = Some (group_of t ` ((parent_of t)\<^sup>* `` {pid}))"
    by (intro collect_groups_descendants [OF t assms(3) worklist_start [OF assms(2)]]) simp_all
  with assms(1,2) show ?thesis by (simp add: topology_groups_def)
qed

text \<open>A verified stop rests on one look that found every group empty.\<close>

lemma drain_verified:
  assumes "finite groups" and "drain groups looks survivors = (True, m)"
  shows "\<exists>kill0 \<in> set looks. \<forall>g \<in> groups. kill0 g = ProcessLookupError"
  using assms
proof (induction groups looks survivors rule: drain.induct)
  case (2 groups kill0 looks survivors)
  have empty: "process_group_is_empty k \<longleftrightarrow> k = ProcessLookupError" for k
    by (cases k) (simp_all add: process_group_is_empty_def)
  from 2 show ?case by (auto simp: Let_def empty filter_empty_conv split: if_splits)
qed simp

lemma acyclic_table:
  assumes "list_all (\<lambda>(c, pp, g). pp < c) t"
  shows "(pid, pid) \<notin> (parent_of t)\<^sup>+"
proof -
  have less: "p < c" if "(p, c) \<in> parent_of t" for p c
    using that assms by (auto simp: parent_of_def list_all_iff)
  have "p < c" if "(p, c) \<in> (parent_of t)\<^sup>+" for p c
    using that by (induction rule: trancl_induct) (auto dest: less)
  then show ?thesis by blast
qed

section \<open>Properties\<close>

text \<open>
  C31: with as much fuel as the process table has entries, the walk below honcho ends whenever
  honcho is not its own ancestor, and returns exactly the process groups of honcho and of all its
  descendants, however deep: nothing the topology started escapes the snapshot, and nothing else
  is in it.
\<close>

theorem topology_groups_are_descendants:
  assumes "process_table r = Inr t" and "map_of t pid \<noteq> None" and "(pid, pid) \<notin> (parent_of t)\<^sup>+"
    and "length t \<le> n"
  shows "topology_groups r pid n = Some (Inr (group_of t ` ((parent_of t)\<^sup>* `` {pid})))"
  using assms by (rule topology_groups_collect)

lemma topology_groups_are_descendants_witness:
  "topology_groups (PsListed (join_lines [''  1 0 1'', '' 10 1 10'', ''noise'', '' 11 10 11'', '' 12 11 12'', '' 13 1 13''])) 10 5
     = Some (Inr (group_of [(1, 0, 1), (10, 1, 10), (11, 10, 11), (12, 11, 12), (13, 1, 13)]
          ` ((parent_of [(1, 0, 1), (10, 1, 10), (11, 10, 11), (12, 11, 12), (13, 1, 13)])\<^sup>* `` {10})))"
proof (rule topology_groups_are_descendants)
  show "(10, 10) \<notin> (parent_of [(1, 0, 1), (10, 1, 10), (11, 10, 11), (12, 11, 12), (13, 1, 13)])\<^sup>+"
    by (rule acyclic_table) simp
qed code_simp+

text \<open>
  C32: a stop is reported as complete only if the snapshot was taken, honcho was in it, and one look
  after honcho's termination found the group of honcho and of every descendant without a process:
  with a failed snapshot, or honcho missing from it, the report is a failure that says so, and never
  a success. Either way honcho's own group is asked to terminate if it is there, and killed if it
  did not end in time; no other signal is sent.
\<close>

theorem verified_stop_leaves_nothing:
  assumes "\<forall>t. process_table r = Inr t \<longrightarrow> (pid, pid) \<notin> (parent_of t)\<^sup>+ \<and> length t \<le> n"
    and "topology_groups r pid n = Some snapshot"
    and "stop_topology snapshot honcho ended looks = ((ok, m), sent)"
  shows "(ok \<longrightarrow> (\<exists>t kill0. process_table r = Inr t \<and> map_of t pid \<noteq> None \<and> kill0 \<in> set looks
        \<and> (\<forall>d. (pid, d) \<in> (parent_of t)\<^sup>* \<longrightarrow> kill0 (group_of t d) = ProcessLookupError)))
     \<and> (\<forall>e. process_table r = Inl e \<longrightarrow> \<not> ok \<and> m = e)
     \<and> sent = (case honcho of None \<Rightarrow> [] | Some g \<Rightarrow> if ended then [SigTerm g] else [SigTerm g, SigKill g])"
proof (cases "\<exists>t. process_table r = Inr t \<and> map_of t pid \<noteq> None")
  case True
  then obtain t where t: "process_table r = Inr t" "map_of t pid \<noteq> None" by blast
  let ?D = "(parent_of t)\<^sup>* `` {pid}"
  have "(parent_of t)\<^sup>* `` {pid} \<subseteq> insert pid (keys t)" by (auto elim: rtranclE dest: parent_keys)
  then have fin: "finite (group_of t ` ?D)" by (rule finite_imageI [OF finite_subset]) (simp add: keys_def)
  have "snapshot = Inr (group_of t ` ?D)"
    using topology_groups_collect [OF t, of n] assms(1,2) t by simp
  with assms(3) have "drain (group_of t ` ?D) looks [] = (ok, m)" by (simp add: stop_topology_def)
  with drain_verified [OF fin, of looks "[]" m] assms(3) t show ?thesis
    by (auto simp: stop_topology_def split: option.splits if_splits)
next
  case False
  with assms(2,3) show ?thesis
    by (auto simp: topology_groups_def stop_topology_def split: sum.splits option.splits if_splits)
qed

lemma verified_stop_leaves_nothing_witness:
  "\<exists>t kill0. process_table (PsListed (join_lines [''  1 0 1'', '' 10 1 10'', '' 11 10 11''])) = Inr t
     \<and> map_of t 10 \<noteq> None \<and> kill0 \<in> set [\<lambda>_. ProcessLookupError] \<and> kill0 (group_of t 11) = ProcessLookupError"
proof -
  let ?r = "PsListed (join_lines [''  1 0 1'', '' 10 1 10'', '' 11 10 11''])"
  let ?t = "[(1, 0, 1), (10, 1, 10), (11, 10, 11)] :: processes"
  have t: "process_table ?r = Inr ?t" by code_simp
  have "(10, 10) \<notin> (parent_of ?t)\<^sup>+" by (rule acyclic_table) simp
  with t have walk: "\<forall>t. process_table ?r = Inr t \<longrightarrow> (10, 10) \<notin> (parent_of t)\<^sup>+ \<and> length t \<le> 3" by simp
  have g: "topology_groups ?r 10 3 = Some (Inr {10, 11})" by code_simp
  have s: "stop_topology (Inr {10, 11}) (Some 10) False [\<lambda>_. ProcessLookupError] = ((True, []), [SigTerm 10, SigKill 10])"
    by code_simp
  have "(10, 11) \<in> (parent_of ?t)\<^sup>*" by (rule r_into_rtrancl) (simp add: parent_of_def)
  with verified_stop_leaves_nothing [OF walk g s] t show ?thesis by fastforce
qed

end
