(* ===== verification/Workers.thy ===== *)
theory Workers
  imports Consumer "HOL-Library.Multiset"
begin

text \<open>
  Workers competing for the shared queue: \<open>worker.handle_job\<close> as RabbitMQ's callback, among other
  workers' deliveries, acknowledgements, failures and crashes. The broker is a record of calls with
  the locale \<open>work_queue\<close> of what it documents: an unacknowledged delivery goes back to the queue
  when its worker's connection ends.
\<close>

section \<open>The broker and the workers\<close>

text \<open>A delivery: the worker, its tag, and the parsed body.\<close>

type_synonym delivery = "nat \<times> nat \<times> json"

record 'q broker =
  q_publish :: "json \<Rightarrow> 'q \<Rightarrow> 'q"
  q_deliver :: "nat \<Rightarrow> 'q \<Rightarrow> (nat \<times> json \<times> 'q) option"
  q_ack :: "nat \<Rightarrow> nat \<Rightarrow> 'q \<Rightarrow> 'q"
  q_close :: "nat \<Rightarrow> 'q \<Rightarrow> 'q"

text \<open>
  The queue, the services, what the workers have in hand, not yet counted in Redis or counted but
  not yet acknowledged, and, for the statements only, what was published and acknowledged.
\<close>

record ('q, 'w) pool =
  pool_queue :: 'q
  pool_world :: 'w
  pool_busy :: "delivery multiset"
  pool_recorded :: "delivery multiset"
  pool_published :: "json multiset"
  pool_acked :: "json multiset"

text \<open>A worker's process or connection ends, with everything it had in hand.\<close>

definition worker_gone :: "'q broker \<Rightarrow> nat \<Rightarrow> ('q, 'w) pool \<Rightarrow> ('q, 'w) pool" where
  "worker_gone br wk s =
     s\<lparr>pool_queue := q_close br wk (pool_queue s),
       pool_busy := filter_mset (\<lambda>d. fst d \<noteq> wk) (pool_busy s),
       pool_recorded := filter_mset (\<lambda>d. fst d \<noteq> wk) (pool_recorded s)\<rparr>"

text \<open>
  One worker's callback up to its acknowledgement. An exception leaves \<open>start_consuming\<close>, and the
  worker with it.
\<close>

definition work_on ::
    "'w redis \<Rightarrow> 'q broker \<Rightarrow> string \<Rightarrow> answer \<Rightarrow> rat \<Rightarrow> delivery \<Rightarrow> ('q, 'w) pool \<Rightarrow> ('q, 'w) pool" where
  "work_on rd br pre ans delay d s =
     (case handle_job rd pre ans delay (fst (snd d)) (Some (snd (snd d))) (pool_world s) of
        (trace, w1) \<Rightarrow>
          if Acked (fst (snd d)) \<in> set trace
          then s\<lparr>pool_world := w1, pool_busy := pool_busy s - {#d#}, pool_recorded := add_mset d (pool_recorded s)\<rparr>
          else worker_gone br (fst d) (s\<lparr>pool_world := w1\<rparr>))"

definition acknowledge :: "'q broker \<Rightarrow> delivery \<Rightarrow> ('q, 'w) pool \<Rightarrow> ('q, 'w) pool" where
  "acknowledge br d s =
     s\<lparr>pool_queue := q_ack br (fst d) (fst (snd d)) (pool_queue s), pool_recorded := pool_recorded s - {#d#},
       pool_acked := add_mset (snd (snd d)) (pool_acked s)\<rparr>"

inductive pool_step ::
    "'w redis \<Rightarrow> 'q broker \<Rightarrow> string \<Rightarrow> ('w \<Rightarrow> 'w) set \<Rightarrow> ('q, 'w) pool \<Rightarrow> ('q, 'w) pool \<Rightarrow> bool"
  for rd br pre others where
  publish: "pool_step rd br pre others s (s\<lparr>pool_queue := q_publish br (job_body e) (pool_queue s),
     pool_published := add_mset (job_body e) (pool_published s)\<rparr>)"
| deliver: "q_deliver br wk (pool_queue s) = Some (tag, j, q1) \<Longrightarrow>
     pool_step rd br pre others s (s\<lparr>pool_queue := q1, pool_busy := add_mset (wk, tag, j) (pool_busy s)\<rparr>)"
| work: "d \<in># pool_busy s \<Longrightarrow> pool_step rd br pre others s (work_on rd br pre ans delay d s)"
| ack: "d \<in># pool_recorded s \<Longrightarrow> pool_step rd br pre others s (acknowledge br d s)"
| crash: "pool_step rd br pre others s (worker_gone br wk s)"
| other: "f \<in> others \<Longrightarrow> pool_step rd br pre others s (s\<lparr>pool_world := f (pool_world s)\<rparr>)"

inductive_cases pool_stepE: "pool_step rd br pre others s s'"

section \<open>What the broker promises\<close>

locale work_queue =
  fixes br :: "'q broker" and waiting :: "'q \<Rightarrow> json multiset" and held :: "'q \<Rightarrow> delivery multiset"
  assumes publish_law: "waiting (q_publish br j1 q1) = add_mset j1 (waiting q1)" "held (q_publish br j1 q1) = held q1"
    and deliver_law: "q_deliver br wk2 q2 = Some (tag2, j2, p2) \<Longrightarrow> j2 \<in># waiting q2
      \<and> waiting p2 = waiting q2 - {#j2#} \<and> held p2 = add_mset (wk2, tag2, j2) (held q2)
      \<and> filter_mset (\<lambda>d. fst d = wk2 \<and> fst (snd d) = tag2) (held q2) = {#}"
    and ack_law: "filter_mset (\<lambda>d. fst d = wk3 \<and> fst (snd d) = tag3) (held q3) = {#d3#}
      \<Longrightarrow> waiting (q_ack br wk3 tag3 q3) = waiting q3 \<and> held (q_ack br wk3 tag3 q3) = held q3 - {#d3#}"
    and close_law: "waiting (q_close br wk4 q4) = waiting q4 + image_mset (snd \<circ> snd) (filter_mset (\<lambda>d. fst d = wk4) (held q4))"
      "held (q_close br wk4 q4) = filter_mset (\<lambda>d. fst d \<noteq> wk4) (held q4)"

section \<open>Counting runs\<close>

text \<open>The runs of an event that Redis's hash holds, and that it holds numbers.\<close>

definition runs_of :: "keyspace \<Rightarrow> string \<Rightarrow> string \<Rightarrow> int" where
  "runs_of d pre i = (case int_text (map_of (as_hash (d (jobs_runs_key pre))) i) of Some n \<Rightarrow> n | None \<Rightarrow> 0)"

definition runs_ok :: "keyspace \<Rightarrow> string \<Rightarrow> bool" where
  "runs_ok d pre \<longleftrightarrow> hash_slot (d (jobs_runs_key pre))
     \<and> (\<forall>i. int_text (map_of (as_hash (d (jobs_runs_key pre))) i) \<noteq> None)"

definition body_id :: "json \<Rightarrow> string" where
  "body_id j = (case jget j ''event_id'' of Some (JStr i) \<Rightarrow> i | _ \<Rightarrow> [])"

lemma body_id_job [simp]: "body_id (job_body e) = event_id e"
  by (simp add: body_id_def job_body_def)

context redis_server
begin

lemma record_execution_runs:
  assumes "runs_ok (db w) pre"
  shows "runs_ok (db (record_execution rd i pre w)) pre"
    and "runs_of (db (record_execution rd i pre w)) pre i' = runs_of (db w) pre i' + (if i' = i then 1 else 0)"
proof -
  obtain n where n: "int_text (map_of (as_hash (db w (jobs_runs_key pre))) i) = Some n" and slot: "hash_slot (db w (jobs_runs_key pre))"
    using assms by (auto simp: runs_ok_def)
  note run = hincrby_law(1) [OF slot n, of 1]
  show "runs_ok (db (record_execution rd i pre w)) pre"
    using assms by (simp add: record_execution_def run runs_ok_def update_conv' int_text_def)
  show "runs_of (db (record_execution rd i pre w)) pre i' = runs_of (db w) pre i' + (if i' = i then 1 else 0)"
    using n by (simp add: record_execution_def run runs_of_def update_conv' int_text_def)
qed

text \<open>A job of the consumers is counted exactly when it can be acknowledged; a failure counts at most once.\<close>

lemma handle_job_runs:
  assumes "runs_ok (db w) pre" and "handle_job rd pre ans delay tag (Some (job_body e)) w = (trace, w')"
  shows "runs_ok (db w') pre" and "runs_of (db w) pre i \<le> runs_of (db w') pre i"
    and "Acked tag \<in> set trace \<Longrightarrow> runs_of (db w') pre i = runs_of (db w) pre i + (if i = event_id e then 1 else 0)"
  using assms record_execution_runs [OF assms(1)]
  by (auto simp: handle_job_def job_body_def answered_def split: answer.splits)

end

text \<open>\<open>job_runs\<close> reports exactly these counts.\<close>

lemma text_counts_all:
  assumes "distinct_keys kvs" and "\<forall>(k, v) \<in> set kvs. py_int v \<noteq> None"
  shows "\<exists>d. text_counts 0 kvs = Some d \<and> (\<forall>i. map_of d i = Option.bind (map_of kvs i) py_int)"
  using assms
proof (induction kvs rule: rev_induct)
  case (snoc kv kvs)
  then obtain k v n d where kv: "kv = (k, v)" "py_int v = Some n"
    and d: "text_counts 0 kvs = Some d" "\<forall>i. map_of d i = Option.bind (map_of kvs i) py_int" by force
  have "map_of kvs k = None" using snoc.prems(1) kv(1) by (simp add: map_of_eq_None_iff)
  then show ?case using kv d
    by (intro exI [of _ "AList.update k n d"]) (auto simp: text_counts_def update_conv' map_add_def split: option.splits)
qed (simp add: text_counts_def)

context redis_server
begin

lemma job_runs_value:
  assumes "runs_ok (db w) pre"
  shows "\<exists>d. job_runs rd pre w = Some d \<and> (\<forall>i. (case map_of d i of Some n \<Rightarrow> n | None \<Rightarrow> 0) = runs_of (db w) pre i)"
proof -
  let ?kvs = "hgetall rd w (jobs_runs_key pre)"
  have "py_int v \<noteq> None" if "(k, v) \<in> set ?kvs" for k v
  proof -
    have "map_of (as_hash (db w (jobs_runs_key pre))) k = Some v"
      using that hgetall_law [of w "jobs_runs_key pre"] by (metis map_of_is_SomeI)
    with assms show ?thesis unfolding runs_ok_def int_text_def by (metis option.simps(5))
  qed
  then have "\<forall>(k, v) \<in> set ?kvs. py_int v \<noteq> None" by blast
  from text_counts_all [OF hgetall_law(2) this] obtain d where
    "job_runs rd pre w = Some d" "\<forall>i. map_of d i = Option.bind (map_of ?kvs i) py_int"
    by (auto simp: job_runs_def)
  then show ?thesis
    using assms by (auto simp: runs_of_def runs_ok_def int_text_def hgetall_law(1) split: option.splits)
qed

end

section \<open>The invariant\<close>

abbreviation bodies :: "delivery multiset \<Rightarrow> json multiset" where
  "bodies D \<equiv> image_mset (snd \<circ> snd) D"

definition of_event :: "string \<Rightarrow> json multiset \<Rightarrow> nat" where
  "of_event i J = size (filter_mset (\<lambda>j. body_id j = i) J)"

lemma of_event_simps [simp]:
  "of_event i {#} = 0" "of_event i (add_mset j J) = (if body_id j = i then 1 else 0) + of_event i J"
  "of_event i (J + K) = of_event i J + of_event i K"
  by (simp_all add: of_event_def)

lemma of_event_mono: "J \<subseteq># K \<Longrightarrow> of_event i J \<le> of_event i K"
  by (simp add: of_event_def size_mset_mono multiset_filter_mono)

definition tags_unique :: "delivery multiset \<Rightarrow> bool" where
  "tags_unique D \<longleftrightarrow> (\<forall>wk tag. size (filter_mset (\<lambda>d. fst d = wk \<and> fst (snd d) = tag) D) \<le> 1)"

lemma tags_unique_subset:
  assumes "tags_unique D" and "E \<subseteq># D"
  shows "tags_unique E"
  unfolding tags_unique_def
proof (intro allI)
  fix wk tag
  have "size (filter_mset (\<lambda>d. fst d = wk \<and> fst (snd d) = tag) E) \<le> size (filter_mset (\<lambda>d. fst d = wk \<and> fst (snd d) = tag) D)"
    by (rule size_mset_mono [OF multiset_filter_mono [OF assms(2)]])
  also have "\<dots> \<le> 1" using assms(1) unfolding tags_unique_def by blast
  finally show "size (filter_mset (\<lambda>d. fst d = wk \<and> fst (snd d) = tag) E) \<le> 1" .
qed

lemma tags_unique_single:
  assumes "tags_unique D" and "d \<in># D"
  shows "filter_mset (\<lambda>x. fst x = fst d \<and> fst (snd x) = fst (snd d)) D = {#d#}"
proof -
  let ?F = "filter_mset (\<lambda>x. fst x = fst d \<and> fst (snd x) = fst (snd d)) D"
  have "d \<in># ?F" using assms(2) by simp
  moreover have "size ?F \<le> 1" using assms(1) unfolding tags_unique_def by blast
  ultimately show ?thesis by (auto dest: multi_member_split)
qed

locale job_pool = redis_server rd db now + work_queue br waiting held
  for rd :: "'w redis" and db :: "'w \<Rightarrow> keyspace" and now :: "'w \<Rightarrow> int"
    and br :: "'q broker" and waiting :: "'q \<Rightarrow> json multiset" and held :: "'q \<Rightarrow> delivery multiset"
begin

text \<open>
  Workers and broker agree on what is unacknowledged; every published job is waiting, unacknowledged
  or acknowledged; and Redis counts each job no later than its acknowledgement.
\<close>

definition pool_inv :: "string \<Rightarrow> ('q, 'w) pool \<Rightarrow> bool" where
  "pool_inv pre s \<longleftrightarrow>
     held (pool_queue s) = pool_busy s + pool_recorded s \<and> tags_unique (held (pool_queue s))
     \<and> pool_published s = waiting (pool_queue s) + bodies (held (pool_queue s)) + pool_acked s
     \<and> (\<forall>j \<in># pool_published s. \<exists>e. j = job_body e)
     \<and> runs_ok (db (pool_world s)) pre
     \<and> (\<forall>i. int (of_event i (pool_acked s + bodies (pool_recorded s))) \<le> runs_of (db (pool_world s)) pre i)"

lemma gone_inv:
  assumes "pool_inv pre s"
  shows "pool_inv pre (worker_gone br wk s)"
proof -
  let ?keep = "filter_mset (\<lambda>d. fst d \<noteq> wk)" and ?drop = "filter_mset (\<lambda>d. fst d = wk)"
  have part: "D = ?keep D + ?drop D" for D :: "delivery multiset"
    using multiset_partition [of D "\<lambda>d. fst d = wk"] by (simp add: add.commute)
  have "bodies (held (pool_queue s)) = bodies (?keep (held (pool_queue s))) + bodies (?drop (held (pool_queue s)))"
    by (metis part image_mset_union)
  moreover have "tags_unique (?keep (held (pool_queue s)))"
    using assms tags_unique_subset [OF _ multiset_filter_subset] unfolding pool_inv_def by blast
  moreover have "of_event i (bodies (?keep (pool_recorded s))) \<le> of_event i (bodies (pool_recorded s))" for i
    by (intro of_event_mono image_mset_subseteq_mono) simp
  ultimately show ?thesis
    using assms unfolding pool_inv_def worker_gone_def
    by (auto simp: close_law ac_simps intro: order_trans [rotated])
qed

lemma deliver_inv:
  assumes "pool_inv pre s" and "q_deliver br wk (pool_queue s) = Some (tag, j, q1)"
  shows "pool_inv pre (s\<lparr>pool_queue := q1, pool_busy := add_mset (wk, tag, j) (pool_busy s)\<rparr>)"
proof -
  note law = deliver_law [OF assms(2)]
  have "tags_unique (held q1)" unfolding tags_unique_def
  proof (intro allI)
    fix wk' tag'
    show "size (filter_mset (\<lambda>d. fst d = wk' \<and> fst (snd d) = tag') (held q1)) \<le> 1"
    proof (cases "wk' = wk \<and> tag' = tag")
      case True
      with law show ?thesis by simp
    next
      case False
      then have "filter_mset (\<lambda>d. fst d = wk' \<and> fst (snd d) = tag') (held q1)
          = filter_mset (\<lambda>d. fst d = wk' \<and> fst (snd d) = tag') (held (pool_queue s))" using law by auto
      moreover have "size (filter_mset (\<lambda>d. fst d = wk' \<and> fst (snd d) = tag') (held (pool_queue s))) \<le> 1"
        using assms(1) unfolding pool_inv_def tags_unique_def by blast
      ultimately show ?thesis by simp
    qed
  qed
  moreover have "waiting (pool_queue s) = add_mset j (waiting q1)" using law by simp
  moreover have "held q1 = add_mset (wk, tag, j) (held (pool_queue s))" using law by simp
  ultimately show ?thesis using assms(1) unfolding pool_inv_def by auto
qed

lemma work_inv:
  assumes "pool_inv pre s" and "d \<in># pool_busy s"
  shows "pool_inv pre (work_on rd br pre ans delay d s)"
proof -
  obtain B where B: "pool_busy s = add_mset d B" using assms(2) by (metis multi_member_split)
  obtain trace w1 where run: "handle_job rd pre ans delay (fst (snd d)) (Some (snd (snd d))) (pool_world s) = (trace, w1)"
    by fastforce
  have "snd (snd d) \<in># pool_published s" using assms(1) B by (simp add: pool_inv_def)
  with assms(1) obtain e where e: "snd (snd d) = job_body e" unfolding pool_inv_def by blast
  have ok: "runs_ok (db (pool_world s)) pre" using assms(1) by (simp add: pool_inv_def)
  note runs = handle_job_runs [OF ok run [unfolded e]]
  have world: "pool_inv pre (s\<lparr>pool_world := w1\<rparr>)"
    using assms(1) runs(1,2) unfolding pool_inv_def by (auto intro: order_trans)
  show ?thesis
  proof (cases "Acked (fst (snd d)) \<in> set trace")
    case True
    then show ?thesis using assms(1) runs B e unfolding work_on_def run pool_inv_def by auto
  next
    case False
    then show ?thesis using gone_inv [OF world, of "fst d"] by (simp add: work_on_def run)
  qed
qed

lemma ack_inv:
  assumes "pool_inv pre s" and "d \<in># pool_recorded s"
  shows "pool_inv pre (acknowledge br d s)"
proof -
  obtain R where R: "pool_recorded s = add_mset d R" using assms(2) by (metis multi_member_split)
  have unique: "tags_unique (held (pool_queue s))" and d: "d \<in># held (pool_queue s)"
    using assms unfolding pool_inv_def by auto
  note law = ack_law [OF tags_unique_single [OF unique d]]
  have "tags_unique (held (pool_queue s) - {#d#})"
    by (rule tags_unique_subset [OF unique]) simp
  then show ?thesis using assms(1) law R unfolding pool_inv_def acknowledge_def by (auto simp: ac_simps)
qed

lemma step_inv:
  assumes "pool_step rd br pre others s s'" and "pool_inv pre s"
    and "\<forall>f \<in> others. \<forall>w. db (f w) (jobs_runs_key pre) = db w (jobs_runs_key pre)"
  shows "pool_inv pre s'"
  using assms(1)
proof cases
  case (publish e)
  then show ?thesis using assms(2) unfolding pool_inv_def by (auto simp: publish_law)
next
  case (other f)
  then have "runs_ok (db (f w)) pre \<longleftrightarrow> runs_ok (db w) pre" "runs_of (db (f w)) pre i = runs_of (db w) pre i" for w i
    using assms(3) by (simp_all add: runs_ok_def runs_of_def)
  with other show ?thesis using assms(2) unfolding pool_inv_def by auto
qed (use assms(2) deliver_inv work_inv ack_inv gone_inv in auto)

lemma steps_inv:
  assumes "(pool_step rd br pre others)\<^sup>*\<^sup>* s s'" and "pool_inv pre s"
    and "\<forall>f \<in> others. \<forall>w. db (f w) (jobs_runs_key pre) = db w (jobs_runs_key pre)"
  shows "pool_inv pre s'"
  using assms(1,2) by (induction rule: rtranclp_induct) (auto intro: step_inv [OF _ _ assms(3)])

end

section \<open>A reference broker\<close>

record ref_queue =
  ref_waiting :: "json list"
  ref_held :: "delivery list"

definition next_tag :: "ref_queue \<Rightarrow> nat" where
  "next_tag q = Suc (Max (insert 0 (set (map (fst \<circ> snd) (ref_held q)))))"

definition ref_broker :: "ref_queue broker" where
  "ref_broker =
     \<lparr>q_publish = \<lambda>j q. q\<lparr>ref_waiting := ref_waiting q @ [j]\<rparr>,
      q_deliver = \<lambda>wk q. (case ref_waiting q of [] \<Rightarrow> None
        | j # js \<Rightarrow> Some (next_tag q, j, q\<lparr>ref_waiting := js, ref_held := (wk, next_tag q, j) # ref_held q\<rparr>)),
      q_ack = \<lambda>wk tag q. q\<lparr>ref_held := filter (\<lambda>d. \<not> (fst d = wk \<and> fst (snd d) = tag)) (ref_held q)\<rparr>,
      q_close = \<lambda>wk q. q\<lparr>ref_waiting := map (snd \<circ> snd) (filter (\<lambda>d. fst d = wk) (ref_held q)) @ ref_waiting q,
        ref_held := filter (\<lambda>d. fst d \<noteq> wk) (ref_held q)\<rparr>\<rparr>"

lemma next_tag_fresh: "d \<in> set (ref_held q) \<Longrightarrow> fst (snd d) \<noteq> next_tag q"
proof -
  assume "d \<in> set (ref_held q)"
  then have "fst (snd d) \<le> Max (insert 0 (set (map (fst \<circ> snd) (ref_held q))))" by (intro Max_ge) force+
  then show ?thesis by (simp add: next_tag_def)
qed

lemma filter_rest: "filter_mset P M = {#d#} \<Longrightarrow> filter_mset (\<lambda>x. \<not> P x) M = M - {#d#}"
  using multiset_partition [of M P] by (metis add_diff_cancel_left')

interpretation ref_queueing: work_queue ref_broker "\<lambda>q. mset (ref_waiting q)" "\<lambda>q. mset (ref_held q)"
proof unfold_locales
  fix wk3 tag3 and q3 :: ref_queue and d3 :: delivery
  assume one: "filter_mset (\<lambda>d. fst d = wk3 \<and> fst (snd d) = tag3) (mset (ref_held q3)) = {#d3#}"
  from filter_rest [OF one] show "mset (ref_waiting (q_ack ref_broker wk3 tag3 q3)) = mset (ref_waiting q3)
      \<and> mset (ref_held (q_ack ref_broker wk3 tag3 q3)) = mset (ref_held q3) - {#d3#}"
    by (simp add: ref_broker_def)
qed (auto simp: ref_broker_def filter_mset_eq_mempty_iff dest: next_tag_fresh split: list.splits)

interpretation ref_pool: job_pool ref_redis ref_db ref_now ref_broker "\<lambda>q. mset (ref_waiting q)" "\<lambda>q. mset (ref_held q)"
  by unfold_locales

section \<open>Properties\<close>

text \<open>A queue that starts empty, with workers that hold nothing.\<close>

definition fresh_pool :: "('w \<Rightarrow> keyspace) \<Rightarrow> ('q \<Rightarrow> json multiset) \<Rightarrow> ('q \<Rightarrow> delivery multiset) \<Rightarrow> string \<Rightarrow> ('q, 'w) pool \<Rightarrow> bool" where
  "fresh_pool db waiting held pre s \<longleftrightarrow>
     waiting (pool_queue s) = {#} \<and> held (pool_queue s) = {#} \<and> pool_busy s = {#} \<and> pool_recorded s = {#}
     \<and> pool_published s = {#} \<and> pool_acked s = {#} \<and> runs_ok (db (pool_world s)) pre
     \<and> (\<forall>i. 0 \<le> runs_of (db (pool_world s)) pre i)"

lemma pool_reachable:
  assumes "job_pool rd db now br waiting held" and "fresh_pool db waiting held pre s"
    and "\<forall>f \<in> others. \<forall>w. db (f w) (jobs_runs_key pre) = db w (jobs_runs_key pre)"
    and "(pool_step rd br pre others)\<^sup>*\<^sup>* s s'"
  shows "job_pool.pool_inv db waiting held pre s'"
proof (rule job_pool.steps_inv [OF assms(1,4) _ assms(3)])
  show "job_pool.pool_inv db waiting held pre s"
    using assms(2) by (simp add: job_pool.pool_inv_def [OF assms(1)] fresh_pool_def tags_unique_def)
qed

lemma pool_conserved:
  assumes "job_pool rd db now br waiting held" and "fresh_pool db waiting held pre s"
    and "\<forall>f \<in> others. \<forall>w. db (f w) (jobs_runs_key pre) = db w (jobs_runs_key pre)"
    and "(pool_step rd br pre others)\<^sup>*\<^sup>* s s'"
  shows "pool_published s' = waiting (pool_queue s') + bodies (held (pool_queue s')) + pool_acked s'"
  using pool_reachable [OF assms] unfolding job_pool.pool_inv_def [OF assms(1)] by blast

lemma pool_counted:
  assumes "job_pool rd db now br waiting held" and "fresh_pool db waiting held pre s"
    and "\<forall>f \<in> others. \<forall>w. db (f w) (jobs_runs_key pre) = db w (jobs_runs_key pre)"
    and "(pool_step rd br pre others)\<^sup>*\<^sup>* s s'"
  shows "\<exists>runs. job_runs rd pre (pool_world s') = Some runs
        \<and> (\<forall>i. int (of_event i (pool_acked s')) \<le> (case map_of runs i of Some n \<Rightarrow> n | None \<Rightarrow> 0))"
proof -
  have inv: "job_pool.pool_inv db waiting held pre s'" by (rule pool_reachable [OF assms])
  then have "\<forall>i. int (of_event i (pool_acked s' + bodies (pool_recorded s'))) \<le> runs_of (db (pool_world s')) pre i"
    unfolding job_pool.pool_inv_def [OF assms(1)] by blast
  then have le: "int (of_event i (pool_acked s')) \<le> runs_of (db (pool_world s')) pre i" for i
    by (auto dest: spec [of _ i])
  from inv have "runs_ok (db (pool_world s')) pre" by (simp add: job_pool.pool_inv_def [OF assms(1)])
  with redis_server.job_runs_value [OF job_pool.axioms(1) [OF assms(1)]]
  obtain d where "job_runs rd pre (pool_world s') = Some d"
    "\<forall>i. (case map_of d i of Some n \<Rightarrow> n | None \<Rightarrow> 0) = runs_of (db (pool_world s')) pre i" by blast
  with le show ?thesis by auto
qed

text \<open>
  C25: however workers take, fail, crash and compete, a published job is waiting, unacknowledged or
  acknowledged, and Redis has counted at least one run for every acknowledged job: when nothing
  is waiting or unacknowledged, \<open>job_runs\<close> shows for every event at least as many runs as jobs
  were published for it.
\<close>

theorem no_job_is_lost:
  assumes "job_pool rd db now br waiting held" and "fresh_pool db waiting held pre s"
    and "\<forall>f \<in> others. \<forall>w. db (f w) (jobs_runs_key pre) = db w (jobs_runs_key pre)"
    and "(pool_step rd br pre others)\<^sup>*\<^sup>* s s'"
  shows "pool_published s' = waiting (pool_queue s') + bodies (held (pool_queue s')) + pool_acked s'
    \<and> (\<exists>runs. job_runs rd pre (pool_world s') = Some runs
        \<and> (\<forall>i. int (of_event i (pool_acked s')) \<le> (case map_of runs i of Some n \<Rightarrow> n | None \<Rightarrow> 0)))"
  using pool_conserved [OF assms] pool_counted [OF assms] by blast

definition ex_pool :: "(ref_queue, ref_stores) pool" where
  "ex_pool = \<lparr>pool_queue = \<lparr>ref_waiting = [], ref_held = []\<rparr>, pool_world = ex_stores, pool_busy = {#}, pool_recorded = {#},
     pool_published = {#}, pool_acked = {#}\<rparr>"

definition ex_delivery :: delivery where
  "ex_delivery = (7, 1, job_body ex_event)"

definition ex_taken :: "(ref_queue, ref_stores) pool" where
  "ex_taken = ex_pool\<lparr>pool_queue := \<lparr>ref_waiting = [], ref_held = [ex_delivery]\<rparr>, pool_busy := {#ex_delivery#},
     pool_published := {#job_body ex_event#}\<rparr>"

lemma ex_taken_reached: "(pool_step ref_redis ref_broker [] {})\<^sup>*\<^sup>* ex_pool ex_taken"
proof -
  let ?s = "ex_pool\<lparr>pool_queue := q_publish ref_broker (job_body ex_event) (pool_queue ex_pool),
     pool_published := add_mset (job_body ex_event) (pool_published ex_pool)\<rparr>"
  have "pool_step ref_redis ref_broker [] {} ex_pool ?s" by (rule pool_step.publish)
  moreover have "q_deliver ref_broker 7 (pool_queue ?s) = Some (1, job_body ex_event, \<lparr>ref_waiting = [], ref_held = [ex_delivery]\<rparr>)"
    by (simp add: ref_broker_def ex_pool_def next_tag_def ex_delivery_def)
  from pool_step.deliver [OF this, of ref_redis "[]" "{}"] have "pool_step ref_redis ref_broker [] {} ?s ex_taken"
    by (simp add: ex_taken_def ex_pool_def ex_delivery_def)
  ultimately show ?thesis by (rule converse_rtranclp_into_rtranclp [OF _ r_into_rtranclp])
qed

lemma ex_pool_fresh: "fresh_pool ref_db (\<lambda>q. mset (ref_waiting q)) (\<lambda>q. mset (ref_held q)) [] ex_pool"
  by (simp add: fresh_pool_def ex_pool_def ex_stores_def runs_ok_def runs_of_def int_text_def)

definition ex_drained :: "(ref_queue, ref_stores) pool" where
  "ex_drained = acknowledge ref_broker ex_delivery (work_on ref_redis ref_broker [] Done 0 ex_delivery ex_taken)"

lemma ex_drained_state:
  "pool_acked ex_drained = {#job_body ex_event#}" "pool_published ex_drained = {#job_body ex_event#}"
  "ref_waiting (pool_queue ex_drained) = []" "ref_held (pool_queue ex_drained) = []"
  by (simp_all add: ex_drained_def work_on_def ex_taken_def ex_pool_def ex_delivery_def handle_job_def job_body_def
      answered_def acknowledge_def ref_broker_def)

lemma ex_drained_reached: "(pool_step ref_redis ref_broker [] {})\<^sup>*\<^sup>* ex_pool ex_drained"
proof -
  let ?w = "work_on ref_redis ref_broker [] Done 0 ex_delivery ex_taken"
  have "pool_step ref_redis ref_broker [] {} ex_taken ?w" by (rule pool_step.work) (simp add: ex_taken_def)
  moreover have "ex_delivery \<in># pool_recorded ?w"
    by (simp add: work_on_def ex_taken_def ex_pool_def ex_delivery_def handle_job_def job_body_def answered_def)
  then have "pool_step ref_redis ref_broker [] {} ?w ex_drained" unfolding ex_drained_def by (rule pool_step.ack)
  ultimately show ?thesis using ex_taken_reached by (meson rtranclp.rtrancl_into_rtrancl)
qed

theorem no_job_is_lost_witness:
  "\<exists>runs. job_runs ref_redis [] (pool_world ex_drained) = Some runs
     \<and> 1 \<le> (case map_of runs (event_id ex_event) of Some n \<Rightarrow> n | None \<Rightarrow> 0)"
proof -
  from no_job_is_lost [OF ref_pool.job_pool_axioms ex_pool_fresh _ ex_drained_reached]
  obtain runs where "job_runs ref_redis [] (pool_world ex_drained) = Some runs"
    "\<forall>i. int (of_event i (pool_acked ex_drained)) \<le> (case map_of runs i of Some n \<Rightarrow> n | None \<Rightarrow> 0)" by auto
  then show ?thesis by (auto simp: ex_drained_state dest: spec [of _ "event_id ex_event"])
qed

end
