(* ===== verification/Bulkhead.thy ===== *)
theory Bulkhead
  imports Pipeline_Prelude
begin

text \<open>
  \<open>bulkhead.py\<close>: permits with their holders, the request's budget, the worker thread's own
  hold, and a store's gate. The threads, the event loop and kazoo's callbacks interleave, so
  the bulkhead is a step relation: each rule is one locked section of the code, in any order
  the code allows.

  A holder is the dispatcher or the number of an \<open>object()\<close> made by \<open>hold\<close>; a permit
  counts the objects it made. \<open>reading\<close> records whether a worker thread is inside the
  store's read, \<open>watched\<close> the holders kazoo will let go of. Two more fields say what is really
  going on, so that the permits can be compared with it: \<open>dispatching\<close> until the dispatcher is
  done, \<open>outstanding\<close> the kazoo requests that have not completed. The step relation keeps them
  and no operation reads them.
\<close>

section \<open>Permits\<close>

datatype bulk_error = Busy string | Unavailable string | DeadlineExceeded | PermitReleased

datatype holder = Dispatcher | Holder nat

record permit =
  holders :: "holder set"
  released :: bool
  made :: nat

definition new_permit :: permit where
  "new_permit = \<lparr>holders = {Dispatcher}, released = False, made = 0\<rparr>"

definition hold :: "permit \<Rightarrow> (bulk_error + holder) \<times> permit" where
  "hold p =
     (if released p then (Inl PermitReleased, p)
      else (Inr (Holder (made p)),
            p\<lparr>holders := insert (Holder (made p)) (holders p), made := Suc (made p)\<rparr>))"

text \<open>\<open>_drop\<close>: the permit, and whether this call releases the slot to the gate.\<close>

definition drop_holder :: "permit \<Rightarrow> holder \<Rightarrow> permit \<times> bool" where
  "drop_holder p h =
     (let p1 = p\<lparr>holders := holders p - {h}\<rparr> in
      if holders p1 \<noteq> {} \<or> released p then (p1, False) else (p1\<lparr>released := True\<rparr>, True))"

definition dispatch_finished :: "permit \<Rightarrow> permit \<times> bool" where
  "dispatch_finished p = drop_holder p Dispatcher"

section \<open>Budgets\<close>

record budget =
  deadline :: seconds
  per_call :: "seconds option"

definition new_budget :: "seconds \<Rightarrow> seconds \<Rightarrow> seconds option \<Rightarrow> budget" where
  "new_budget now secs cap = \<lparr>deadline = now + secs, per_call = cap\<rparr>"

definition remaining :: "budget \<Rightarrow> seconds \<Rightarrow> bulk_error + seconds" where
  "remaining b now = (let left = deadline b - now in if left \<le> 0 then Inl DeadlineExceeded else Inr left)"

definition call_timeout :: "budget \<Rightarrow> seconds \<Rightarrow> bulk_error + seconds" where
  "call_timeout b now =
     (case remaining b now of
        Inl e \<Rightarrow> Inl e
      | Inr left \<Rightarrow> Inr (case per_call b of None \<Rightarrow> left | Some cap \<Rightarrow> min left cap))"

text \<open>
  \<open>coordination._read\<close> with a budget: nothing is sent once it is spent; a call kazoo answers
  within the timeout (after \<open>delay\<close>) gives its result; otherwise the request is abandoned to
  the permit and the wait raises a timeout.
\<close>

datatype 'a read_result = ReadValue 'a | ReadExpired | ReadAbandoned

definition read_within :: "budget \<Rightarrow> seconds \<Rightarrow> (seconds \<times> 'a) option \<Rightarrow> 'a read_result" where
  "read_within b now answer =
     (case call_timeout b now of
        Inl _ \<Rightarrow> ReadExpired
      | Inr timeout \<Rightarrow>
          (case answer of
             None \<Rightarrow> ReadAbandoned
           | Some (delay, v) \<Rightarrow> if delay \<le> timeout then ReadValue v else ReadAbandoned))"

section \<open>The bulkhead\<close>

datatype worker_state = Pending | Running | Abandoned

record admission =
  permit_of :: permit
  worker_holder :: holder
  worker_state :: worker_state
  reading :: bool
  watched :: "holder set"
  dispatching :: bool
  outstanding :: "holder set"

record bulkhead =
  limit :: nat
  gate :: nat
  overflow :: bool
  requests :: "admission list"

text \<open>\<open>BoundedSemaphore(limit)\<close>: a release beyond the starting value raises.\<close>

definition new_bulkhead :: "nat \<Rightarrow> bulkhead" where
  "new_bulkhead n = \<lparr>limit = n, gate = n, overflow = False, requests = []\<rparr>"

definition gate_release :: "bulkhead \<Rightarrow> bulkhead" where
  "gate_release b = (if gate b \<ge> limit b then b\<lparr>overflow := True\<rparr> else b\<lparr>gate := gate b + 1\<rparr>)"

definition set_request :: "bulkhead \<Rightarrow> nat \<Rightarrow> admission \<Rightarrow> bulkhead" where
  "set_request b i r = b\<lparr>requests := (requests b)[i := r]\<rparr>"

text \<open>\<open>admit\<close>, then \<open>_WorkerHold(permit)\<close> takes its hold.\<close>

definition admit :: "string \<Rightarrow> bulkhead \<Rightarrow> (bulk_error + permit) \<times> bulkhead" where
  "admit store b =
     (if gate b = 0 then (Inl (Busy store), b) else (Inr new_permit, b\<lparr>gate := gate b - 1\<rparr>))"

definition begin_request :: "permit \<Rightarrow> bulkhead \<Rightarrow> bulk_error + bulkhead" where
  "begin_request p b =
     (case hold p of
        (Inl e, _) \<Rightarrow> Inl e
      | (Inr h, p1) \<Rightarrow>
          Inr (b\<lparr>requests := requests b @
             [\<lparr>permit_of = p1, worker_holder = h, worker_state = Pending, reading = False, watched = {},
               dispatching = True, outstanding = {}\<rparr>]\<rparr>))"

text \<open>Dropping a holder of request \<open>i\<close>; the gate gets the slot back when it was the last.\<close>

definition drop_at :: "bulkhead \<Rightarrow> nat \<Rightarrow> holder \<Rightarrow> bulkhead" where
  "drop_at b i h =
     (let r = requests b ! i; (p, free) = drop_holder (permit_of r) h;
          b1 = set_request b i (r\<lparr>permit_of := p\<rparr>)
      in if free then gate_release b1 else b1)"

text \<open>\<open>_WorkerHold.run\<close>: the locked section before the read, and the \<open>finally\<close> after it.\<close>

definition worker_begin :: "bulkhead \<Rightarrow> nat \<Rightarrow> bulkhead" where
  "worker_begin b i =
     (let r = requests b ! i in
      if worker_state r = Abandoned then b
      else set_request b i (r\<lparr>worker_state := Running, reading := True\<rparr>))"

definition worker_end :: "bulkhead \<Rightarrow> nat \<Rightarrow> bulkhead" where
  "worker_end b i =
     (let r = requests b ! i in drop_at (set_request b i (r\<lparr>reading := False\<rparr>)) i (worker_holder r))"

text \<open>\<open>Permit.hold_until\<close>, reached from a read through \<open>Budget.abandon\<close>.\<close>

definition hold_until :: "bulkhead \<Rightarrow> nat \<Rightarrow> bulk_error + bulkhead" where
  "hold_until b i =
     (let r = requests b ! i in
      case hold (permit_of r) of
        (Inl e, _) \<Rightarrow> Inl e
      | (Inr h, p) \<Rightarrow> Inr (set_request b i (r\<lparr>permit_of := p, watched := insert h (watched r),
          outstanding := insert h (outstanding r)\<rparr>)))"

definition dispatcher_leaving :: "bulkhead \<Rightarrow> nat \<Rightarrow> bulkhead" where
  "dispatcher_leaving b i =
     (let r = requests b ! i in
      if worker_state r \<noteq> Pending then b
      else drop_at (set_request b i (r\<lparr>worker_state := Abandoned\<rparr>)) i (worker_holder r))"

text \<open>A kazoo request completes, and the dispatcher is done: what happened, apart from the permit.\<close>

definition completed :: "bulkhead \<Rightarrow> nat \<Rightarrow> holder \<Rightarrow> bulkhead" where
  "completed b i h = (let r = requests b ! i in set_request b i (r\<lparr>outstanding := outstanding r - {h}\<rparr>))"

definition dispatched :: "bulkhead \<Rightarrow> nat \<Rightarrow> bulkhead" where
  "dispatched b i = set_request b i ((requests b ! i)\<lparr>dispatching := False\<rparr>)"

text \<open>
  The interleavings. A request's thread begins once, while it is pending or abandoned; inside
  the read it may abandon kazoo requests, each of which may complete more than once; the
  dispatcher leaves at any time and drops its own hold after that.
\<close>

inductive bulk_step :: "bulkhead \<Rightarrow> bulkhead \<Rightarrow> bool" where
  enter: "admit store b = (Inr p, b1) \<Longrightarrow> begin_request p b1 = Inr b2 \<Longrightarrow> bulk_step b b2"
| begins: "i < length (requests b) \<Longrightarrow> worker_state (requests b ! i) \<noteq> Running \<Longrightarrow> bulk_step b (worker_begin b i)"
| ends: "i < length (requests b) \<Longrightarrow> reading (requests b ! i) \<Longrightarrow> bulk_step b (worker_end b i)"
| abandons: "i < length (requests b) \<Longrightarrow> reading (requests b ! i) \<Longrightarrow> hold_until b i = Inr b1 \<Longrightarrow> bulk_step b b1"
| completes: "i < length (requests b) \<Longrightarrow> h \<in> watched (requests b ! i) \<Longrightarrow> bulk_step b (drop_at (completed b i h) i h)"
| leaves: "i < length (requests b) \<Longrightarrow> bulk_step b (dispatcher_leaving b i)"
| finishes: "i < length (requests b) \<Longrightarrow> worker_state (requests b ! i) \<noteq> Pending \<Longrightarrow>
    bulk_step b (drop_at (dispatched b i) i Dispatcher)"

section \<open>Running one read\<close>

text \<open>
  \<open>Bulkhead.run\<close> as its caller sees it: the early disconnection check, admission, the read
  on its thread, and the deadline check after it. \<open>Cancelled\<close> is a native cancellation,
  which passes through.
\<close>

datatype 'a read_outcome = Returned 'a | RaisedFailure | RaisedDeadline | RaisedOther string | Cancelled

datatype 'a run_result = RunValue 'a | RunError bulk_error | RunRaised string | RunCancelled

definition run_read ::
    "string \<Rightarrow> bool option \<Rightarrow> bulkhead \<Rightarrow> budget \<Rightarrow> seconds \<Rightarrow> 'a read_outcome \<Rightarrow> bool \<Rightarrow> 'a run_result \<times> bool" where
  "run_read store is_connected b bud finished outcome failing =
     (if is_connected = Some False then (RunError (Unavailable store), failing)
      else if gate b = 0 then (RunError (Busy store), failing)
      else case outcome of
        RaisedFailure \<Rightarrow> (RunError (Unavailable store), True)
      | RaisedDeadline \<Rightarrow> (RunError (Unavailable store), True)
      | RaisedOther e \<Rightarrow> (RunRaised e, failing)
      | Cancelled \<Rightarrow> (RunCancelled, failing)
      | Returned v \<Rightarrow>
          (case remaining bud finished of
             Inl _ \<Rightarrow> (RunError (Unavailable store), True)
           | Inr _ \<Rightarrow> (RunValue v, False)))"

section \<open>The invariant\<close>

text \<open>
  A request uses its slot while its dispatcher waits, its thread has yet to start or is inside
  the read, or a kazoo request it abandoned is outstanding.
\<close>

definition in_use :: "admission \<Rightarrow> bool" where
  "in_use r \<longleftrightarrow> dispatching r \<or> worker_state r = Pending \<or> reading r \<or> outstanding r \<noteq> {}"

text \<open>The holders of a permit are exactly the users of its slot.\<close>

definition users :: "admission \<Rightarrow> holder set" where
  "users r = (if dispatching r then {Dispatcher} else {})
     \<union> (if reading r \<or> worker_state r = Pending then {worker_holder r} else {}) \<union> outstanding r"

definition request_ok :: "admission \<Rightarrow> bool" where
  "request_ok r \<longleftrightarrow>
     (released (permit_of r) \<longleftrightarrow> holders (permit_of r) = {})
     \<and> holders (permit_of r) = users r
     \<and> (\<exists>n. worker_holder r = Holder n \<and> n < made (permit_of r) \<and> worker_holder r \<notin> watched r)
     \<and> (\<forall>h \<in> watched r. \<exists>n. h = Holder n \<and> n < made (permit_of r))
     \<and> outstanding r \<subseteq> watched r
     \<and> (reading r \<longrightarrow> worker_state r = Running)"

definition held :: "bulkhead \<Rightarrow> nat" where
  "held b = length (filter (\<lambda>r. \<not> released (permit_of r)) (requests b))"

definition bulk_inv :: "bulkhead \<Rightarrow> bool" where
  "bulk_inv b \<longleftrightarrow> gate b + held b = limit b \<and> \<not> overflow b \<and> list_all request_ok (requests b)"

section \<open>Lemmas\<close>

text \<open>How the count of held slots changes with one request.\<close>

lemma held_set_request:
  assumes "i < length (requests b)"
  shows "held (set_request b i r) + (if released (permit_of (requests b ! i)) then 0 else 1)
    = held b + (if released (permit_of r) then 0 else 1)"
proof -
  have len: "length (filter P (xs[i := y])) + (if P (xs ! i) then 1 else 0)
      = length (filter P xs) + (if P y then 1 else 0)" if "i < length xs" for P :: "'a \<Rightarrow> bool" and xs y
    using that
  proof (induction xs arbitrary: i)
    case (Cons x xs)
    then show ?case by (cases i) auto
  qed simp
  from len [OF assms, of "\<lambda>r. \<not> released (permit_of r)" r] show ?thesis
    by (simp add: held_def set_request_def split: if_splits)
qed

lemma set_request_simps [simp]:
  "gate (set_request b i r) = gate b" "limit (set_request b i r) = limit b"
  "overflow (set_request b i r) = overflow b"
  "requests (set_request b i r) = (requests b)[i := r]"
  by (simp_all add: set_request_def)

text \<open>Replacing a request keeps the invariant when the new one is sound and as released as the old.\<close>

lemma inv_replace:
  assumes "bulk_inv b" and "i < length (requests b)" and "request_ok r"
    and "released (permit_of r) = released (permit_of (requests b ! i))"
  shows "bulk_inv (set_request b i r)"
  using assms held_set_request [OF assms(2), of r]
  by (auto simp: bulk_inv_def list_all_iff dest!: set_update_subset_insert [THEN subsetD] split: if_splits)

lemma drop_holder_cases:
  obtains (kept) "drop_holder p h = (p\<lparr>holders := holders p - {h}\<rparr>, False)"
      "holders p - {h} \<noteq> {} \<or> released p"
  | (last) "drop_holder p h = (p\<lparr>holders := {}, released := True\<rparr>, True)"
      "holders p - {h} = {}" "\<not> released p"
  by (cases "holders p - {h} \<noteq> {} \<or> released p") (auto simp: drop_holder_def Let_def)

text \<open>Dropping a holder that uses the slot no more keeps the invariant.\<close>

lemma inv_drop_at:
  assumes "bulk_inv b" and i: "i < length (requests b)" and same: "permit_of r = permit_of (requests b ! i)"
    and ok: "request_ok (r\<lparr>permit_of := fst (drop_holder (permit_of r) h)\<rparr>)"
  shows "bulk_inv (drop_at (set_request b i r) i h)"
proof (cases rule: drop_holder_cases [of "permit_of r" h])
  case kept
  then have "bulk_inv (set_request b i (r\<lparr>permit_of := fst (drop_holder (permit_of r) h)\<rparr>))"
    by (intro inv_replace [OF assms(1) i ok]) (simp add: same)
  with kept(1) i show ?thesis by (simp add: drop_at_def Let_def set_request_def)
next
  case last
  let ?n = "r\<lparr>permit_of := (permit_of r)\<lparr>holders := {}, released := True\<rparr>\<rparr>"
  have count: "held (set_request b i ?n) + 1 = held b"
    using held_set_request [OF i, of ?n] last(3) same by simp
  have "list_all request_ok ((requests b)[i := ?n])"
    using assms(1) ok last(1) by (auto simp: bulk_inv_def list_all_iff dest!: set_update_subset_insert [THEN subsetD])
  with assms(1) count last(1) i show ?thesis
    by (auto simp: drop_at_def Let_def gate_release_def bulk_inv_def held_def set_request_def)
qed

text \<open>The request after a drop is sound once the holder dropped has left its users.\<close>

lemma request_ok_drop:
  assumes "request_ok r0" and "permit_of r = permit_of r0" and "worker_holder r = worker_holder r0"
    and "watched r = watched r0" and "outstanding r \<subseteq> outstanding r0" and "reading r \<longrightarrow> worker_state r = Running"
    and "users r = users r0 - {h}"
  shows "request_ok (r\<lparr>permit_of := fst (drop_holder (permit_of r) h)\<rparr>)"
proof -
  have u: "users (r\<lparr>permit_of := p\<rparr>) = users r" for p by (simp add: users_def)
  show ?thesis
    by (cases rule: drop_holder_cases [of "permit_of r" h]) (use assms in \<open>auto simp: request_ok_def u\<close>)
qed

lemma gate_release_requests [simp]: "requests (gate_release b) = requests b"
  by (simp add: gate_release_def)

lemma drop_at_length [simp]: "length (requests (drop_at b i h)) = length (requests b)"
  by (simp add: drop_at_def Let_def split: prod.splits)

lemma inv_request: "bulk_inv b \<Longrightarrow> i < length (requests b) \<Longrightarrow> request_ok (requests b ! i)"
  by (simp add: bulk_inv_def list_all_iff)

lemma inv_new: "bulk_inv (new_bulkhead n)"
  by (simp add: bulk_inv_def new_bulkhead_def held_def)

lemma inv_enter:
  assumes "bulk_inv b" and "admit store b = (Inr p, b1)" and "begin_request p b1 = Inr b2"
  shows "bulk_inv b2"
proof -
  have g: "gate b \<noteq> 0" "p = new_permit" "b1 = b\<lparr>gate := gate b - 1\<rparr>"
    using assms(2) by (auto simp: admit_def split: if_splits)
  let ?r = "\<lparr>permit_of = new_permit\<lparr>holders := insert (Holder 0) {Dispatcher}, made := Suc 0\<rparr>,
    worker_holder = Holder 0, worker_state = Pending, reading = False, watched = {},
    dispatching = True, outstanding = {}\<rparr>"
  have "b2 = b\<lparr>gate := gate b - 1, requests := requests b @ [?r]\<rparr>"
    using assms(3) g by (simp add: begin_request_def hold_def new_permit_def)
  moreover have "request_ok ?r" by (auto simp: request_ok_def users_def new_permit_def)
  ultimately show ?thesis
    using assms(1) g(1) by (simp add: bulk_inv_def held_def new_permit_def)
qed

lemma inv_worker_begin:
  assumes "bulk_inv b" and "i < length (requests b)" and "worker_state (requests b ! i) \<noteq> Running"
  shows "bulk_inv (worker_begin b i)"
proof (cases "worker_state (requests b ! i)")
  case Pending
  have "request_ok ((requests b ! i)\<lparr>worker_state := Running, reading := True\<rparr>)"
    using inv_request [OF assms(1,2)] Pending by (simp add: request_ok_def users_def)
  with inv_replace [OF assms(1,2)] Pending show ?thesis by (simp add: worker_begin_def Let_def)
next
  case Running
  with assms(3) show ?thesis by simp
next
  case Abandoned
  with assms(1) show ?thesis by (simp add: worker_begin_def Let_def)
qed

lemma hold_until_reading:
  assumes "bulk_inv b" and "i < length (requests b)" and "reading (requests b ! i)"
  shows "\<exists>b1. hold_until b i = Inr b1 \<and> bulk_inv b1"
proof -
  let ?r = "requests b ! i"
  let ?p = "permit_of ?r"
  let ?p1 = "?p\<lparr>holders := insert (Holder (made ?p)) (holders ?p), made := Suc (made ?p)\<rparr>"
  let ?n = "?r\<lparr>permit_of := ?p1, watched := insert (Holder (made ?p)) (watched ?r),
    outstanding := insert (Holder (made ?p)) (outstanding ?r)\<rparr>"
  have ok: "request_ok ?r" by (rule inv_request [OF assms(1,2)])
  then have open': "\<not> released ?p" using assms(3) by (auto simp: request_ok_def users_def)
  have "users ?n = insert (Holder (made ?p)) (users ?r)" by (auto simp: users_def)
  with ok open' have "request_ok ?n" by (auto simp: request_ok_def less_Suc_eq)
  with inv_replace [OF assms(1,2)] open' show ?thesis
    by (simp add: hold_until_def hold_def Let_def)
qed

lemma inv_worker_end:
  assumes "bulk_inv b" and i: "i < length (requests b)" and reading: "reading (requests b ! i)"
  shows "bulk_inv (worker_end b i)"
proof -
  let ?r = "requests b ! i"
  have ok: "request_ok ?r" by (rule inv_request [OF assms(1) i])
  then have "users (?r\<lparr>reading := False\<rparr>) = users ?r - {worker_holder ?r}"
    using reading by (auto simp: users_def request_ok_def)
  then have "request_ok ((?r\<lparr>reading := False\<rparr>)\<lparr>permit_of := fst (drop_holder (permit_of ?r) (worker_holder ?r))\<rparr>)"
    using request_ok_drop [OF ok, of "?r\<lparr>reading := False\<rparr>" "worker_holder ?r"] by simp
  with inv_drop_at [OF assms(1) i, of "?r\<lparr>reading := False\<rparr>"] show ?thesis by (simp add: worker_end_def Let_def)
qed

lemma inv_dispatcher_leaving:
  assumes "bulk_inv b" and i: "i < length (requests b)"
  shows "bulk_inv (dispatcher_leaving b i)"
proof (cases "worker_state (requests b ! i) = Pending")
  case True
  let ?r = "requests b ! i"
  have ok: "request_ok ?r" by (rule inv_request [OF assms(1) i])
  then have "\<not> reading ?r" "users (?r\<lparr>worker_state := Abandoned\<rparr>) = users ?r - {worker_holder ?r}"
    using True by (auto simp: users_def request_ok_def)
  then have "request_ok ((?r\<lparr>worker_state := Abandoned\<rparr>)\<lparr>permit_of := fst (drop_holder (permit_of ?r) (worker_holder ?r))\<rparr>)"
    using request_ok_drop [OF ok, of "?r\<lparr>worker_state := Abandoned\<rparr>" "worker_holder ?r"] by simp
  with inv_drop_at [OF assms(1) i, of "?r\<lparr>worker_state := Abandoned\<rparr>"] True show ?thesis
    by (simp add: dispatcher_leaving_def Let_def)
qed (simp add: dispatcher_leaving_def Let_def assms(1))

lemma inv_completed:
  assumes "bulk_inv b" and i: "i < length (requests b)" and h: "h \<in> watched (requests b ! i)"
  shows "bulk_inv (drop_at (completed b i h) i h)"
proof -
  let ?r = "requests b ! i"
  let ?n = "?r\<lparr>outstanding := outstanding ?r - {h}\<rparr>"
  have ok: "request_ok ?r" by (rule inv_request [OF assms(1) i])
  then have "users ?n = users ?r - {h}" using h by (auto simp: users_def request_ok_def)
  then have "request_ok (?n\<lparr>permit_of := fst (drop_holder (permit_of ?r) h)\<rparr>)"
    using request_ok_drop [OF ok, of ?n h] ok by (auto simp: request_ok_def)
  with inv_drop_at [OF assms(1) i, of ?n] show ?thesis by (simp add: completed_def Let_def)
qed

lemma inv_dispatched:
  assumes "bulk_inv b" and i: "i < length (requests b)"
  shows "bulk_inv (drop_at (dispatched b i) i Dispatcher)"
proof -
  let ?r = "requests b ! i"
  let ?n = "?r\<lparr>dispatching := False\<rparr>"
  have ok: "request_ok ?r" by (rule inv_request [OF assms(1) i])
  then have "users ?n = users ?r - {Dispatcher}" by (auto simp: users_def request_ok_def)
  then have "request_ok (?n\<lparr>permit_of := fst (drop_holder (permit_of ?r) Dispatcher)\<rparr>)"
    using request_ok_drop [OF ok, of ?n Dispatcher] ok by (auto simp: request_ok_def)
  with inv_drop_at [OF assms(1) i, of ?n] show ?thesis by (simp add: dispatched_def)
qed

lemma inv_step: "bulk_step b b2 \<Longrightarrow> bulk_inv b \<Longrightarrow> bulk_inv b2"
proof (induction rule: bulk_step.induct)
  case (abandons i b b1)
  then show ?case using hold_until_reading [of b i] by auto
qed (auto intro: inv_enter inv_worker_begin inv_worker_end inv_dispatcher_leaving inv_completed inv_dispatched)

lemma inv_reachable: "bulk_step\<^sup>*\<^sup>* (new_bulkhead n) b \<Longrightarrow> bulk_inv b"
  by (induction rule: rtranclp_induct) (auto intro: inv_new inv_step)

lemma limit_step: "bulk_step b b2 \<Longrightarrow> limit b2 = limit b"
  by (induction rule: bulk_step.induct)
    (auto simp: admit_def begin_request_def worker_begin_def worker_end_def hold_until_def
      dispatcher_leaving_def completed_def dispatched_def drop_at_def gate_release_def Let_def hold_def
      split: if_splits prod.splits)

lemma limit_reachable: "bulk_step\<^sup>*\<^sup>* (new_bulkhead n) b \<Longrightarrow> limit b = n"
  by (induction rule: rtranclp_induct) (simp_all add: limit_step, simp add: new_bulkhead_def)

lemma held_is_in_use:
  assumes "bulk_inv b"
  shows "held b = length (filter in_use (requests b))"
proof -
  have "\<not> released (permit_of r) \<longleftrightarrow> in_use r" if "r \<in> set (requests b)" for r
    using assms that by (auto simp: bulk_inv_def list_all_iff request_ok_def users_def in_use_def)
  then have "filter (\<lambda>r. \<not> released (permit_of r)) (requests b) = filter in_use (requests b)"
    by (auto intro: filter_cong)
  then show ?thesis by (simp add: held_def)
qed

lemma reading_is_held:
  assumes "bulk_inv b"
  shows "length (filter reading (requests b)) \<le> held b"
proof -
  have "filter reading (requests b) = filter reading (filter in_use (requests b))"
    by (auto simp: in_use_def intro: filter_cong)
  then show ?thesis unfolding held_is_in_use [OF assms] by (metis length_filter_le)
qed

section \<open>Properties\<close>

text \<open>
  C2: In every interleaving of dispatchers, worker threads, native cancellations and late kazoo
  completions, at most \<open>limit\<close> worker threads are inside the store's read, and the slots taken
  from the gate are exactly those of the requests still in use: whose dispatcher waits, whose
  thread has yet to start or is reading, or which left a kazoo request outstanding. So no slot is
  lost: a request that has ended in all of these ways has given its slot back. The bounded
  semaphore is never released past its starting value, so none is returned twice.
\<close>

theorem bulkhead_caps_store_calls:
  assumes "bulk_step\<^sup>*\<^sup>* (new_bulkhead n) b"
  shows "length (filter reading (requests b)) \<le> n
    \<and> gate b + length (filter in_use (requests b)) = n
    \<and> (\<forall>r \<in> set (requests b). released (permit_of r) \<longleftrightarrow> \<not> in_use r) \<and> \<not> overflow b"
proof -
  have inv: "bulk_inv b" and "limit b = n" using assms by (rule inv_reachable, rule limit_reachable)
  moreover have "\<forall>r \<in> set (requests b). released (permit_of r) \<longleftrightarrow> \<not> in_use r"
    using inv by (auto simp: bulk_inv_def list_all_iff request_ok_def users_def in_use_def)
  ultimately show ?thesis using reading_is_held [of b] held_is_in_use [of b] by (auto simp: bulk_inv_def)
qed

text \<open>
  A read that is still running can always hand an outstanding kazoo request to its permit:
  the permit is not yet released, so \<open>hold\<close> does not raise, and the slot then outlives the thread
  until kazoo completes that request.
\<close>

theorem abandoned_request_keeps_slot:
  assumes "bulk_step\<^sup>*\<^sup>* (new_bulkhead n) b" and "i < length (requests b)"
    and "reading (requests b ! i)"
  shows "\<exists>b1 h. hold_until b i = Inr b1 \<and> h \<in> watched (requests b1 ! i)
    \<and> \<not> released (permit_of (requests (worker_end b1 i) ! i))
    \<and> \<not> released (permit_of (requests (drop_at (worker_end b1 i) i Dispatcher) ! i))"
proof -
  let ?r = "requests b ! i"
  let ?p = "permit_of ?r"
  have inv: "bulk_inv b" using assms(1) by (rule inv_reachable)
  have ok: "request_ok ?r" by (rule inv_request [OF inv assms(2)])
  then have open': "\<not> released ?p" using assms(3) by (auto simp: request_ok_def users_def)
  from ok obtain w where w: "worker_holder ?r = Holder w" "w < made ?p"
    by (auto simp: request_ok_def)
  let ?p1 = "?p\<lparr>holders := insert (Holder (made ?p)) (holders ?p), made := Suc (made ?p)\<rparr>"
  let ?b1 = "set_request b i (?r\<lparr>permit_of := ?p1, watched := insert (Holder (made ?p)) (watched ?r),
    outstanding := insert (Holder (made ?p)) (outstanding ?r)\<rparr>)"
  have "hold_until b i = Inr ?b1" using open' by (simp add: hold_until_def hold_def Let_def)
  moreover have "\<not> released (permit_of (requests (worker_end ?b1 i) ! i))"
    "\<not> released (permit_of (requests (drop_at (worker_end ?b1 i) i Dispatcher) ! i))"
    using w open' assms(2)
    by (simp_all add: worker_end_def drop_at_def drop_holder_def Let_def insert_Diff_if)
  ultimately show ?thesis using assms(2) by (intro exI [of _ ?b1] exI [of _ "Holder (made ?p)"]) simp
qed

text \<open>
  Past the early check, a full gate answers \<open>Busy\<close> whatever the store would do; a value is
  returned only when the read returned it before the deadline; and a call made within the budget
  never waits past the deadline or past its cap.
\<close>

theorem run_never_returns_late:
  "(gate b = 0 \<and> is_connected \<noteq> Some False \<longrightarrow>
      run_read store is_connected b bud finished outcome failing = (RunError (Busy store), failing))
   \<and> (fst (run_read store is_connected b bud finished outcome failing) = RunValue v \<longrightarrow>
      outcome = Returned v \<and> finished < deadline bud \<and> gate b \<noteq> 0)
   \<and> (call_timeout bud now = Inr t \<longrightarrow>
      now + t \<le> deadline bud \<and> (\<forall>cap. per_call bud = Some cap \<longrightarrow> t \<le> cap))"
  by (auto simp: run_read_def call_timeout_def remaining_def Let_def
      split: if_splits sum.splits read_outcome.splits option.splits)

section \<open>Witnesses\<close>

definition sample_busy :: bulkhead where
  "sample_busy =
     \<lparr>limit = 1, gate = 0, overflow = False, requests =
        [\<lparr>permit_of = \<lparr>holders = {Dispatcher, Holder 0}, released = False, made = 1\<rparr>,
          worker_holder = Holder 0, worker_state = Running, reading = True, watched = {},
          dispatching = True, outstanding = {}\<rparr>]\<rparr>"

lemma sample_busy_reachable: "bulk_step\<^sup>*\<^sup>* (new_bulkhead 1) sample_busy"
proof -
  let ?b1 = "(new_bulkhead 1)\<lparr>gate := 0\<rparr>"
  let ?b2 = "sample_busy\<lparr>requests := [(requests sample_busy ! 0)\<lparr>worker_state := Pending, reading := False\<rparr>]\<rparr>"
  have "bulk_step (new_bulkhead 1) ?b2"
    by (rule bulk_step.enter [of "''redis''" _ new_permit ?b1])
      (auto simp: admit_def begin_request_def new_bulkhead_def new_permit_def hold_def sample_busy_def)
  moreover have "bulk_step ?b2 sample_busy"
    using bulk_step.begins [of 0 ?b2] by (simp add: worker_begin_def set_request_def sample_busy_def)
  ultimately show ?thesis by simp
qed

theorem bulkhead_caps_store_calls_witness:
  "length (filter reading (requests sample_busy)) = 1 \<and> gate sample_busy = 0
     \<and> gate sample_busy + length (filter in_use (requests sample_busy)) = 1"
  using bulkhead_caps_store_calls [OF sample_busy_reachable] by (simp add: sample_busy_def)

theorem abandoned_request_keeps_slot_witness:
  "\<exists>b1 h. hold_until sample_busy 0 = Inr b1 \<and> h \<in> watched (requests b1 ! 0)
    \<and> \<not> released (permit_of (requests (drop_at (worker_end b1 0) 0 Dispatcher) ! 0))"
  using abandoned_request_keeps_slot [OF sample_busy_reachable, of 0] by (auto simp: sample_busy_def)

theorem run_never_returns_late_witness:
  "run_read ''redis'' None sample_busy (new_budget 0 2 None) 1 (Returned (5::nat)) False
     = (RunError (Busy ''redis''), False)"
  using run_never_returns_late [of sample_busy None "''redis''" "new_budget 0 2 None" 1 "Returned (5::nat)" False]
  by (simp add: sample_busy_def)

end
