(* ===== verification/Api.thy ===== *)
theory Api
  imports Windows Consumer Coordination Bulkhead
begin

text \<open>
  \<open>api.py\<close>: the reads behind the HTTP routes and what the routes make of them. Each route runs
  one read on its store's bulkhead; the stores are the parameters of the other theories.

  The windows the API serves are the ones the windows writer keeps: \<open>windows_readable\<close> is what
  the writer maintains beyond the types of its keys, and it is all the reader needs.
\<close>

section \<open>The cluster\<close>

text \<open>\<open>x == y\<close> on the scalars of JSON: numbers by value, whatever their type.\<close>

fun number_of :: "json \<Rightarrow> rat option" where
  "number_of (JInt i) = Some (of_int i)"
| "number_of (JBool b) = Some (if b then 1 else 0)"
| "number_of (JFloat (Fin x)) = Some x"
| "number_of _ = None"

definition py_eq :: "json \<Rightarrow> json \<Rightarrow> bool" where
  "py_eq x y =
     (case (number_of x, number_of y) of
        (Some a, Some b) \<Rightarrow> a = b
      | (None, None) \<Rightarrow> x = y \<and> x \<noteq> JFloat NaN
      | _ \<Rightarrow> False)"

text \<open>\<open>value.get("epoch")\<close>, with an explicit null as absent as a missing key.\<close>

definition epoch_field :: "(string \<times> json) list \<Rightarrow> json option" where
  "epoch_field kvs = (case map_of kvs ''epoch'' of Some JNull \<Rightarrow> None | x \<Rightarrow> x)"

definition snapshot_matches_leader :: "(string \<times> json) list option \<Rightarrow> (string \<times> json) list option \<Rightarrow> bool" where
  "snapshot_matches_leader leader snapshot =
     (case (leader, snapshot) of
        (Some l, Some s) \<Rightarrow>
          (case (epoch_field l, epoch_field s) of (Some a, Some b) \<Rightarrow> py_eq a b | _ \<Rightarrow> False)
      | _ \<Rightarrow> False)"

record cluster_state =
  cl_leader :: "(string \<times> json) list option"
  cl_snapshot :: "(string \<times> json) list option"
  cl_registrations :: "(string \<times> json list) list"
  cl_flink :: "(string \<times> json) list option"

text \<open>\<open>{**document, "version": version}\<close>, and a missing node as nothing; a document is an object.\<close>

definition with_version :: "coord_error + json \<times> int \<Rightarrow> coord_error + (string \<times> json) list option" where
  "with_version r =
     (case r of
        Inl e \<Rightarrow> if e = ZkExn NoNodeError then Inr None else Inl e
      | Inr (JObj kvs, version) \<Rightarrow> Inr (Some (AList.update ''version'' (JInt version) kvs))
      | Inr _ \<Rightarrow> Inl TypeError)"

definition leader_fields :: "coord_error + json option \<Rightarrow> coord_error + (string \<times> json) list option" where
  "leader_fields r =
     (case r of
        Inl e \<Rightarrow> Inl e
      | Inr None \<Rightarrow> Inr None
      | Inr (Some (JObj kvs)) \<Rightarrow> Inr (Some kvs)
      | Inr (Some _) \<Rightarrow> Inl TypeError)"

fun read_roles :: "'w kazoo \<Rightarrow> string \<Rightarrow> string list \<Rightarrow> 'w \<Rightarrow> coord_error + (string \<times> json list) list" where
  "read_roles zk zroot [] w = Inr []"
| "read_roles zk zroot (role # rest) w =
     (case registrations zk zroot role w of
        Inl e \<Rightarrow> Inl e
      | Inr js \<Rightarrow> (case read_roles zk zroot rest w of Inl e \<Rightarrow> Inl e | Inr others \<Rightarrow> Inr ((role, js) # others)))"

text \<open>\<open>read_cluster\<close>: four reads of a service that moves on between them.\<close>

definition read_cluster ::
    "'w kazoo \<Rightarrow> string \<Rightarrow> 'w \<Rightarrow> 'w \<Rightarrow> 'w \<Rightarrow> 'w \<Rightarrow> coord_error + cluster_state" where
  "read_cluster zk zroot w1 w2 w3 w4 =
     (case leader_fields (read_leader zk zroot w1) of
        Inl e \<Rightarrow> Inl e
      | Inr leader \<Rightarrow>
          (case with_version (read_snapshot zk zroot w2) of
             Inl e \<Rightarrow> Inl e
           | Inr snapshot \<Rightarrow>
               (case read_roles zk zroot ROLES w3 of
                  Inl e \<Rightarrow> Inl e
                | Inr regs \<Rightarrow>
                    (case with_version (read_flink_record zk zroot w4) of
                       Inl e \<Rightarrow> Inl e
                     | Inr flink \<Rightarrow>
                         Inr \<lparr>cl_leader = leader, cl_snapshot = snapshot, cl_registrations = regs, cl_flink = flink\<rparr>))))"

record cluster_body =
  cb_state :: cluster_state
  cb_matches :: bool
  cb_observed_at :: rat

definition cluster_response :: "rat \<Rightarrow> cluster_state \<Rightarrow> cluster_body" where
  "cluster_response seen_at s =
     \<lparr>cb_state = s, cb_matches = snapshot_matches_leader (cl_leader s) (cl_snapshot s), cb_observed_at = seen_at\<rparr>"

section \<open>Windows\<close>

record window_read =
  wr_start :: int
  wr_end :: int
  wr_generation :: int
  wr_counts :: "(string \<times> int) list"

fun int_items :: "(string \<times> string) list \<Rightarrow> (string \<times> int) list option" where
  "int_items [] = Some []"
| "int_items ((k, v) # rest) =
     (case (py_int v, int_items rest) of (Some n, Some d) \<Rightarrow> Some ((k, n) # d) | _ \<Rightarrow> None)"

text \<open>One window of the transaction: none for a read that raises, nothing for one that has gone.\<close>

definition read_window :: "'w redis \<Rightarrow> string \<Rightarrow> 'w \<Rightarrow> string \<Rightarrow> window_read option option" where
  "read_window rd prefix w start =
     Option.bind (py_int start) (\<lambda>s.
       let counts = hgetall rd w (window_key s prefix); meta = hgetall rd w (meta_key s prefix) in
       if counts = [] \<or> meta = [] then Some None
       else
         Option.bind (Option.bind (map_of meta ''end'') py_int) (\<lambda>e.
         Option.bind (Option.bind (map_of meta ''generation'') py_int) (\<lambda>g.
         Option.bind (int_items counts) (\<lambda>c.
           Some (Some \<lparr>wr_start = s, wr_end = e, wr_generation = g, wr_counts = c\<rparr>)))))"

fun all_some :: "'a option option list \<Rightarrow> 'a list option" where
  "all_some [] = Some []"
| "all_some (None # rest) = None"
| "all_some (Some x # rest) =
     map_option (\<lambda>ys. (case x of None \<Rightarrow> ys | Some y \<Rightarrow> y # ys)) (all_some rest)"

text \<open>\<open>read_windows\<close>: the index at one moment, the windows it names at a later one.\<close>

definition read_windows ::
    "'w redis \<Rightarrow> string \<Rightarrow> nat \<Rightarrow> rat \<Rightarrow> int \<Rightarrow> int \<Rightarrow> 'w \<Rightarrow> 'w \<Rightarrow> window_read list option" where
  "read_windows rd prefix most now retention window_seconds w1 w2 =
     (let cutoff = int_of_float now - retention - window_seconds;
          starts = zrevrangebyscore rd w1 (index_key prefix) cutoff most
      in if starts = [] then Some [] else all_some (map (read_window rd prefix w2) starts))"

section \<open>Events\<close>

text \<open>Datetimes in microseconds since the epoch; a naive one has no offset, an aware one has.\<close>

datatype py_datetime = Naive int | Aware int int

definition as_utc :: "py_datetime \<Rightarrow> py_datetime" where
  "as_utc d = (case d of Naive t \<Rightarrow> Aware t 0 | Aware t offset \<Rightarrow> Aware (t - offset) 0)"

definition from_microseconds :: "int \<Rightarrow> py_datetime option" where
  "from_microseconds t =
     (if FIRST_MICROSECOND \<le> t \<and> t \<le> LAST_MICROSECOND then Some (Aware t 0) else None)"

record event_row =
  row_time :: py_datetime
  row_event :: string
  row_page :: string
  row_written :: int

definition event_response :: "event_row \<Rightarrow> (py_datetime \<times> string \<times> string \<times> py_datetime) option" where
  "event_response r =
     map_option (\<lambda>w. (as_utc (row_time r), row_event r, row_page r, w)) (from_microseconds (row_written r))"

section \<open>Routes\<close>

datatype 'a response = Answer 'a | Status nat string | ServerError | Disconnected

text \<open>
  A read that reached the store: it failed as the store does, or gave a value, or raised like
  \<open>int()\<close> of a text that is no number.
\<close>

definition store_outcome :: "'a read_outcome option \<Rightarrow> 'a option \<Rightarrow> 'a read_outcome" where
  "store_outcome fault v =
     (case fault of
        Some f \<Rightarrow> f
      | None \<Rightarrow> (case v of Some a \<Rightarrow> Returned a | None \<Rightarrow> RaisedOther ''ValueError''))"

text \<open>The handlers of \<open>Busy\<close> and \<open>Unavailable\<close>; anything else is a server error.\<close>

definition respond :: "('a \<Rightarrow> 'b response) \<Rightarrow> 'a run_result \<Rightarrow> 'b response" where
  "respond f r =
     (case r of
        RunValue v \<Rightarrow> f v
      | RunError (Busy store) \<Rightarrow> Status 503 (store @ '' busy'')
      | RunError (Unavailable store) \<Rightarrow> Status 503 (store @ '' unavailable'')
      | RunError _ \<Rightarrow> ServerError
      | RunRaised _ \<Rightarrow> ServerError
      | RunCancelled \<Rightarrow> Disconnected)"

definition PAGES_PER_REQUEST_MAX :: nat where "PAGES_PER_REQUEST_MAX = 20"
definition USER_ID_MAX_LENGTH :: nat where "USER_ID_MAX_LENGTH = 128"
definition WINDOWS_LIMIT_MAX :: nat where "WINDOWS_LIMIT_MAX = 20"
definition EVENTS_LIMIT_MAX :: nat where "EVENTS_LIMIT_MAX = 100"

definition text_between :: "nat \<Rightarrow> string \<Rightarrow> bool" where
  "text_between most s \<longleftrightarrow> 1 \<le> length s \<and> length s \<le> most"

text \<open>\<open>list(dict.fromkeys(page))\<close>: the first of each.\<close>

definition requested_pages :: "string list option \<Rightarrow> string list" where
  "requested_pages pages =
     (case pages of None \<Rightarrow> PAGES | Some ps \<Rightarrow> if ps = [] then PAGES else rev (remdups (rev ps)))"

text \<open>
  A bulkhead's view of one request: whether its client is connected, the gate, the budget, when
  the read finished, how the store failed if it did, and the failing flag.
\<close>

record 'a admitted =
  ad_connected :: "bool option"
  ad_gate :: bulkhead
  ad_budget :: budget
  ad_finished :: seconds
  ad_fault :: "'a read_outcome option"
  ad_failing :: bool

definition run_store :: "string \<Rightarrow> 'a admitted \<Rightarrow> 'a option \<Rightarrow> 'a run_result" where
  "run_store store ad v =
     fst (run_read store (ad_connected ad) (ad_gate ad) (ad_budget ad) (ad_finished ad)
            (store_outcome (ad_fault ad) v) (ad_failing ad))"

definition page_counts_route ::
    "'w redis \<Rightarrow> string \<Rightarrow> (string \<times> int) list admitted \<Rightarrow> string list option \<Rightarrow> 'w \<Rightarrow> (string \<times> int) list response" where
  "page_counts_route rd prefix ad pages w =
     (if (case pages of None \<Rightarrow> False | Some ps \<Rightarrow>
            PAGES_PER_REQUEST_MAX < length ps \<or> \<not> list_all (text_between PAGE_MAX_LENGTH) ps)
      then Status 422 ''page''
      else respond Answer (run_store ''redis'' ad (page_counts_for rd (requested_pages pages) prefix w)))"

definition last_page_route ::
    "'w redis \<Rightarrow> string \<Rightarrow> string option admitted \<Rightarrow> string \<Rightarrow> 'w \<Rightarrow> (string \<times> string) response" where
  "last_page_route rd prefix ad u w =
     (if \<not> text_between USER_ID_MAX_LENGTH u then Status 422 ''user_id''
      else respond (\<lambda>p. case p of None \<Rightarrow> Status 404 ''no last page for this user'' | Some pg \<Rightarrow> Answer (u, pg))
        (run_store ''redis'' ad (Some (last_page rd u prefix w))))"

definition windows_route ::
    "'w redis \<Rightarrow> string \<Rightarrow> int \<Rightarrow> int \<Rightarrow> window_read list admitted \<Rightarrow> nat \<Rightarrow> rat \<Rightarrow> 'w \<Rightarrow> 'w \<Rightarrow> window_read list response" where
  "windows_route rd prefix retention window_seconds ad most now w1 w2 =
     (if most < 1 \<or> WINDOWS_LIMIT_MAX < most then Status 422 ''limit''
      else respond Answer (run_store ''redis'' ad (read_windows rd prefix most now retention window_seconds w1 w2)))"

definition events_route ::
    "(string \<Rightarrow> nat \<Rightarrow> event_row list) \<Rightarrow> event_row list admitted \<Rightarrow> string \<Rightarrow> nat
      \<Rightarrow> (py_datetime \<times> string \<times> string \<times> py_datetime) list response" where
  "events_route history ad u most =
     (if \<not> text_between USER_ID_MAX_LENGTH u \<or> most < 1 \<or> EVENTS_LIMIT_MAX < most then Status 422 ''limit''
      else respond (\<lambda>rows. case those (map event_response rows) of None \<Rightarrow> ServerError | Some es \<Rightarrow> Answer es)
        (run_store ''cassandra'' ad (Some (history u most))))"

section \<open>What the writer keeps for the reader\<close>

definition numeric :: "(string \<rightharpoonup> string) \<Rightarrow> bool" where
  "numeric m \<longleftrightarrow> (\<forall>k v. m k = Some v \<longrightarrow> py_int v \<noteq> None)"

definition meta_complete :: "(string \<rightharpoonup> string) \<Rightarrow> bool" where
  "meta_complete m \<longleftrightarrow> m = Map.empty \<or>
     (Option.bind (m ''end'') py_int \<noteq> None \<and> Option.bind (m ''generation'') py_int \<noteq> None)"

definition index_ok :: "(string \<times> int) list \<Rightarrow> bool" where
  "index_ok z \<longleftrightarrow> distinct_keys z \<and> (\<forall>(m, sc) \<in> set z. m = show_int sc)"

definition windows_readable :: "keyspace \<Rightarrow> string \<Rightarrow> bool" where
  "windows_readable d prefix \<longleftrightarrow> windows_ok d prefix \<and> index_ok (as_zset (d (index_key prefix)))
     \<and> (\<forall>s. numeric (map_of (as_hash (d (window_key s prefix)))) \<and> meta_complete (map_of (as_hash (d (meta_key s prefix)))))"

lemma index_ok_update: "index_ok z \<Longrightarrow> index_ok (AList.update (show_int s) s z)"
proof -
  assume z: "index_ok z"
  then have d: "distinct_keys (AList.update (show_int s) s z)" by (simp add: index_ok_def distinct_update)
  have "m = show_int sc" if "(m, sc) \<in> set (AList.update (show_int s) s z)" for m sc
  proof -
    from map_of_is_SomeI [OF d that] have "m = show_int s \<and> sc = s \<or> map_of z m = Some sc"
      by (auto simp: update_conv' split: if_splits)
    with z show ?thesis by (auto simp: index_ok_def dest: map_of_SomeD)
  qed
  with d show ?thesis by (auto simp: index_ok_def)
qed

lemma index_ok_filter: "index_ok z \<Longrightarrow> index_ok (filter p z)"
  by (auto simp: index_ok_def distinct_map_filter)

lemma as_zset_put [simp]: "as_zset (put_zset z) = z"
  by (simp add: put_zset_def)

lemma written_readable:
  assumes "windows_readable d prefix"
  shows "windows_readable (keyspace_written d prefix trim r) prefix"
proof -
  let ?d = "keyspace_written d prefix trim r"
  have ok: "windows_ok ?d prefix" using assms by (simp add: windows_readable_def written_ok)
  have idx: "index_ok (as_zset (?d (index_key prefix)))"
    using assms by (simp add: windows_readable_def keyspace_written_def Let_def index_ok_filter index_ok_update)
  have cnt: "numeric (map_of (as_hash (?d (window_key s prefix))))" for s
    using assms unfolding written_counts by (auto simp: windows_readable_def numeric_def update_conv')
  have meta: "meta_complete (map_of (as_hash (?d (meta_key s prefix))))" for s
    using assms by (auto simp: windows_readable_def meta_complete_def keyspace_written_def Let_def update_conv')
  from ok idx cnt meta show ?thesis by (simp add: windows_readable_def)
qed

context redis_server
begin

lemma script_readable:
  assumes "windows_readable (db w) prefix" and "now w < win_end r + retention" and "script rd prefix retention t r w = (res, w')"
  shows "windows_readable (db w') prefix \<and> now w' = now w"
proof (cases "t < win_end r + retention \<and> win_generation r \<ge> fst (window_of (db w) prefix (win_start r))")
  case True
  have ok: "windows_ok (db w) prefix" using assms(1) by (simp add: windows_readable_def)
  from script_writes [OF ok assms(2) _ _ assms(3)] True written_readable [OF assms(1)] show ?thesis by simp
next
  case False
  have ok: "windows_ok (db w) prefix" using assms(1) by (simp add: windows_readable_def)
  have "w' = w" using assms(3) False generation_known [OF ok, of "win_start r"]
    by (auto simp: script_def Let_def stored_is split: if_splits)
  with assms(1) show ?thesis by simp
qed

lemma run_scripts_readable:
  assumes "windows_readable (db w) prefix" and "\<forall>r \<in> set rs. now w < win_end r + retention"
    and "run_scripts rd prefix retention t lost rs w = (out, w')"
  shows "windows_readable (db w') prefix \<and> now w' = now w"
  using assms
proof (induction rs arbitrary: w lost out)
  case (Cons r rs)
  obtain res w1 where s1: "script rd prefix retention t r w = (res, w1)" by fastforce
  obtain o2 w2 where s2: "run_scripts rd prefix retention t (map_option (\<lambda>n. n - 1) lost) rs w1 = (o2, w2)" by fastforce
  show ?case
  proof (cases "lost = Some 0")
    case False
    have one: "windows_readable (db w1) prefix \<and> now w1 = now w"
      using script_readable [OF Cons.prems(1) _ s1] Cons.prems(2) by simp
    have "w' = w2" using Cons.prems(3) False s1 s2 by (auto split: option.splits)
    with Cons.IH [of w1 "map_option (\<lambda>n. n - 1) lost" o2] s2 one Cons.prems(2) show ?thesis by simp
  qed (use Cons.prems in auto)
qed auto

lemma hgetall_empty: "hgetall rd w k = [] \<longleftrightarrow> map_of (as_hash (db w k)) = Map.empty"
  using hgetall_law(1) [of w k] by (metis map_of_eq_empty_iff)

end

lemma int_items_numeric:
  "\<forall>(k, v) \<in> set h. py_int v \<noteq> None \<Longrightarrow>
     \<exists>c. int_items h = Some c \<and> map_of c = (\<lambda>p. Option.bind (map_of h p) py_int)"
proof (induction h)
  case (Cons kv h)
  obtain k v where kv: "kv = (k, v)" by fastforce
  from Cons obtain c where c: "int_items h = Some c" "map_of c = (\<lambda>p. Option.bind (map_of h p) py_int)" by auto
  from Cons.prems kv obtain n where "py_int v = Some n" by auto
  with c kv show ?case by (auto simp: fun_eq_iff)
qed simp

section \<open>What the reader makes of it\<close>

definition window_gone :: "keyspace \<Rightarrow> string \<Rightarrow> int \<Rightarrow> bool" where
  "window_gone d prefix s \<longleftrightarrow>
     map_of (as_hash (d (window_key s prefix))) = Map.empty \<or> map_of (as_hash (d (meta_key s prefix))) = Map.empty"

text \<open>The end a window's meta data stores.\<close>

definition end_at :: "keyspace \<Rightarrow> string \<Rightarrow> int \<Rightarrow> int option" where
  "end_at d prefix s = Option.bind (map_of (as_hash (d (meta_key s prefix))) ''end'') py_int"

context redis_server
begin

lemma read_window_whole:
  assumes "windows_readable (db w) prefix"
  shows "if window_gone (db w) prefix s then read_window rd prefix w (show_int s) = Some None
    else \<exists>x. read_window rd prefix w (show_int s) = Some (Some x) \<and> wr_start x = s \<and> end_at (db w) prefix s = Some (wr_end x)
      \<and> window_of (db w) prefix s = (wr_generation x, map_of (wr_counts x))"
proof (cases "window_gone (db w) prefix s")
  case True
  then show ?thesis by (auto simp: read_window_def Let_def hgetall_empty window_gone_def)
next
  case False
  let ?c = "hgetall rd w (window_key s prefix)" and ?m = "hgetall rd w (meta_key s prefix)"
  have ne: "?c \<noteq> []" "?m \<noteq> []" using False by (simp_all add: hgetall_empty window_gone_def)
  from assms False obtain e g
    where meta: "Option.bind (map_of ?m ''end'') py_int = Some e" "Option.bind (map_of ?m ''generation'') py_int = Some g"
    by (auto simp: hgetall_law(1) windows_readable_def meta_complete_def window_gone_def)
  have num: "numeric (map_of ?c)" using assms by (simp add: hgetall_law(1) windows_readable_def)
  have "py_int v \<noteq> None" if "(k, v) \<in> set ?c" for k v
    using map_of_is_SomeI [OF hgetall_law(2) that] num unfolding numeric_def by blast
  then have "\<forall>(k, v) \<in> set ?c. py_int v \<noteq> None" by blast
  from int_items_numeric [OF this] obtain c
    where c: "int_items ?c = Some c" "map_of c = (\<lambda>p. Option.bind (map_of ?c p) py_int)" by blast
  have "window_of (db w) prefix s = (g, map_of c)"
    using meta(2) c(2) by (auto simp: window_of_def generation_at_def hgetall_law(1) split: option.splits)
  moreover have "end_at (db w) prefix s = Some e" using meta(1) by (simp add: end_at_def hgetall_law(1))
  ultimately show ?thesis using False ne meta c(1) by (simp add: read_window_def Let_def)
qed

end

lemma all_some_map:
  "\<forall>x \<in> set xs. f x = Some (g x) \<Longrightarrow> all_some (map f xs) = Some (List.map_filter g xs)"
  by (induction xs) (auto simp: List.map_filter_simps split: option.split)

lemma map_filter_keys:
  "(\<And>x y. g x = Some y \<Longrightarrow> k y = x) \<Longrightarrow> map k (List.map_filter g xs) = filter (\<lambda>x. g x \<noteq> None) xs"
  by (induction xs) (auto simp: List.map_filter_simps split: option.split)

text \<open>The starts the index gives: the newest live ones, newest first.\<close>

lemma newest_starts:
  assumes "index_ok idx" and "mset z = mset (filter (\<lambda>(m, sc). low < sc) idx)" and "sorted (rev (map snd z))"
  shows "map fst z = map show_int (map snd z)" and "sorted_wrt (>) (map snd z)"
    and "set (map snd z) = {sc. (show_int sc, sc) \<in> set idx \<and> low < sc}"
proof -
  have st: "set z = set (filter (\<lambda>(m, sc). low < sc) idx)" using assms(2) by (metis set_mset_mset)
  then have names: "\<forall>(m, sc) \<in> set z. m = show_int sc" using assms(1) by (auto simp: index_ok_def)
  then show fs: "map fst z = map show_int (map snd z)" by (auto simp: case_prod_beta)
  have mem: "(m, sc) \<in> set z \<longleftrightarrow> (m, sc) \<in> set idx \<and> low < sc" for m sc using st by simp
  have "sc \<in> set (map snd z) \<longleftrightarrow> (show_int sc, sc) \<in> set z" for sc
  proof
    assume "sc \<in> set (map snd z)"
    then obtain m where m: "(m, sc) \<in> set z" by auto
    with names have "m = show_int sc" by blast
    with m show "(show_int sc, sc) \<in> set z" by simp
  next
    assume "(show_int sc, sc) \<in> set z"
    then have "snd (show_int sc, sc) \<in> set (map snd z)" unfolding set_map by (rule imageI)
    then show "sc \<in> set (map snd z)" by simp
  qed
  then show "set (map snd z) = {sc. (show_int sc, sc) \<in> set idx \<and> low < sc}" unfolding mem by blast
  have "distinct (map fst z)"
    using assms(1,2) by (metis distinct_map_filter index_ok_def mset_map mset_eq_imp_distinct_iff)
  then have "distinct (map snd z)" unfolding fs by (metis distinct_map)
  with assms(3) have "sorted_wrt (<) (rev (map snd z))" unfolding strict_sorted_iff by simp
  then show "sorted_wrt (>) (map snd z)" by (simp only: sorted_wrt_rev)
qed

text \<open>The first \<open>n\<close> of a descending list are those with fewer than \<open>n\<close> above them.\<close>

lemma take_descending:
  fixes xs :: "int list"
  assumes "sorted_wrt (>) xs"
  shows "x \<in> set (take n xs) \<longleftrightarrow> x \<in> set xs \<and> card {y \<in> set xs. x < y} < n"
  using assms
proof (induction xs arbitrary: n)
  case (Cons a xs)
  have above: "{y \<in> set (a # xs). x < y} = (if x < a then insert a {y \<in> set xs. x < y} else {y \<in> set xs. x < y})"
    by auto
  have "a \<notin> set xs" using Cons.prems by auto
  then have count: "card {y \<in> set (a # xs). x < y} = (if x < a then Suc (card {y \<in> set xs. x < y}) else card {y \<in> set xs. x < y})"
    unfolding above by simp
  have top: "x \<in> set xs \<Longrightarrow> x < a" "{y \<in> set xs. a < y} = {}" using Cons.prems by auto
  show ?case
  proof (cases n)
    case (Suc k)
    show ?thesis
    proof (cases "x = a")
      case True
      then show ?thesis using Suc unfolding count by (simp add: top(2))
    next
      case False
      then show ?thesis using Suc unfolding count using Cons.IH [of k] Cons.prems top(1) by auto
    qed
  qed simp
qed simp

section \<open>Properties\<close>

text \<open>
  C11: The API serves what the writer keeps. Whatever the index said at one moment and Redis holds
  at the next, the read succeeds, and it gives, newest first, exactly the newest windows within
  retention that the index named, as many as were asked for, less those that are gone from Redis by
  the second moment: a window is served if and only if fewer newer ones than that are in the
  index. Each is whole: its generation, its end and all its counts are those Redis holds for the
  window at one moment.
\<close>

theorem api_serves_whole_windows:
  fixes t :: rat and retention seconds :: int
  assumes "redis_server rd db now" and "windows_readable (db w1) prefix" and "windows_readable (db w2) prefix"
  defines "cutoff \<equiv> int_of_float t - retention - seconds" and "idx \<equiv> as_zset (db w1 (index_key prefix))"
  shows "\<exists>ws. read_windows rd prefix most t retention seconds w1 w2 = Some ws
    \<and> length ws \<le> most \<and> sorted_wrt (>) (map wr_start ws)
    \<and> (\<forall>x \<in> set ws. window_of (db w2) prefix (wr_start x) = (wr_generation x, map_of (wr_counts x))
         \<and> end_at (db w2) prefix (wr_start x) = Some (wr_end x))
    \<and> (\<forall>s. s \<in> set (map wr_start ws) \<longleftrightarrow>
         (show_int s, s) \<in> set idx \<and> cutoff < s \<and> card {s'. (show_int s', s') \<in> set idx \<and> s < s'} < most
         \<and> \<not> window_gone (db w2) prefix s)"
proof -
  obtain z where z: "mset z = mset (filter (\<lambda>(m, sc). cutoff < sc) idx)" "sorted (rev (map snd z))"
    "zrevrangebyscore rd w1 (index_key prefix) cutoff most = take most (map fst z)"
    using redis_server.zrevrange_law [OF assms(1)] unfolding idx_def by blast
  have idx: "index_ok idx" using assms(2) by (simp add: windows_readable_def idx_def)
  note newest = newest_starts [OF idx z(1,2)]
  define ss where "ss = take most (map snd z)"
  have starts: "zrevrangebyscore rd w1 (index_key prefix) cutoff most = map show_int ss"
    using z(3) newest(1) by (simp add: ss_def take_map)
  define g where "g s = the (read_window rd prefix w2 (show_int s))" for s
  note whole = redis_server.read_window_whole [OF assms(1,3)]
  have rw: "read_window rd prefix w2 (show_int s) = Some (g s)" for s
    using whole [of s] by (auto simp: g_def split: if_splits)
  have gs: "g s = Some x \<Longrightarrow> wr_start x = s \<and> end_at (db w2) prefix s = Some (wr_end x)
      \<and> window_of (db w2) prefix s = (wr_generation x, map_of (wr_counts x))" for s x
    using whole [of s] by (auto simp: g_def split: if_splits)
  have gn: "g s \<noteq> None \<longleftrightarrow> \<not> window_gone (db w2) prefix s" for s
    using whole [of s] by (auto simp: g_def split: if_splits)
  define ws where "ws = List.map_filter g ss"
  have "all_some (map (\<lambda>s. read_window rd prefix w2 (show_int s)) ss) = Some ws"
    unfolding ws_def by (rule all_some_map) (simp add: rw)
  then have read: "read_windows rd prefix most t retention seconds w1 w2 = Some ws"
    using starts by (auto simp: read_windows_def Let_def cutoff_def [symmetric] comp_def ws_def List.map_filter_simps)
  have keys: "map wr_start ws = filter (\<lambda>s. g s \<noteq> None) ss"
    unfolding ws_def by (rule map_filter_keys) (use gs in blast)
  have "length ws \<le> most"
    using arg_cong [OF keys, of length] length_filter_le [of "\<lambda>s. g s \<noteq> None" ss] by (simp add: ss_def)
  moreover have "sorted_wrt (>) (map wr_start ws)"
    unfolding keys ss_def by (intro sorted_wrt_filter sorted_wrt_take newest(2))
  moreover have "window_of (db w2) prefix (wr_start x) = (wr_generation x, map_of (wr_counts x))
      \<and> end_at (db w2) prefix (wr_start x) = Some (wr_end x)" if "x \<in> set ws" for x
    using that gs unfolding ws_def by (auto simp: List.map_filter_def)
  moreover have "s \<in> set (map wr_start ws) \<longleftrightarrow>
      (show_int s, s) \<in> set idx \<and> cutoff < s \<and> card {s'. (show_int s', s') \<in> set idx \<and> s < s'} < most
      \<and> \<not> window_gone (db w2) prefix s" for s
  proof -
    have "{y \<in> set (map snd z). s < y} = {s'. (show_int s', s') \<in> set idx \<and> s < s'}" if "cutoff < s"
      unfolding newest(3) using that by auto
    then show ?thesis
      unfolding keys set_filter mem_Collect_eq ss_def take_descending [OF newest(2)] using newest(3) gn by auto
  qed
  ultimately show ?thesis using read by blast
qed

text \<open>
  The writer keeps Redis readable for the API: whatever results a batch brings, whatever was
  refused or expired, and wherever the connection was lost, the index names windows by their
  start, counts are numbers, and a window's meta data is complete or absent.
\<close>

theorem writer_keeps_windows_readable:
  assumes "redis_server rd db now" and "windows_readable (db w) prefix"
    and "\<forall>r \<in> set rs. now w < win_end r + retention"
    and "run_scripts rd prefix retention t lost rs w = (out, w')"
  shows "windows_readable (db w') prefix"
  using redis_server.run_scripts_readable [OF assms] by blast

text \<open>
  The cluster's match is honest: it is reported only when the marker read and the snapshot read
  both carry an epoch and the same one, and never for a missing marker or for the snapshot that
  initialisation leaves, which has none.
\<close>

theorem cluster_match_is_honest:
  assumes "read_cluster zk zroot w1 w2 w3 w4 = Inr s"
  shows "(cb_matches (cluster_response seen_at s) \<longrightarrow>
      (\<exists>l d version a b. read_leader zk zroot w1 = Inr (Some (JObj l)) \<and> read_snapshot zk zroot w2 = Inr (JObj d, version)
        \<and> map_of l ''epoch'' = Some a \<and> map_of d ''epoch'' = Some b \<and> a \<noteq> JNull \<and> b \<noteq> JNull \<and> py_eq a b))
    \<and> (read_leader zk zroot w1 = Inr None \<or> read_snapshot zk zroot w2 = Inr (JObj [(''epoch'', JNull)], version)
        \<longrightarrow> \<not> cb_matches (cluster_response seen_at s))"
proof -
  from assms obtain leader snapshot
    where l: "leader_fields (read_leader zk zroot w1) = Inr leader" and d: "with_version (read_snapshot zk zroot w2) = Inr snapshot"
      and m: "cb_matches (cluster_response seen_at s) = snapshot_matches_leader leader snapshot"
    by (auto simp: read_cluster_def cluster_response_def split: sum.splits)
  have ef: "epoch_field kvs = Some a \<longleftrightarrow> map_of kvs ''epoch'' = Some a \<and> a \<noteq> JNull" for kvs a
    by (auto simp: epoch_field_def split: option.splits json.splits)
  have "\<exists>l d version a b. read_leader zk zroot w1 = Inr (Some (JObj l)) \<and> read_snapshot zk zroot w2 = Inr (JObj d, version)
        \<and> map_of l ''epoch'' = Some a \<and> map_of d ''epoch'' = Some b \<and> a \<noteq> JNull \<and> b \<noteq> JNull \<and> py_eq a b"
    if yes: "snapshot_matches_leader leader snapshot"
  proof -
    from yes obtain lf sf a b where ab: "leader = Some lf" "snapshot = Some sf" "epoch_field lf = Some a" "epoch_field sf = Some b" "py_eq a b"
      by (auto simp: snapshot_matches_leader_def split: option.splits)
    from l ab(1) have "read_leader zk zroot w1 = Inr (Some (JObj lf))"
      by (auto simp: leader_fields_def split: sum.splits option.splits json.splits)
    moreover from d ab(2) obtain df version where "read_snapshot zk zroot w2 = Inr (JObj df, version)"
        "sf = AList.update ''version'' (JInt version) df"
      by (auto simp: with_version_def split: sum.splits json.splits prod.splits if_splits)
    moreover from this(2) ab(4) have "map_of df ''epoch'' = Some b \<and> b \<noteq> JNull"
      unfolding ef by (simp add: update_conv')
    ultimately show ?thesis using ab(3,5) unfolding ef by blast
  qed
  with m show ?thesis by fastforce
qed

text \<open>
  What a status means: a full allowance or a store that failed answers 503 and never a value;
  a last page is answered only with the value Redis gave before the deadline, and 404 says that
  Redis, asked in time, had none.
\<close>

theorem last_page_statuses:
  assumes "last_page_route rd prefix ad u w = r" and "text_between USER_ID_MAX_LENGTH u" and "ad_connected ad = None"
  shows "(gate (ad_gate ad) = 0 \<longrightarrow> r = Status 503 ''redis busy'')
    \<and> (r = Answer (v, p) \<longrightarrow> v = u \<and> gate (ad_gate ad) \<noteq> 0 \<and> ad_finished ad < deadline (ad_budget ad)
        \<and> (ad_fault ad = None \<longrightarrow> rget rd w (last_page_key u prefix) = Some p))
    \<and> (r = Status 404 msg \<and> ad_fault ad = None \<longrightarrow>
        rget rd w (last_page_key u prefix) = None \<and> ad_finished ad < deadline (ad_budget ad))
    \<and> (ad_fault ad = Some RaisedFailure \<longrightarrow> r = Status 503 ''redis busy'' \<or> r = Status 503 ''redis unavailable'')"
  using assms
  by (auto simp: last_page_route_def run_store_def run_read_def respond_def store_outcome_def last_page_def remaining_def
      split: if_splits option.splits read_outcome.splits run_result.splits bulk_error.splits sum.splits)

section \<open>Witnesses\<close>

lemma ex_keyspace_readable: "windows_readable (ref_db ex_keyspace) []"
  using ex_keyspace_ok
  by (simp add: windows_readable_def index_ok_def numeric_def meta_complete_def ex_keyspace_def)

lemma ex_results_live: "\<forall>r \<in> set ex_results. ref_now ex_keyspace < win_end r + 60"
  by (simp add: ex_results_def ex_keyspace_def)

definition ex_written :: ref_keyspace where
  "ex_written = snd (run_scripts ref_redis [] 60 100 None ex_results ex_keyspace)"

lemma ex_written_run:
  "run_scripts ref_redis [] 60 100 None ex_results ex_keyspace = (fst (run_scripts ref_redis [] 60 100 None ex_results ex_keyspace), ex_written)"
  by (simp add: ex_written_def)

theorem writer_keeps_windows_readable_witness: "windows_readable (ref_db ex_written) []"
  by (rule writer_keeps_windows_readable [OF ref_server.redis_server_axioms ex_keyspace_readable ex_results_live ex_written_run])

text \<open>Generation 2 replaced generation 1's window: it is served with its one page.\<close>

lemma ex_written_readable: "windows_readable (ref_db ex_written) []"
  using redis_server.run_scripts_readable [OF ref_server.redis_server_axioms ex_keyspace_readable ex_results_live ex_written_run]
  by blast

lemma ex_read: "map_option (map (\<lambda>x. (wr_start x, wr_end x)))
    (read_windows ref_redis [] 10 100 60 10 ex_written ex_written) = Some [(90, 100)]"
  by code_simp

theorem api_serves_whole_windows_witness:
  "\<exists>x. read_windows ref_redis [] 10 100 60 10 ex_written ex_written = Some [x]
     \<and> wr_start x = 90 \<and> end_at (ref_db ex_written) [] 90 = Some 100
     \<and> window_of (ref_db ex_written) [] 90 = (wr_generation x, map_of (wr_counts x))"
proof -
  from ex_read obtain x where x: "read_windows ref_redis [] 10 100 60 10 ex_written ex_written = Some [x]"
    "wr_start x = 90" "wr_end x = 100" by auto
  with api_serves_whole_windows
    [OF ref_server.redis_server_axioms ex_written_readable ex_written_readable, of 10 100 60 10]
  show ?thesis by auto
qed

theorem cluster_match_is_honest_witness:
  "\<exists>s. read_cluster tree_client ''/p'' ex_world ex_world ex_world ex_world = Inr s \<and> cb_matches (cluster_response 0 s)
     \<and> (\<exists>l d version a b. read_leader tree_client ''/p'' ex_world = Inr (Some (JObj l))
          \<and> read_snapshot tree_client ''/p'' ex_world = Inr (JObj d, version) \<and> py_eq a b)"
proof -
  have "\<not> isl (read_cluster tree_client ''/p'' ex_world ex_world ex_world ex_world)" by code_simp
  then obtain s where s: "read_cluster tree_client ''/p'' ex_world ex_world ex_world ex_world = Inr s"
    by (auto simp: isl_def) (metis sum.exhaust)
  then have m: "cb_matches (cluster_response 0 s)"
    by (auto simp: read_cluster_def read_leader_def read_snapshot_def read_flink_record_def read_document_def
        tree_client_def leader_fields_def with_version_def leader_payload_def ex_node_def cluster_response_def
        snapshot_matches_leader_def epoch_field_def py_eq_def update_conv' split: sum.splits)
  from cluster_match_is_honest [OF s, of 0 0] m s show ?thesis by blast
qed

definition ex_admitted :: "string option admitted" where
  "ex_admitted = \<lparr>ad_connected = None, ad_gate = new_bulkhead 0, ad_budget = new_budget 0 2 None, ad_finished = 1,
     ad_fault = None, ad_failing = False\<rparr>"

theorem last_page_statuses_witness:
  "last_page_route ref_redis [] ex_admitted ''nick'' ex_written = Status 503 ''redis busy''"
proof -
  have c: "text_between USER_ID_MAX_LENGTH ''nick''" "ad_connected ex_admitted = None" "gate (ad_gate ex_admitted) = 0"
    by (simp_all add: text_between_def USER_ID_MAX_LENGTH_def ex_admitted_def new_bulkhead_def)
  from last_page_statuses [OF refl c(1,2), of ref_redis "[]" ex_written "[]" "[]" "[]"] c(3) show ?thesis by simp
qed

end
