(* ===== verification/Api_Models.thy ===== *)
theory Api_Models
  imports Api Coordinator Keeper_Loop
begin

text \<open>
  The response models of \<open>api.py\<close> and what reaches them: the marker, the snapshot, the
  registrations and the keeper's record, each written by another process. Pydantic's validation is
  a parameter; the locale \<open>pydantic\<close> holds the documented cases in which it accepts a value.
\<close>

section \<open>Models\<close>

text \<open>A model lists its fields: the name, the type, and whether it has no default.\<close>

datatype field_type =
    TInt | TStr | TBool | TFloat | TDatetime
  | TLiteral string
  | TOpt field_type
  | TList field_type
  | TDict field_type field_type
  | TModel "(string \<times> field_type \<times> bool) list"

definition Health_model :: field_type where
  "Health_model = TModel [(''status'', TLiteral ''ok'', True)]"

definition ErrorDetail_model :: field_type where
  "ErrorDetail_model = TModel [(''detail'', TStr, True)]"

definition PageCounts_model :: field_type where
  "PageCounts_model = TModel [(''counts'', TDict TStr TInt, True), (''observed_at'', TDatetime, True)]"

definition LastPage_model :: field_type where
  "LastPage_model = TModel [(''user_id'', TStr, True), (''page'', TStr, True), (''observed_at'', TDatetime, True)]"

definition Event_model :: field_type where
  "Event_model = TModel
     [(''event_time'', TDatetime, True), (''event_id'', TStr, True), (''page'', TStr, True), (''written_at'', TDatetime, True)]"

definition UserEvents_model :: field_type where
  "UserEvents_model = TModel
     [(''user_id'', TStr, True), (''events'', TList Event_model, True), (''observed_at'', TDatetime, True)]"

definition Window_model :: field_type where
  "Window_model = TModel
     [(''start'', TDatetime, True), (''end'', TDatetime, True), (''generation'', TInt, True), (''counts'', TDict TStr TInt, True)]"

definition Windows_model :: field_type where
  "Windows_model = TModel
     [(''windows'', TList Window_model, True), (''retention_seconds'', TInt, True), (''observed_at'', TDatetime, True)]"

definition Leader_model :: field_type where
  "Leader_model = TModel [(''identity'', TStr, True), (''epoch'', TInt, True), (''since'', TOpt TDatetime, False)]"

definition FlinkObservation_model :: field_type where
  "FlinkObservation_model = TModel
     [(''status'', TStr, True), (''generation'', TOpt TInt, False), (''job_id'', TOpt TStr, False), (''state'', TOpt TStr, False),
      (''at'', TOpt TDatetime, False), (''cancelling'', TList TStr, False), (''unresolved'', TList TInt, False),
      (''notes'', TList TStr, False), (''note'', TOpt TStr, False)]"

definition Snapshot_model :: field_type where
  "Snapshot_model = TModel
     [(''version'', TInt, True), (''epoch'', TOpt TInt, True), (''at'', TOpt TDatetime, True),
      (''pageviews'', TOpt TInt, False), (''pages'', TOpt TInt, False), (''jobs_completed'', TOpt TInt, False),
      (''jobs_distinct'', TOpt TInt, False), (''queue_waiting'', TOpt TInt, False), (''queue_consumers'', TOpt TInt, False),
      (''kafka_committed'', TOpt TInt, False), (''cassandra_reachable'', TOpt TBool, False),
      (''flink'', TOpt FlinkObservation_model, False)]"

definition FlinkAttempt_model :: field_type where
  "FlinkAttempt_model = TModel [(''job_id'', TOpt TStr, True), (''submitted_at'', TOpt TDatetime, False)]"

definition FlinkRecord_model :: field_type where
  "FlinkRecord_model = TModel
     [(''version'', TInt, True), (''generation'', TInt, True), (''epoch'', TOpt TInt, True), (''failures'', TInt, True),
      (''attempts'', TDict TInt FlinkAttempt_model, True)]"

definition Registration_fields :: "(string \<times> field_type \<times> bool) list" where
  "Registration_fields = [(''identity'', TStr, True), (''since'', TOpt TDatetime, False)]"

definition ConsumerRegistration_fields :: "(string \<times> field_type \<times> bool) list" where
  "ConsumerRegistration_fields = Registration_fields @ [(''group'', TOpt TStr, False)]"

definition WorkerRegistration_fields :: "(string \<times> field_type \<times> bool) list" where
  "WorkerRegistration_fields = Registration_fields @ [(''delay'', TOpt TFloat, False), (''config_version'', TOpt TInt, False)]"

definition Registrations_model :: field_type where
  "Registrations_model = TModel
     [(''coordinator'', TList (TModel Registration_fields), True), (''consumer'', TList (TModel ConsumerRegistration_fields), True),
      (''worker'', TList (TModel WorkerRegistration_fields), True)]"

definition Cluster_model :: field_type where
  "Cluster_model = TModel
     [(''leader'', TOpt Leader_model, True), (''snapshot'', TOpt Snapshot_model, True),
      (''snapshot_matches_leader'', TBool, True), (''registrations'', Registrations_model, True),
      (''flink'', TOpt FlinkRecord_model, False), (''observed_at'', TDatetime, True)]"

section \<open>Building the responses\<close>

text \<open>
  A datetime is its seconds since the epoch; \<open>datetime.fromtimestamp\<close> raises outside the years 1
  to 9999 and on what is no number.
\<close>

definition in_years :: "rat \<Rightarrow> bool" where
  "in_years x \<longleftrightarrow> - 62135596800 \<le> x \<and> x < 253402300800"

definition from_timestamp :: "json \<Rightarrow> json option" where
  "from_timestamp j = (case number_of j of
       Some x \<Rightarrow> if in_years x then Some (JFloat (Fin x)) else None
     | None \<Rightarrow> None)"

text \<open>\<open>snapshot_response\<close>: \<open>None\<close> when the conversion of \<open>at\<close> raises.\<close>

definition snapshot_response :: "(string \<times> json) list option \<Rightarrow> json option" where
  "snapshot_response snapshot =
     (case snapshot of
        None \<Rightarrow> Some JNull
      | Some kvs \<Rightarrow>
          (case map_of kvs ''at'' of
             None \<Rightarrow> Some (JObj (AList.update ''at'' JNull kvs))
           | Some JNull \<Rightarrow> Some (JObj (AList.update ''at'' JNull kvs))
           | Some j \<Rightarrow> map_option (\<lambda>t. JObj (AList.update ''at'' t kvs)) (from_timestamp j)))"

definition object_or_null :: "(string \<times> json) list option \<Rightarrow> json" where
  "object_or_null d = (case d of None \<Rightarrow> JNull | Some kvs \<Rightarrow> JObj kvs)"

text \<open>The document \<open>cluster_response\<close> gives to \<open>Cluster\<close>.\<close>

definition cluster_document :: "rat \<Rightarrow> cluster_state \<Rightarrow> json option" where
  "cluster_document seen_at s =
     map_option (\<lambda>snap. JObj
       [(''leader'', object_or_null (cl_leader s)), (''snapshot'', snap),
        (''snapshot_matches_leader'', JBool (cb_matches (cluster_response seen_at s))),
        (''registrations'', JObj (map (\<lambda>(role, js). (role, JArr js)) (cl_registrations s))),
        (''flink'', object_or_null (cl_flink s)), (''observed_at'', JFloat (Fin seen_at))])
     (snapshot_response (cl_snapshot s))"

text \<open>\<open>windows_response\<close>, of windows whose instants are datetimes.\<close>

definition counts_json :: "(string \<times> int) list \<Rightarrow> json" where
  "counts_json d = JObj (map (\<lambda>(k, v). (k, JInt v)) d)"

fun window_document :: "window_read \<Rightarrow> json option" where
  "window_document r =
     (case (from_timestamp (JInt (wr_start r)), from_timestamp (JInt (wr_end r))) of
        (Some a, Some b) \<Rightarrow> Some (JObj
          [(''start'', a), (''end'', b), (''generation'', JInt (wr_generation r)), (''counts'', counts_json (wr_counts r))])
      | _ \<Rightarrow> None)"

fun window_documents :: "window_read list \<Rightarrow> json list option" where
  "window_documents [] = Some []"
| "window_documents (r # rs) =
     (case (window_document r, window_documents rs) of (Some d, Some ds) \<Rightarrow> Some (d # ds) | _ \<Rightarrow> None)"

definition windows_response :: "rat \<Rightarrow> int \<Rightarrow> window_read list \<Rightarrow> json option" where
  "windows_response seen_at retention rs =
     map_option (\<lambda>ds. JObj
       [(''windows'', JArr ds), (''retention_seconds'', JInt retention), (''observed_at'', JFloat (Fin seen_at))])
     (window_documents rs)"

text \<open>The documents of the other routes.\<close>

definition health_response :: json where
  "health_response = JObj [(''status'', JStr ''ok'')]"

definition page_counts_response :: "rat \<Rightarrow> (string \<times> int) list \<Rightarrow> json" where
  "page_counts_response seen_at counts = JObj [(''counts'', counts_json counts), (''observed_at'', JFloat (Fin seen_at))]"

definition last_page_response :: "rat \<Rightarrow> string \<Rightarrow> string \<Rightarrow> json" where
  "last_page_response seen_at user pg =
     JObj [(''user_id'', JStr user), (''page'', JStr pg), (''observed_at'', JFloat (Fin seen_at))]"

section \<open>The bulkheads and the cluster's route\<close>

definition REDIS_LIMIT :: nat where "REDIS_LIMIT = 8"
definition CASSANDRA_LIMIT :: nat where "CASSANDRA_LIMIT = 8"
definition ZOOKEEPER_LIMIT :: nat where "ZOOKEEPER_LIMIT = 4"
definition READ_DEADLINE_SECONDS :: seconds where "READ_DEADLINE_SECONDS = 2"
definition ZOOKEEPER_CALL_TIMEOUT_SECONDS :: seconds where "ZOOKEEPER_CALL_TIMEOUT_SECONDS = 1"

definition ZOOKEEPER_FAILURES :: "zk_error list" where
  "ZOOKEEPER_FAILURES = [ConnectionLoss, SessionExpiredError, ConnectionClosedError, KazooTimeoutError]"

record bulkheads =
  bh_redis :: bulkhead
  bh_cassandra :: bulkhead
  bh_zookeeper :: bulkhead

definition make_bulkheads :: bulkheads where
  "make_bulkheads = \<lparr>bh_redis = new_bulkhead REDIS_LIMIT, bh_cassandra = new_bulkhead CASSANDRA_LIMIT,
     bh_zookeeper = new_bulkhead ZOOKEEPER_LIMIT\<rparr>"

text \<open>The budget each bulkhead gives a request; only ZooKeeper's calls have a timeout of their own.\<close>

definition request_budget :: "string \<Rightarrow> seconds \<Rightarrow> budget" where
  "request_budget store began = new_budget began READ_DEADLINE_SECONDS
     (if store = ''zookeeper'' then Some ZOOKEEPER_CALL_TIMEOUT_SECONDS else None)"

lemma api_store_calls_bounded:
  assumes "bulk_step\<^sup>*\<^sup>* (bh_redis make_bulkheads) r" and "bulk_step\<^sup>*\<^sup>* (bh_cassandra make_bulkheads) c"
    and "bulk_step\<^sup>*\<^sup>* (bh_zookeeper make_bulkheads) z"
  shows "length (filter reading (requests r @ requests c @ requests z)) \<le> 20"
proof -
  have cap: "length (filter reading (requests b)) \<le> n" if "bulk_step\<^sup>*\<^sup>* (new_bulkhead n) b" for n b
    using reading_is_held [OF inv_reachable [OF that]] inv_reachable [OF that] limit_reachable [OF that]
    by (simp add: bulk_inv_def)
  from assms cap [of REDIS_LIMIT r] cap [of CASSANDRA_LIMIT c] cap [of ZOOKEEPER_LIMIT z] show ?thesis
    by (simp add: make_bulkheads_def REDIS_LIMIT_def CASSANDRA_LIMIT_def ZOOKEEPER_LIMIT_def)
qed

text \<open>How the read ends for the bulkhead: the client's failures, or something nobody catches.\<close>

definition cluster_outcome :: "coord_error + cluster_state \<Rightarrow> cluster_state read_outcome" where
  "cluster_outcome r =
     (case r of
        Inr s \<Rightarrow> Returned s
      | Inl (ZkExn e) \<Rightarrow> if e \<in> set ZOOKEEPER_FAILURES then RaisedFailure else RaisedOther ''KazooException''
      | Inl _ \<Rightarrow> RaisedOther ''Exception'')"

text \<open>\<open>GET /cluster\<close>; a model that refuses its data raises, which is a server error.\<close>

definition cluster_route ::
    "(field_type \<Rightarrow> json \<Rightarrow> bool) \<Rightarrow> 'w kazoo \<Rightarrow> string \<Rightarrow> cluster_state admitted \<Rightarrow> rat \<Rightarrow> 'w \<Rightarrow> 'w \<Rightarrow> 'w \<Rightarrow> 'w \<Rightarrow> json response" where
  "cluster_route accepts zk zroot ad seen_at w1 w2 w3 w4 =
     respond (\<lambda>s. case cluster_document seen_at s of
         None \<Rightarrow> ServerError
       | Some d \<Rightarrow> if accepts Cluster_model d then Answer d else ServerError)
       (fst (run_read ''zookeeper'' (ad_connected ad) (ad_gate ad) (ad_budget ad) (ad_finished ad)
          (case ad_fault ad of Some f \<Rightarrow> f | None \<Rightarrow> cluster_outcome (read_cluster zk zroot w1 w2 w3 w4)) (ad_failing ad)))"

section \<open>What the other processes write\<close>

text \<open>The keeper's observation as the leader puts it into the snapshot; \<open>ids\<close> prints a list of job ids.\<close>

fun note_text :: "(string list \<Rightarrow> string) \<Rightarrow> keeper_note \<Rightarrow> string" where
  "note_text ids NoJobListing = ''no job listing''"
| "note_text ids (NewerListed gs) = ''generation ['' @ show_items gs @ ''] listed above the record's''"
| "note_text ids (JobsNamed n g) = show_nat n @ '' jobs named for generation '' @ show_int g"
| "note_text ids (UnexplainedJobs g js) = ''unexplained jobs of generation '' @ show_int g @ '': '' @ ids js"
| "note_text ids (CycleFailed what) = what"

definition opt_str :: "string option \<Rightarrow> json" where
  "opt_str x = (case x of None \<Rightarrow> JNull | Some s \<Rightarrow> JStr s)"

definition observation_json :: "(string list \<Rightarrow> string) \<Rightarrow> observation \<Rightarrow> json" where
  "observation_json ids ob = JObj
     ((case obs_generation ob of None \<Rightarrow> [] | Some g \<Rightarrow> [(''generation'', JInt g)])
      @ [(''status'', JStr (obs_status ob))]
      @ (case obs_at ob of None \<Rightarrow> [] | Some t \<Rightarrow> [(''at'', JStr t)])
      @ (case obs_note ob of None \<Rightarrow> [] | Some n \<Rightarrow> [(''note'', JStr (note_text ids n))])
      @ (case obs_detail ob of None \<Rightarrow> [] | Some d \<Rightarrow>
          [(''job_id'', opt_str (obs_job_id d)), (''state'', opt_str (obs_state d)),
           (''cancelling'', JArr (map JStr (obs_cancelling d))), (''unresolved'', JArr (map JInt (obs_unresolved d))),
           (''notes'', JArr (map (JStr \<circ> note_text ids) (obs_notes d)))]))"

text \<open>The documents in the tree, as the code that writes them builds them.\<close>

definition written_leader :: "(string \<Rightarrow> bool) \<Rightarrow> (string \<times> json) list \<Rightarrow> bool" where
  "written_leader instant kvs \<longleftrightarrow> (\<exists>who ep since. JObj kvs = leader_payload who ep since \<and> instant since)"

definition written_snapshot :: "(string \<Rightarrow> bool) \<Rightarrow> (string list \<Rightarrow> string) \<Rightarrow> (string \<times> json) list \<Rightarrow> bool" where
  "written_snapshot instant ids kvs \<longleftrightarrow>
     kvs = [(''epoch'', JNull)]
     \<or> (\<exists>si ep. build_snapshot si ep = Some (JObj kvs) \<and> in_years (si_at si)
          \<and> (si_flink si = JNull
             \<or> (\<exists>ob. si_flink si = observation_json ids ob \<and> (\<forall>t. obs_at ob = Some t \<longrightarrow> instant t))))"

definition written_record :: "(string \<Rightarrow> bool) \<Rightarrow> (string \<times> json) list \<Rightarrow> bool" where
  "written_record instant kvs \<longleftrightarrow>
     JObj kvs = EMPTY_FLINK_RECORD
     \<or> (\<exists>r. JObj kvs = to_json r \<and> (\<forall>(g, a) \<in> set (attempts r). \<forall>t. submitted_at a = Some t \<longrightarrow> instant t))"

fun registration_extra :: "string \<Rightarrow> string \<Rightarrow> rat \<Rightarrow> int \<Rightarrow> (string \<times> json) list" where
  "registration_extra role grp delay version =
     (if role = ''consumer'' then [(''group'', JStr grp)]
      else if role = ''worker'' then [(''delay'', JFloat (Fin delay)), (''config_version'', JInt version)]
      else [])"

definition written_registration :: "(string \<Rightarrow> bool) \<Rightarrow> string \<Rightarrow> json \<Rightarrow> bool" where
  "written_registration instant role j \<longleftrightarrow>
     (\<exists>who since grp delay version. instant since
        \<and> j = JObj (merge_fields [(''identity'', JStr who), (''since'', JStr since)] (registration_extra role grp delay version)))"

text \<open>What \<open>read_cluster\<close> read of such a tree.\<close>

definition written_cluster :: "(string \<Rightarrow> bool) \<Rightarrow> (string list \<Rightarrow> string) \<Rightarrow> cluster_state \<Rightarrow> bool" where
  "written_cluster instant ids s \<longleftrightarrow>
     (\<forall>kvs. cl_leader s = Some kvs \<longrightarrow> written_leader instant kvs)
     \<and> (\<forall>kvs. cl_snapshot s = Some kvs \<longrightarrow> (\<exists>d v. kvs = AList.update ''version'' (JInt v) d \<and> written_snapshot instant ids d))
     \<and> map fst (cl_registrations s) = ROLES
     \<and> (\<forall>(role, js) \<in> set (cl_registrations s). \<forall>j \<in> set js. written_registration instant role j)
     \<and> (\<forall>kvs. cl_flink s = Some kvs \<longrightarrow> (\<exists>d v. kvs = AList.update ''version'' (JInt v) d \<and> written_record instant d))"

section \<open>What pydantic promises\<close>

text \<open>
  \<open>instant\<close> holds of the texts \<open>isoformat\<close> gives. Unknown keys are ignored, and a missing one is
  accepted when the field has a default; a key of a JSON object is a text, and a decimal text is
  accepted for an integer.
\<close>

locale pydantic =
  fixes accepts :: "field_type \<Rightarrow> json \<Rightarrow> bool" and instant :: "string \<Rightarrow> bool"
  assumes int_law: "accepts TInt (JInt i)" "accepts TInt (JStr (show_int i))"
    and str_law: "accepts TStr (JStr s)"
    and bool_law: "accepts TBool (JBool b)"
    and literal_law: "accepts (TLiteral w) (JStr w)"
    and float_law: "accepts TFloat (JFloat (Fin x))" "accepts TFloat (JInt i)"
    and datetime_law: "instant d \<Longrightarrow> accepts TDatetime (JStr d)" "in_years y \<Longrightarrow> accepts TDatetime (JFloat (Fin y))"
    and opt_law: "accepts (TOpt t) JNull" "accepts t j \<Longrightarrow> accepts (TOpt t) j"
    and list_law: "(\<forall>j \<in> set js. accepts t j) \<Longrightarrow> accepts (TList t) (JArr js)"
    and dict_law: "(\<forall>(k, v) \<in> set kvs. accepts tk (JStr k) \<and> accepts tv v) \<Longrightarrow> accepts (TDict tk tv) (JObj kvs)"
    and model_law: "(\<forall>(f, t, required) \<in> set fs. case map_of doc f of Some j \<Rightarrow> accepts t j | None \<Rightarrow> \<not> required)
      \<Longrightarrow> accepts (TModel fs) (JObj doc)"
begin

lemmas scalar_laws = int_law str_law bool_law literal_law float_law datetime_law opt_law

lemma opt_int_accepted [simp]: "accepts (TOpt TInt) (opt_int x)"
  by (cases x) (simp_all add: opt_int_def scalar_laws)

lemma opt_str_accepted [simp]: "accepts (TOpt TStr) (opt_str x)"
  by (cases x) (simp_all add: opt_str_def scalar_laws)

text \<open>Item by item: each known key holds a value of its field's type, and required fields are there.\<close>

definition items_fit :: "(string \<times> field_type \<times> bool) list \<Rightarrow> (string \<times> json) list \<Rightarrow> bool" where
  "items_fit fs doc \<longleftrightarrow> list_all (\<lambda>(k, j). case map_of fs k of None \<Rightarrow> True | Some (t, r) \<Rightarrow> accepts t j) doc"

lemma items_fit_append: "items_fit fs (xs @ ys) \<longleftrightarrow> items_fit fs xs \<and> items_fit fs ys"
  by (simp add: items_fit_def)

lemma model_by_items:
  assumes "distinct (map fst fs)" and "items_fit fs doc" and "list_all (\<lambda>(f, t, r). r \<longrightarrow> f \<in> fst ` set doc) fs"
  shows "accepts (TModel fs) (JObj doc)"
proof (rule model_law, clarify)
  fix f t r
  assume f: "(f, t, r) \<in> set fs"
  show "case map_of doc f of Some j \<Rightarrow> accepts t j | None \<Rightarrow> \<not> r"
  proof (cases "map_of doc f")
    case None
    then have "f \<notin> fst ` set doc" by (simp only: map_of_eq_None_iff not_False_eq_True)
    moreover have "r \<longrightarrow> f \<in> fst ` set doc" using bspec [OF assms(3) [unfolded list_all_iff] f] by simp
    ultimately show ?thesis using None by simp
  next
    case (Some j)
    then have "(f, j) \<in> set doc" by (rule map_of_SomeD)
    moreover have "map_of fs f = Some (t, r)" using f assms(1) by (simp add: map_of_eq_Some_iff)
    ultimately show ?thesis using bspec [OF assms(2) [unfolded items_fit_def list_all_iff]] Some by fastforce
  qed
qed

lemma leader_accepted: "written_leader instant kvs \<Longrightarrow> accepts Leader_model (JObj kvs)"
  unfolding Leader_model_def by (rule model_law) (auto simp: written_leader_def leader_payload_def scalar_laws)

lemma observation_accepted:
  assumes "\<forall>t. obs_at ob = Some t \<longrightarrow> instant t"
  shows "accepts FlinkObservation_model (observation_json ids ob)"
  unfolding FlinkObservation_model_def observation_json_def
proof (rule model_by_items)
  let ?fs = "[(''status'', TStr, True), (''generation'', TOpt TInt, False), (''job_id'', TOpt TStr, False), (''state'', TOpt TStr, False),
      (''at'', TOpt TDatetime, False), (''cancelling'', TList TStr, False), (''unresolved'', TList TInt, False),
      (''notes'', TList TStr, False), (''note'', TOpt TStr, False)]"
  show "distinct (map fst ?fs)" by simp
  let ?generation = "case obs_generation ob of None \<Rightarrow> [] | Some g \<Rightarrow> [(''generation'', JInt g)]"
  let ?at = "case obs_at ob of None \<Rightarrow> [] | Some t \<Rightarrow> [(''at'', JStr t)]"
  let ?note = "case obs_note ob of None \<Rightarrow> [] | Some n \<Rightarrow> [(''note'', JStr (note_text ids n))]"
  let ?detail = "case obs_detail ob of None \<Rightarrow> [] | Some d \<Rightarrow>
      [(''job_id'', opt_str (obs_job_id d)), (''state'', opt_str (obs_state d)),
       (''cancelling'', JArr (map JStr (obs_cancelling d))), (''unresolved'', JArr (map JInt (obs_unresolved d))),
       (''notes'', JArr (map (JStr \<circ> note_text ids) (obs_notes d)))]"
  have "items_fit ?fs ?generation" by (cases "obs_generation ob") (simp_all add: items_fit_def scalar_laws)
  moreover have "items_fit ?fs [(''status'', JStr (obs_status ob))]" by (simp add: items_fit_def scalar_laws)
  moreover have "items_fit ?fs ?note" by (cases "obs_note ob") (simp_all add: items_fit_def scalar_laws)
  moreover have "items_fit ?fs ?at" using assms by (cases "obs_at ob") (simp_all add: items_fit_def scalar_laws)
  moreover have "items_fit ?fs ?detail"
    by (cases "obs_detail ob") (simp_all add: items_fit_def scalar_laws list_law)
  ultimately show "items_fit ?fs (?generation @ [(''status'', JStr (obs_status ob))] @ ?at @ ?note @ ?detail)"
    by (simp only: items_fit_append)
qed simp

lemma registration_accepted:
  "written_registration instant ''coordinator'' j \<Longrightarrow> accepts (TModel Registration_fields) j"
  "written_registration instant ''consumer'' j \<Longrightarrow> accepts (TModel ConsumerRegistration_fields) j"
  "written_registration instant ''worker'' j \<Longrightarrow> accepts (TModel WorkerRegistration_fields) j"
  unfolding written_registration_def Registration_fields_def ConsumerRegistration_fields_def WorkerRegistration_fields_def
  by (elim exE conjE, hypsubst, intro model_law,
      simp add: merge_fields_def update_conv' scalar_laws)+

lemma attempt_accepted:
  "\<forall>t. submitted_at a = Some t \<longrightarrow> instant t \<Longrightarrow> accepts FlinkAttempt_model (attempt_json a)"
  unfolding FlinkAttempt_model_def attempt_json_def
  by (rule model_law) (auto simp: scalar_laws split: option.splits)

lemma record_accepted:
  assumes "written_record instant d"
  shows "accepts FlinkRecord_model (JObj (AList.update ''version'' (JInt v) d))"
proof -
  have att: "accepts (TDict TInt FlinkAttempt_model) (JObj (map (\<lambda>(g, a). (show_int g, attempt_json a)) (sort_key fst (attempts r))))"
    if "\<forall>(g, a) \<in> set (attempts r). \<forall>t. submitted_at a = Some t \<longrightarrow> instant t" for r
    using that by (intro dict_law) (auto simp: scalar_laws attempt_accepted)
  have none: "accepts (TDict TInt FlinkAttempt_model) (JObj [])" by (rule dict_law) simp
  show ?thesis unfolding FlinkRecord_model_def
    by (rule model_law) (use assms att none in \<open>auto simp: written_record_def EMPTY_FLINK_RECORD_def to_json_def
        update_conv' scalar_laws split: option.splits\<close>)
qed

lemma snapshot_accepted:
  assumes "written_snapshot instant ids d"
  shows "\<exists>doc. snapshot_response (Some (AList.update ''version'' (JInt v) d)) = Some doc \<and> accepts Snapshot_model doc"
proof -
  consider "d = [(''epoch'', JNull)]"
    | si ep where "build_snapshot si ep = Some (JObj d)" "in_years (si_at si)" "accepts (TOpt FlinkObservation_model) (si_flink si)"
    using assms observation_accepted opt_law unfolding written_snapshot_def by metis
  then show ?thesis
  proof cases
    case 1
    then show ?thesis unfolding Snapshot_model_def snapshot_response_def
      by (auto intro!: model_law simp: update_conv' scalar_laws)
  next
    case 2
    then obtain n1 n2 n3 n4 where d: "d =
         [(''epoch'', JInt ep), (''at'', JFloat (Fin (si_at si))),
          (''pageviews'', JInt n1), (''pages'', JInt n2), (''jobs_completed'', JInt n3), (''jobs_distinct'', JInt n4),
          (''queue_waiting'', opt_int (map_option fst (si_queue si))),
          (''queue_consumers'', opt_int (map_option snd (si_queue si))),
          (''kafka_committed'', opt_int (si_committed si)),
          (''cassandra_reachable'', JBool (cassandra_reachable (si_session si))),
          (''flink'', si_flink si)]"
      by (auto simp: build_snapshot_def split: Option.bind_splits)
    with 2(2,3) show ?thesis
      by (simp add: d Snapshot_model_def snapshot_response_def from_timestamp_def update_conv' scalar_laws model_law)
  qed
qed

lemma routes_accepted:
  assumes "in_years seen_at"
  shows "accepts Health_model health_response"
    and "accepts PageCounts_model (page_counts_response seen_at counts)"
    and "accepts LastPage_model (last_page_response seen_at user pg)"
proof -
  have counts: "accepts (TDict TStr TInt) (counts_json d)" for d
    unfolding counts_json_def by (rule dict_law) (auto simp: scalar_laws)
  show "accepts Health_model health_response" "accepts PageCounts_model (page_counts_response seen_at counts)"
    "accepts LastPage_model (last_page_response seen_at user pg)"
    unfolding Health_model_def health_response_def PageCounts_model_def page_counts_response_def
      LastPage_model_def last_page_response_def
    using assms by (auto intro!: model_law simp: scalar_laws counts)
qed

lemma window_accepted: "window_document r = Some doc \<Longrightarrow> accepts Window_model doc"
proof -
  assume "window_document r = Some doc"
  then obtain a b where ab: "from_timestamp (JInt (wr_start r)) = Some a" "from_timestamp (JInt (wr_end r)) = Some b"
      and doc: "doc = JObj [(''start'', a), (''end'', b), (''generation'', JInt (wr_generation r)), (''counts'', counts_json (wr_counts r))]"
    by (auto split: option.splits)
  have "accepts TDatetime a" "accepts TDatetime b"
    using ab by (auto simp: from_timestamp_def scalar_laws split: if_splits)
  moreover have "accepts (TDict TStr TInt) (counts_json (wr_counts r))"
    unfolding counts_json_def by (rule dict_law) (auto simp: scalar_laws)
  ultimately show "accepts Window_model doc"
    unfolding doc Window_model_def by (intro model_law) (simp add: scalar_laws)
qed

lemma window_documents_accepted: "window_documents rs = Some ds \<Longrightarrow> \<forall>d \<in> set ds. accepts Window_model d"
  by (induction rs arbitrary: ds) (auto simp del: window_document.simps dest: window_accepted split: option.splits)

lemma windows_accepted:
  assumes "windows_response seen_at retention rs = Some doc" and "in_years seen_at"
  shows "accepts Windows_model doc"
proof -
  obtain ds where ds: "window_documents rs = Some ds"
      and doc: "doc = JObj [(''windows'', JArr ds), (''retention_seconds'', JInt retention), (''observed_at'', JFloat (Fin seen_at))]"
    using assms(1) by (auto simp: windows_response_def)
  have "accepts (TList Window_model) (JArr ds)" by (rule list_law, rule window_documents_accepted [OF ds])
  with assms(2) show ?thesis unfolding doc Windows_model_def by (intro model_law) (simp add: scalar_laws)
qed

text \<open>The registrations, in the order of \<open>ROLES\<close>.\<close>

lemma registrations_accepted:
  assumes "map fst regs = ROLES" and "\<forall>(role, js) \<in> set regs. \<forall>j \<in> set js. written_registration instant role j"
  shows "accepts Registrations_model (JObj (map (\<lambda>(role, js). (role, JArr js)) regs))"
proof -
  obtain cs ns ws where regs: "regs = [(''coordinator'', cs), (''consumer'', ns), (''worker'', ws)]"
    using assms(1) by (auto simp: ROLES_def)
  have "accepts (TList (TModel Registration_fields)) (JArr cs)" "accepts (TList (TModel ConsumerRegistration_fields)) (JArr ns)"
    "accepts (TList (TModel WorkerRegistration_fields)) (JArr ws)"
    using assms(2) registration_accepted unfolding regs by (auto intro!: list_law)
  then show ?thesis unfolding regs Registrations_model_def by (intro model_law) simp
qed

lemma cluster_accepted:
  assumes "written_cluster instant ids s" and "in_years seen_at"
  shows "\<exists>doc. cluster_document seen_at s = Some doc \<and> accepts Cluster_model doc"
proof -
  obtain snap where snap: "snapshot_response (cl_snapshot s) = Some snap" "accepts (TOpt Snapshot_model) snap"
  proof (cases "cl_snapshot s")
    case None
    then show ?thesis using that [of JNull] by (simp add: snapshot_response_def scalar_laws)
  next
    case (Some kvs)
    with assms(1) obtain d v where "kvs = AList.update ''version'' (JInt v) d" "written_snapshot instant ids d"
      unfolding written_cluster_def by blast
    with Some snapshot_accepted [of ids d v] show ?thesis using that by (auto simp: opt_law)
  qed
  have leader: "accepts (TOpt Leader_model) (object_or_null (cl_leader s))"
    using assms(1) leader_accepted
    by (cases "cl_leader s") (auto simp: object_or_null_def written_cluster_def opt_law)
  have flink: "accepts (TOpt FlinkRecord_model) (object_or_null (cl_flink s))"
    using assms(1) record_accepted
    by (cases "cl_flink s") (auto simp: object_or_null_def written_cluster_def opt_law)
  have "accepts Registrations_model (JObj (map (\<lambda>(role, js). (role, JArr js)) (cl_registrations s)))"
    using assms(1) by (intro registrations_accepted) (simp_all add: written_cluster_def)
  with snap leader flink assms(2) show ?thesis
    unfolding cluster_document_def snap(1) Cluster_model_def option.map
    by - (intro exI conjI, rule refl, rule model_law, simp add: scalar_laws)
qed

end

section \<open>A strict reference validator\<close>

text \<open>It accepts what the documentation lists and nothing else.\<close>

definition instant_shape :: string where "instant_shape = ''0000-00-00T00:00:00''"

definition ref_instant :: "string \<Rightarrow> bool" where
  "ref_instant s \<longleftrightarrow>
     list_all2 (\<lambda>c p. if p = CHR ''0'' then is_digit c else c = p) (take 19 s) instant_shape
     \<and> drop (length s - 6) s = ''+00:00''"

function ref_accepts :: "field_type \<Rightarrow> json \<Rightarrow> bool" where
  "ref_accepts TInt j = (case j of JInt i \<Rightarrow> True | JStr s \<Rightarrow> py_int s \<noteq> None | _ \<Rightarrow> False)"
| "ref_accepts TStr j = (case j of JStr s \<Rightarrow> True | _ \<Rightarrow> False)"
| "ref_accepts TBool j = (case j of JBool b \<Rightarrow> True | _ \<Rightarrow> False)"
| "ref_accepts TFloat j = (case j of JFloat (Fin x) \<Rightarrow> True | JInt i \<Rightarrow> True | _ \<Rightarrow> False)"
| "ref_accepts TDatetime j =
     (case j of JStr s \<Rightarrow> ref_instant s | JFloat (Fin x) \<Rightarrow> in_years x | _ \<Rightarrow> False)"
| "ref_accepts (TLiteral w) j = (j = JStr w)"
| "ref_accepts (TOpt t) j = (j = JNull \<or> ref_accepts t j)"
| "ref_accepts (TList t) j = (case j of JArr js \<Rightarrow> list_all (ref_accepts t) js | _ \<Rightarrow> False)"
| "ref_accepts (TDict tk tv) j =
     (case j of JObj kvs \<Rightarrow> list_all (\<lambda>(k, v). ref_accepts tk (JStr k) \<and> ref_accepts tv v) kvs | _ \<Rightarrow> False)"
| "ref_accepts (TModel fs) j =
     (case j of
        JObj doc \<Rightarrow> list_all (\<lambda>(f, t, required). case map_of doc f of Some v \<Rightarrow> ref_accepts t v | None \<Rightarrow> \<not> required) fs
      | _ \<Rightarrow> False)"
  by pat_completeness auto
termination
proof (relation "measure (size \<circ> fst)")
  fix fs :: "(string \<times> field_type \<times> bool) list" and x :: "string \<times> field_type \<times> bool" and f q t r and v j
  assume "x \<in> set fs" "(f, q) = x" "(t, r) = q"
  then have "(f, t, r) \<in> set fs" by simp
  then have "size t < size (TModel fs)" by (induction fs) auto
  then show "((t, v), TModel fs, j) \<in> measure (size \<circ> fst)" by simp
qed auto

interpretation ref_models: pydantic ref_accepts ref_instant
  by unfold_locales (auto simp: list_all_iff)

text \<open>
  C34: what the other processes leave in the tree is what the API's models accept, so GET /cluster
  never ends in a server error: for a marker written by acknowledge_leadership, a snapshot of
  cluster init or of build_snapshot with the observation of the keeper, registrations of the three
  roles and a record of the keeper or of cluster init, each read with its znode version, the answer
  is a document that validates, or a 503 when the bulkhead refuses, the read raises one of the
  four exceptions that kazoo has for a connection or session that is gone and for a call without an
  answer in time, or time runs out. The hypothesis on the clocks is that instants lie in the years a
  datetime has.
\<close>

theorem api_accepts_what_is_written:
  assumes "pydantic accepts instant" and "in_years seen_at"
    and "case read_cluster zk zroot w1 w2 w3 w4 of
        Inr s \<Rightarrow> written_cluster instant ids s
      | Inl e \<Rightarrow> e \<in> ZkExn ` {ConnectionLoss, SessionExpiredError, ConnectionClosedError, KazooTimeoutError}"
    and "ad_fault ad \<in> {None, Some RaisedFailure, Some RaisedDeadline}"
  shows "case cluster_route accepts zk zroot ad seen_at w1 w2 w3 w4 of
      Answer doc \<Rightarrow> accepts Cluster_model doc
    | Status code detail \<Rightarrow> code = 503 \<and> detail \<in> {''zookeeper busy'', ''zookeeper unavailable''}
    | ServerError \<Rightarrow> False
    | response.Disconnected \<Rightarrow> False"
proof (cases "read_cluster zk zroot w1 w2 w3 w4")
  case (Inl e)
  with assms(3,4) show ?thesis
    by (auto simp: cluster_route_def run_read_def respond_def cluster_outcome_def ZOOKEEPER_FAILURES_def remaining_def Let_def)
next
  case (Inr s)
  with assms(3) have "written_cluster instant ids s" by simp
  then obtain doc where "cluster_document seen_at s = Some doc" "accepts Cluster_model doc"
    using pydantic.cluster_accepted [OF assms(1) _ assms(2)] by blast
  with Inr assms(4) show ?thesis
    by (auto simp: cluster_route_def run_read_def respond_def cluster_outcome_def remaining_def Let_def)
qed

definition ex_since :: string where "ex_since = ''2026-01-02T03:04:05+00:00''"

definition ex_seen :: observation where
  "ex_seen = \<lparr>obs_generation = Some 2, obs_status = ''healthy'', obs_at = Some ex_since, obs_note = None, obs_detail = None\<rparr>"

definition ex_inputs :: snapshot_inputs where
  "ex_inputs = \<lparr>si_summary = Some (5, [(''job-1'', 5)]), si_counts = Some [(''/home'', 4)], si_queue = None, si_at = 100,
     si_committed = Some 4, si_session = Some True, si_flink = observation_json (\<lambda>_. []) ex_seen\<rparr>"

definition ex_kept :: keeper_record where
  "ex_kept = \<lparr>generation = 2, epoch = Some 3, failures = 0, attempts = [(2, \<lparr>job_id = None, submitted_at = Some ex_since\<rparr>)]\<rparr>"

definition obj_fields :: "json \<Rightarrow> (string \<times> json) list" where
  "obj_fields j = (case j of JObj kvs \<Rightarrow> kvs | _ \<Rightarrow> [])"

definition ex_cluster :: cluster_state where
  "ex_cluster = \<lparr>
     cl_leader = Some (obj_fields (leader_payload ''c1'' 3 ex_since)),
     cl_snapshot = Some (AList.update ''version'' (JInt 7) (obj_fields (the (build_snapshot ex_inputs 3)))),
     cl_registrations = [(''coordinator'', []), (''consumer'', []),
        (''worker'', [JObj (merge_fields [(''identity'', JStr ''w1''), (''since'', JStr ex_since)]
           (registration_extra ''worker'' [] (1/2) 4))])],
     cl_flink = Some (AList.update ''version'' (JInt 9) (obj_fields (to_json ex_kept)))\<rparr>"

lemma ex_cluster_written: "written_cluster ref_instant (\<lambda>_. []) ex_cluster"
proof -
  have inst: "ref_instant ex_since" by code_simp
  have "written_leader ref_instant (obj_fields (leader_payload ''c1'' 3 ex_since))"
    using inst unfolding written_leader_def by (auto simp: obj_fields_def leader_payload_def)
  moreover have "written_snapshot ref_instant (\<lambda>_. []) (obj_fields (the (build_snapshot ex_inputs 3)))"
    unfolding written_snapshot_def
    by (rule disjI2, rule exI [of _ ex_inputs], rule exI [of _ 3])
       (use inst in \<open>auto simp: build_snapshot_def ex_inputs_def obj_fields_def in_years_def ex_seen_def\<close>)
  moreover have "written_registration ref_instant ''worker'' (JObj (merge_fields
      [(''identity'', JStr ''w1''), (''since'', JStr ex_since)] (registration_extra ''worker'' [] (1/2) 4)))"
    using inst unfolding written_registration_def by blast
  moreover have "written_record ref_instant (obj_fields (to_json ex_kept))"
    unfolding written_record_def
    by (rule disjI2, rule exI [of _ ex_kept]) (use inst in \<open>simp add: to_json_def obj_fields_def ex_kept_def\<close>)
  ultimately show ?thesis unfolding written_cluster_def ex_cluster_def by (auto simp: ROLES_def simp del: registration_extra.simps)
qed

definition ex_tree :: tree_world where
  "ex_tree = \<lparr>wnodes = [
       leader_path ''/p'' \<mapsto> ex_node (leader_payload ''c1'' 3 ex_since) 0,
       snapshot_path ''/p'' \<mapsto> ex_node (the (build_snapshot ex_inputs 3)) 7,
       registry_path ''/p'' @ ''/coordinator'' \<mapsto> \<lparr>zdata = NoData, zversion = 0, zephemeral = False\<rparr>,
       registry_path ''/p'' @ ''/consumer'' \<mapsto> \<lparr>zdata = NoData, zversion = 0, zephemeral = False\<rparr>,
       registry_path ''/p'' @ ''/worker'' \<mapsto> \<lparr>zdata = NoData, zversion = 0, zephemeral = False\<rparr>,
       flink_path ''/p'' \<mapsto> ex_node (to_json ex_kept) 9],
     wconnected = True, wcounter = 0\<rparr>"

definition ex_read :: cluster_state where
  "ex_read = ex_cluster\<lparr>cl_registrations := [(''coordinator'', []), (''consumer'', []), (''worker'', [])]\<rparr>"

lemma ex_read_cluster: "read_cluster tree_client ''/p'' ex_tree ex_tree ex_tree ex_tree = Inr ex_read"
  by code_simp

lemma ex_read_written: "written_cluster ref_instant (\<lambda>_. []) ex_read"
  using ex_cluster_written unfolding written_cluster_def ex_read_def by (auto simp: ROLES_def)

definition ex_admission :: "cluster_state admitted" where
  "ex_admission = \<lparr>ad_connected = Some True, ad_gate = bh_zookeeper make_bulkheads, ad_budget = request_budget ''zookeeper'' 0,
     ad_finished = 1, ad_fault = None, ad_failing = False\<rparr>"

theorem api_accepts_what_is_written_witness:
  "\<exists>doc. cluster_route ref_accepts tree_client ''/p'' ex_admission 200 ex_tree ex_tree ex_tree ex_tree = Answer doc
     \<and> ref_accepts Cluster_model doc"
proof -
  let ?route = "cluster_route ref_accepts tree_client ''/p'' ex_admission 200 ex_tree ex_tree ex_tree ex_tree"
  have "in_years 200" by (simp add: in_years_def)
  moreover have "ad_fault ex_admission \<in> {None, Some RaisedFailure, Some RaisedDeadline}" by (simp add: ex_admission_def)
  moreover have "\<forall>code detail. ?route \<noteq> Status code detail"
    by (auto simp: cluster_route_def ex_admission_def make_bulkheads_def new_bulkhead_def ZOOKEEPER_LIMIT_def request_budget_def
        new_budget_def READ_DEADLINE_SECONDS_def remaining_def run_read_def respond_def ex_read_cluster cluster_outcome_def
        split: option.splits)
  ultimately show ?thesis
    using api_accepts_what_is_written [OF ref_models.pydantic_axioms, where seen_at = 200 and zk = tree_client
        and zroot = "''/p''" and ?w1.0 = ex_tree and ?w2.0 = ex_tree and ?w3.0 = ex_tree and ?w4.0 = ex_tree and ids = "\<lambda>_. []"
        and ad = ex_admission] ex_read_written
    by (auto simp: ex_read_cluster split: response.splits)
qed

end
