(* ===== verification/Config.thy ===== *)
theory Config
  imports Keeper_Loop Flink_Sql
begin

text \<open>
  \<open>config.py\<close>: every constant of the module as a function of the environment of the process. A
  conversion that raises, here \<open>None\<close>, is an import that fails, so a process that runs has all of
  them. Then the path of the Flink settings: from the environment of the coordinator, through the
  keeper and the submission, to the job inside the container.
\<close>

type_synonym environment = "(string \<times> string) list"

text \<open>\<open>os.environ.get(name, default)\<close>\<close>

definition getenv :: "environment \<Rightarrow> string \<Rightarrow> string \<Rightarrow> string" where
  "getenv env name dflt = (case map_of env name of None \<Rightarrow> dflt | Some v \<Rightarrow> v)"

section \<open>The constants, in the order of the module\<close>

definition KAFKA_SERVER :: "environment \<Rightarrow> string" where
  "KAFKA_SERVER env = getenv env ''KAFKA_SERVER'' ''localhost:9092''"

definition KAFKA_TOPIC :: "environment \<Rightarrow> string" where
  "KAFKA_TOPIC env = getenv env ''KAFKA_TOPIC'' ''pageviews''"

definition KAFKA_PARTITIONS :: "environment \<Rightarrow> int option" where
  "KAFKA_PARTITIONS env = py_int (getenv env ''KAFKA_PARTITIONS'' ''4'')"

definition CONSUMER_GROUP :: "environment \<Rightarrow> string" where
  "CONSUMER_GROUP env = getenv env ''CONSUMER_GROUP'' ''pipeline''"

definition PRODUCER_INTERVAL_SECONDS :: "environment \<Rightarrow> fl option" where
  "PRODUCER_INTERVAL_SECONDS env = py_float (getenv env ''PRODUCER_INTERVAL_SECONDS'' ''1'')"

definition COMMIT_EVERY :: "environment \<Rightarrow> int option" where
  "COMMIT_EVERY env = py_int (getenv env ''COMMIT_EVERY'' ''5'')"

text \<open>Unset or empty means no crash; the outer option is the conversion.\<close>

definition CONSUMER_CRASH_AFTER :: "environment \<Rightarrow> int option option" where
  "CONSUMER_CRASH_AFTER env =
     (case map_of env ''CONSUMER_CRASH_AFTER'' of
        None \<Rightarrow> Some None
      | Some raw \<Rightarrow> if raw = [] then Some None else map_option Some (py_int raw))"

definition REDIS_HOST :: "environment \<Rightarrow> string" where
  "REDIS_HOST env = getenv env ''REDIS_HOST'' ''localhost''"

definition REDIS_PORT :: "environment \<Rightarrow> int option" where
  "REDIS_PORT env = py_int (getenv env ''REDIS_PORT'' ''6379'')"

definition REDIS_KEY_PREFIX :: "environment \<Rightarrow> string" where
  "REDIS_KEY_PREFIX env = getenv env ''REDIS_KEY_PREFIX'' []"

definition CASSANDRA_HOSTS :: "environment \<Rightarrow> string list" where
  "CASSANDRA_HOSTS env =
     map strip (filter (\<lambda>host. strip host \<noteq> []) (split_on (CHR '','') (getenv env ''CASSANDRA_HOSTS'' ''localhost'')))"

definition CASSANDRA_PORT :: "environment \<Rightarrow> int option" where
  "CASSANDRA_PORT env = py_int (getenv env ''CASSANDRA_PORT'' ''9042'')"

definition CASSANDRA_KEYSPACE :: "environment \<Rightarrow> string" where
  "CASSANDRA_KEYSPACE env = getenv env ''CASSANDRA_KEYSPACE'' ''pipeline''"

definition CASSANDRA_LOCAL_DC :: "environment \<Rightarrow> string" where
  "CASSANDRA_LOCAL_DC env = getenv env ''CASSANDRA_LOCAL_DC'' ''datacenter1''"

definition RABBITMQ_HOST :: "environment \<Rightarrow> string" where
  "RABBITMQ_HOST env = getenv env ''RABBITMQ_HOST'' ''localhost''"

definition RABBITMQ_PORT :: "environment \<Rightarrow> int option" where
  "RABBITMQ_PORT env = py_int (getenv env ''RABBITMQ_PORT'' ''5672'')"

definition RABBITMQ_USER :: "environment \<Rightarrow> string" where
  "RABBITMQ_USER env = getenv env ''RABBITMQ_USER'' ''pipeline''"

definition RABBITMQ_PASSWORD :: "environment \<Rightarrow> string" where
  "RABBITMQ_PASSWORD env = getenv env ''RABBITMQ_PASSWORD'' ''pipeline''"

definition RABBITMQ_QUEUE :: "environment \<Rightarrow> string" where
  "RABBITMQ_QUEUE env = getenv env ''RABBITMQ_QUEUE'' ''analytics_jobs''"

definition WORKER_DELAY_SECONDS :: "environment \<Rightarrow> fl option" where
  "WORKER_DELAY_SECONDS env = py_float (getenv env ''WORKER_DELAY_SECONDS'' ''0.5'')"

definition WORKER_PREFETCH :: "environment \<Rightarrow> int option" where
  "WORKER_PREFETCH env = py_int (getenv env ''WORKER_PREFETCH'' ''1'')"

definition ZOOKEEPER_HOSTS :: "environment \<Rightarrow> string" where
  "ZOOKEEPER_HOSTS env = getenv env ''ZOOKEEPER_HOSTS'' ''localhost:2181''"

definition ZOOKEEPER_ROOT :: "environment \<Rightarrow> string" where
  "ZOOKEEPER_ROOT env = getenv env ''ZOOKEEPER_ROOT'' ''/pipeline''"

definition ZOOKEEPER_TIMEOUT_SECONDS :: "environment \<Rightarrow> fl option" where
  "ZOOKEEPER_TIMEOUT_SECONDS env = py_float (getenv env ''ZOOKEEPER_TIMEOUT_SECONDS'' ''10'')"

definition SNAPSHOT_INTERVAL_SECONDS :: "environment \<Rightarrow> fl option" where
  "SNAPSHOT_INTERVAL_SECONDS env = py_float (getenv env ''SNAPSHOT_INTERVAL_SECONDS'' ''2'')"

definition API_PORT :: "environment \<Rightarrow> int option" where
  "API_PORT env = py_int (getenv env ''API_PORT'' ''8000'')"

definition KAFKA_WINDOWS_TOPIC :: "environment \<Rightarrow> string" where
  "KAFKA_WINDOWS_TOPIC env = getenv env ''KAFKA_WINDOWS_TOPIC'' ''pageview_windows''"

definition FLINK_REST_URL :: "environment \<Rightarrow> string" where
  "FLINK_REST_URL env = getenv env ''FLINK_REST_URL'' ''http://localhost:8081''"

definition FLINK_JOB_BASE :: "environment \<Rightarrow> string" where
  "FLINK_JOB_BASE env = getenv env ''FLINK_JOB_BASE'' ''pageview-windows''"

definition FLINK_GROUP :: "environment \<Rightarrow> string" where
  "FLINK_GROUP env = getenv env ''FLINK_GROUP'' ''flink-pageview-windows''"

definition FLINK_WINDOW_SECONDS :: "environment \<Rightarrow> int option" where
  "FLINK_WINDOW_SECONDS env = py_int (getenv env ''FLINK_WINDOW_SECONDS'' ''10'')"

definition FLINK_CHECKPOINT_SECONDS :: "environment \<Rightarrow> int option" where
  "FLINK_CHECKPOINT_SECONDS env = py_int (getenv env ''FLINK_CHECKPOINT_SECONDS'' ''10'')"

definition FLINK_IDLE_TIMEOUT_SECONDS :: "environment \<Rightarrow> int option" where
  "FLINK_IDLE_TIMEOUT_SECONDS env = py_int (getenv env ''FLINK_IDLE_TIMEOUT_SECONDS'' ''10'')"

definition FLINK_KEEPER_INTERVAL_SECONDS :: "environment \<Rightarrow> fl option" where
  "FLINK_KEEPER_INTERVAL_SECONDS env = py_float (getenv env ''FLINK_KEEPER_INTERVAL_SECONDS'' ''5'')"

definition WINDOWS_WRITER_GROUP :: "environment \<Rightarrow> string" where
  "WINDOWS_WRITER_GROUP env = getenv env ''WINDOWS_WRITER_GROUP'' ''windows-writer''"

definition WINDOW_RETENTION_SECONDS :: "environment \<Rightarrow> int option" where
  "WINDOW_RETENTION_SECONDS env = py_int (getenv env ''WINDOW_RETENTION_SECONDS'' ''3600'')"

text \<open>The import succeeds when every conversion does.\<close>

definition config_loads :: "environment \<Rightarrow> bool" where
  "config_loads env \<longleftrightarrow>
     KAFKA_PARTITIONS env \<noteq> None
     \<and> PRODUCER_INTERVAL_SECONDS env \<noteq> None
     \<and> COMMIT_EVERY env \<noteq> None
     \<and> CONSUMER_CRASH_AFTER env \<noteq> None
     \<and> REDIS_PORT env \<noteq> None
     \<and> CASSANDRA_PORT env \<noteq> None
     \<and> RABBITMQ_PORT env \<noteq> None
     \<and> WORKER_DELAY_SECONDS env \<noteq> None
     \<and> WORKER_PREFETCH env \<noteq> None
     \<and> ZOOKEEPER_TIMEOUT_SECONDS env \<noteq> None
     \<and> SNAPSHOT_INTERVAL_SECONDS env \<noteq> None
     \<and> API_PORT env \<noteq> None
     \<and> FLINK_WINDOW_SECONDS env \<noteq> None
     \<and> FLINK_CHECKPOINT_SECONDS env \<noteq> None
     \<and> FLINK_IDLE_TIMEOUT_SECONDS env \<noteq> None
     \<and> FLINK_KEEPER_INTERVAL_SECONDS env \<noteq> None
     \<and> WINDOW_RETENTION_SECONDS env \<noteq> None"

section \<open>Hosts\<close>

lemma split_on_append:
  "d \<notin> set xs \<Longrightarrow> split_on d (xs @ d # ys) = xs # split_on d ys"
  by (induction xs) auto

lemma split_on_none: "d \<notin> set xs \<Longrightarrow> split_on d xs = [xs]"
  by (induction xs) auto

lemma dropWhile_all: "list_all p xs \<Longrightarrow> dropWhile p (xs @ ys) = dropWhile p ys"
  by (induction xs) auto

lemma strip_padded:
  assumes "list_all is_blank l" and "list_all is_blank r" and "h \<noteq> []" and "\<not> is_blank (hd h)" and "\<not> is_blank (last h)"
  shows "strip (l @ h @ r) = h"
proof -
  have "dropWhile is_blank (h @ r) = h @ r" using assms(3,4) by (cases h) auto
  moreover have "dropWhile is_blank (rev h) = rev h" using assms(3,5) by (cases h rule: rev_cases) auto
  moreover have "list_all is_blank (rev r)" using assms(2) by simp
  ultimately show ?thesis using assms(1) by (simp add: strip_def dropWhile_all)
qed

text \<open>A host as it may be written: blanks, the name, blanks.\<close>

fun padded :: "string \<times> string \<times> string \<Rightarrow> string" where
  "padded (l, h, r) = l @ h @ r"

fun comma_joined :: "string list \<Rightarrow> string" where
  "comma_joined [] = []"
| "comma_joined [s] = s"
| "comma_joined (s # ss) = s @ CHR '','' # comma_joined ss"

definition plain_host :: "string \<Rightarrow> bool" where
  "plain_host h \<longleftrightarrow> h \<noteq> [] \<and> \<not> is_blank (hd h) \<and> \<not> is_blank (last h) \<and> CHR '','' \<notin> set h"

fun host_entry :: "string \<times> string \<times> string \<Rightarrow> bool" where
  "host_entry (l, h, r) \<longleftrightarrow> list_all is_blank l \<and> list_all is_blank r \<and> (h = [] \<or> plain_host h)"

lemma comma_not_blank: "\<not> is_blank (CHR '','')"
  by (simp add: is_blank_def)

lemma blank_not_comma: "list_all is_blank l \<Longrightarrow> CHR '','' \<notin> set l"
  using comma_not_blank unfolding list_all_iff by blast

lemma entry_no_comma: "host_entry e \<Longrightarrow> CHR '','' \<notin> set (padded e)"
  by (cases e) (auto simp: plain_host_def dest: blank_not_comma)

lemma entry_strip: "host_entry (l, h, r) \<Longrightarrow> strip (padded (l, h, r)) = h"
proof (cases "h = []")
  case True
  assume "host_entry (l, h, r)"
  with True have "list_all is_blank (l @ r)" by simp
  with True show ?thesis by (simp add: strip_def list_all_iff dropWhile_eq_Nil_conv [THEN iffD2])
next
  case False
  assume "host_entry (l, h, r)"
  with False show ?thesis by (simp add: strip_padded plain_host_def)
qed

lemma split_joined:
  "entries \<noteq> [] \<Longrightarrow> \<forall>e \<in> set entries. host_entry e \<Longrightarrow>
     split_on (CHR '','') (comma_joined (map padded entries)) = map padded entries"
proof (induction entries)
  case (Cons e es)
  then show ?case using entry_no_comma [of e]
    by (cases es) (simp_all add: split_on_none split_on_append)
qed simp

lemma filter_strip_entries:
  "\<forall>e \<in> set entries. host_entry e \<Longrightarrow>
     map strip (filter (\<lambda>host. strip host \<noteq> []) (map padded entries)) = filter (\<lambda>h. h \<noteq> []) (map (fst \<circ> snd) entries)"
proof (induction entries)
  case (Cons e es)
  obtain l h r where e: "e = (l, h, r)" by (cases e)
  with Cons entry_strip [of l h r] show ?case by (simp add: e del: padded.simps host_entry.simps)
qed simp

section \<open>The Flink settings\<close>

text \<open>What the keeper submits with, once the module is imported.\<close>

definition keeper_settings :: "environment \<Rightarrow> keeper_config option" where
  "keeper_settings env =
     (case (FLINK_WINDOW_SECONDS env, FLINK_CHECKPOINT_SECONDS env, FLINK_IDLE_TIMEOUT_SECONDS env) of
        (Some w, Some c, Some i) \<Rightarrow> Some
          \<lparr>cfg_source = KAFKA_TOPIC env, cfg_sink = KAFKA_WINDOWS_TOPIC env, cfg_group = FLINK_GROUP env,
           cfg_base = FLINK_JOB_BASE env, cfg_window = w, cfg_checkpoint = c, cfg_idle = i\<rparr>
      | _ \<Rightarrow> None)"

lemma keeper_settings_Some:
  "keeper_settings env = Some c \<longleftrightarrow>
     FLINK_WINDOW_SECONDS env = Some (cfg_window c) \<and> FLINK_CHECKPOINT_SECONDS env = Some (cfg_checkpoint c)
     \<and> FLINK_IDLE_TIMEOUT_SECONDS env = Some (cfg_idle c)
     \<and> cfg_source c = KAFKA_TOPIC env \<and> cfg_sink c = KAFKA_WINDOWS_TOPIC env \<and> cfg_group c = FLINK_GROUP env
     \<and> cfg_base c = FLINK_JOB_BASE env"
  by (cases c) (auto simp: keeper_settings_def split: option.splits)

lemma config_loads_keeper: "config_loads env \<Longrightarrow> \<exists>c. keeper_settings env = Some c"
  by (auto simp: config_loads_def keeper_settings_def)

lemma digit_name_char: "is_digit c \<Longrightarrow> name_char c"
  by (simp add: name_char_def)

lemma job_name_matches:
  assumes "list_all name_char base" and "length (job_name base g) \<le> 200" and "0 \<le> g"
  shows "NAME_match (job_name base g)"
proof -
  have "list_all name_char (show_nat (nat g))"
    using show_nat_digits [of "nat g"] by (auto simp: list_all_iff digit_name_char)
  moreover have "list_all name_char ''-g''" by (simp add: name_char_def is_ascii_letter_def)
  ultimately have all: "list_all name_char (job_name base g)"
    using assms(1,3) by (simp add: job_name_def show_int_def)
  have ne: "job_name base g \<noteq> []" by (simp add: job_name_def)
  with all newline_not_name have "last (job_name base g) \<noteq> CHR 0x0A"
    by (cases "job_name base g" rule: rev_cases) auto
  then have "before_end (job_name base g) = job_name base g" by (simp add: before_end_def)
  with all assms(2) ne show ?thesis by (simp add: NAME_match_def Suc_le_eq)
qed

lemma default_bootstrap: "BOOTSTRAP_match (bootstrap default_settings)"
  by code_simp

section \<open>Properties\<close>

text \<open>
  The host list survives how it is written: whatever blanks surround the names and the commas,
  and whatever entries are empty, the setting gives exactly the names, in order.
\<close>

theorem cassandra_hosts_roundtrip:
  assumes "entries \<noteq> []" and "\<forall>e \<in> set entries. host_entry e"
    and "map_of env ''CASSANDRA_HOSTS'' = Some (comma_joined (map padded entries))"
  shows "CASSANDRA_HOSTS env = filter (\<lambda>h. h \<noteq> []) (map (fst \<circ> snd) entries)"
  unfolding CASSANDRA_HOSTS_def getenv_def assms(3) option.case split_joined [OF assms(1,2)]
  by (rule filter_strip_entries [OF assms(2)])

theorem cassandra_hosts_roundtrip_witness:
  "CASSANDRA_HOSTS [(''CASSANDRA_HOSTS'', ''host1, host2,'')] = [''host1'', ''host2'']"
  using cassandra_hosts_roundtrip [of "[([], ''host1'', []), ('' '', ''host2'', []), ([], [], [])]"
      "[(''CASSANDRA_HOSTS'', ''host1, host2,'')]"]
  by (simp add: plain_host_def is_blank_def)

text \<open>
  C35: a generation runs with what the coordinator's environment says, given what docker documents of
  \<open>exec -e\<close>: when the module imports, the
  names are safe, the periods positive and the generation not negative, the keeper has settings to
  submit, the job reads back exactly those settings inside the container and configures and submits
  itself with them, they name the configured topics, group and periods, and the job's name gives
  back its generation.
\<close>

theorem configured_job_runs_as_configured:
  assumes "docker_exec exec_env" and "config_loads env"
    and "NAME_match (KAFKA_TOPIC env)" and "NAME_match (KAFKA_WINDOWS_TOPIC env)" and "NAME_match (FLINK_GROUP env)"
    and "list_all name_char (FLINK_JOB_BASE env)" and "length (job_name (FLINK_JOB_BASE env) g) \<le> 200"
    and "1 \<le> the (FLINK_WINDOW_SECONDS env)" and "1 \<le> the (FLINK_CHECKPOINT_SECONDS env)"
    and "0 \<le> the (FLINK_IDLE_TIMEOUT_SECONDS env)" and "0 \<le> g"
  shows "\<exists>c s. keeper_settings env = Some c \<and> job_settings c g = Inr s
    \<and> from_environment (exec_env (drop 4 (submit_command s))) = Inr s
    \<and> flink_job_main (exec_env (drop 4 (submit_command s))) (\<lambda>_. True) = Inr (driver_calls s)
    \<and> source_topic s = KAFKA_TOPIC env \<and> sink_topic s = KAFKA_WINDOWS_TOPIC env \<and> group s = FLINK_GROUP env
    \<and> FLINK_WINDOW_SECONDS env = Some (window_seconds s) \<and> FLINK_CHECKPOINT_SECONDS env = Some (checkpoint_seconds s)
    \<and> FLINK_IDLE_TIMEOUT_SECONDS env = Some (idle_timeout_seconds s)
    \<and> generation_number s = g \<and> generation_of (FLINK_JOB_BASE env) (job_name_of s) = Some g"
proof -
  obtain c where kc: "keeper_settings env = Some c" using config_loads_keeper [OF assms(2)] by blast
  define s where "s = default_settings\<lparr>source_topic := cfg_source c, sink_topic := cfg_sink c, group := cfg_group c,
        job_name_of := job_name (cfg_base c) g, window_seconds := cfg_window c,
        checkpoint_seconds := cfg_checkpoint c, idle_timeout_seconds := cfg_idle c, generation_number := g\<rparr>"
  note c = kc [unfolded keeper_settings_Some]
  have "watermark_delay_seconds s = 2" by (simp add: s_def default_settings_def)
  then have "post_init s = None"
    unfolding post_init_None_iff using c assms(2-) job_name_matches [OF assms(6,7,11)] default_bootstrap
    by (simp add: s_def)
  then have ok: "make_settings s = Inr s" by (simp add: make_settings_def)
  then have "job_settings c g = Inr s" by (simp add: job_settings_def s_def)
  moreover note docker_exec.environment_carries_settings [OF assms(1) ok]
  ultimately show ?thesis using kc c assms(11) generation_of_job_name [of g]
    by (intro exI [of _ c] exI [of _ s]) (simp add: s_def flink_job_main_def until_raise_all list_all_iff)
qed

theorem configured_job_runs_as_configured_witness:
  "\<exists>c s. keeper_settings [] = Some c \<and> job_settings c 1 = Inr s
     \<and> from_environment (exec_environment (drop 4 (submit_command s))) = Inr s
     \<and> generation_of (FLINK_JOB_BASE []) (job_name_of s) = Some 1"
proof -
  have loads: "config_loads []" by code_simp
  have names: "NAME_match (KAFKA_TOPIC [])" "NAME_match (KAFKA_WINDOWS_TOPIC [])" "NAME_match (FLINK_GROUP [])"
    "list_all name_char (FLINK_JOB_BASE [])" "length (job_name (FLINK_JOB_BASE []) 1) \<le> 200" by code_simp+
  have numbers: "FLINK_WINDOW_SECONDS [] = Some 10" "FLINK_CHECKPOINT_SECONDS [] = Some 10" "FLINK_IDLE_TIMEOUT_SECONDS [] = Some 10"
    by code_simp+
  with configured_job_runs_as_configured [OF ref_exec.docker_exec_axioms loads names] show ?thesis by auto
qed

end
