(* ===== verification/Live_Config.thy ===== *)
theory Live_Config
  imports Coordination
begin

text \<open>
  Settings that change while a worker runs: \<open>runtime_config.py\<close>, the validation \<open>cluster.py\<close>
  shares with it, and \<open>coordination.ConfigWatcher\<close>, which keeps the settings in step with a znode
  through one-shot watches. The watcher is modelled as the interleaving of its thread, kazoo's
  callbacks, anyone who writes the znode, and the connection.
\<close>

section \<open>Settings\<close>

definition MIN_WORKER_DELAY :: rat where "MIN_WORKER_DELAY = 0"
definition MAX_WORKER_DELAY :: rat where "MAX_WORKER_DELAY = 60"

text \<open>\<open>validate_worker_delay\<close>; no value compares with one that is not a number.\<close>

definition validate_worker_delay :: "string \<Rightarrow> rat option" where
  "validate_worker_delay raw =
     (case py_float raw of
        Some (Fin value) \<Rightarrow> if MIN_WORKER_DELAY \<le> value \<and> value \<le> MAX_WORKER_DELAY then Some value else None
      | _ \<Rightarrow> None)"

record runtime_config =
  worker_delay :: rat
  config_version :: int

definition new_runtime_config :: "rat \<Rightarrow> runtime_config" where
  "new_runtime_config delay = \<lparr>worker_delay = delay, config_version = - 1\<rparr>"

definition apply_setting :: "string \<Rightarrow> int \<Rightarrow> runtime_config \<Rightarrow> bool \<times> runtime_config" where
  "apply_setting raw version c =
     (case validate_worker_delay raw of
        None \<Rightarrow> (False, c)
      | Some value \<Rightarrow> (True, c\<lparr>worker_delay := value, config_version := version\<rparr>))"

section \<open>The watcher\<close>

datatype watch_thread = WatchWaiting | WatchWoken | WatchReturned

text \<open>
  The znode, whether it has a watch of ours and whether that watch's event is on its way; the
  watcher's events and settings. \<open>cw_read\<close> and \<open>cw_failed\<close> say what the last read found.
\<close>

record config_watch =
  cw_node :: "(string \<times> int) option"
  cw_connected :: bool
  cw_watch :: bool
  cw_event :: bool
  cw_wake :: bool
  cw_stop :: bool
  cw_applied :: bool
  cw_thread :: watch_thread
  cw_settings :: runtime_config
  cw_read :: "(string \<times> int) option"
  cw_failed :: bool

definition watcher_start :: "rat \<Rightarrow> (string \<times> int) option \<Rightarrow> config_watch" where
  "watcher_start delay node =
     \<lparr>cw_node = node, cw_connected = True, cw_watch = False, cw_event = False, cw_wake = True, cw_stop = False,
      cw_applied = False, cw_thread = WatchWaiting, cw_settings = new_runtime_config delay, cw_read = None, cw_failed = False\<rparr>"

definition watcher_stop :: "config_watch \<Rightarrow> config_watch" where
  "watcher_stop s = s\<lparr>cw_stop := True, cw_wake := True\<rparr>"

definition watch_notify :: "config_watch \<Rightarrow> config_watch" where
  "watch_notify s = s\<lparr>cw_event := False, cw_wake := True\<rparr>"

definition watcher_connected :: "config_watch \<Rightarrow> config_watch" where
  "watcher_connected s = s\<lparr>cw_connected := True, cw_wake := True\<rparr>"

text \<open>\<open>_read_once\<close> with what \<open>get\<close> gives; it reads and sets the watch in one step of the service.\<close>

definition read_once :: "bool \<Rightarrow> config_watch \<Rightarrow> config_watch" where
  "read_once answers s =
     (case (answers, cw_node s) of
        (True, Some (value, version)) \<Rightarrow>
          (let r = apply_setting value version (cw_settings s) in
           s\<lparr>cw_watch := True, cw_read := Some (value, version), cw_failed := False,
             cw_settings := snd r, cw_applied := cw_applied s \<or> fst r, cw_thread := WatchWaiting\<rparr>)
      | _ \<Rightarrow> s\<lparr>cw_failed := True, cw_thread := WatchWaiting\<rparr>)"

definition watcher_wakes :: "config_watch \<Rightarrow> config_watch" where
  "watcher_wakes s = s\<lparr>cw_wake := False, cw_thread := (if cw_stop s then WatchReturned else WatchWoken)\<rparr>"

text \<open>Anyone writes the znode: one watch, one event. A lost session takes watches and events with it.\<close>

definition node_written :: "string \<Rightarrow> config_watch \<Rightarrow> config_watch" where
  "node_written value s =
     s\<lparr>cw_node := Some (value, case cw_node s of None \<Rightarrow> 0 | Some (_, v) \<Rightarrow> v + 1),
       cw_watch := False, cw_event := cw_event s \<or> cw_watch s\<rparr>"

definition session_gone :: "config_watch \<Rightarrow> config_watch" where
  "session_gone s = s\<lparr>cw_connected := False, cw_watch := False, cw_event := False\<rparr>"

inductive watch_step :: "config_watch \<Rightarrow> config_watch \<Rightarrow> bool" where
  stopping: "watch_step s (watcher_stop s)"
| notified: "cw_event s \<Longrightarrow> watch_step s (watch_notify s)"
| written: "watch_step s (node_written value s)"
| gone: "watch_step s (session_gone s)"
| reconnected: "\<not> cw_connected s \<Longrightarrow> watch_step s (watcher_connected s)"
| wakes: "cw_thread s = WatchWaiting \<Longrightarrow> watch_step s (watcher_wakes s)"
| reads: "cw_thread s = WatchWoken \<Longrightarrow> (answers \<longrightarrow> cw_connected s) \<Longrightarrow> watch_step s (read_once answers s)"

inductive watch_run :: "config_watch \<Rightarrow> config_watch \<Rightarrow> bool" where
  refl: "watch_run s s"
| step: "watch_run s t \<Longrightarrow> watch_step t u \<Longrightarrow> watch_run s u"

section \<open>The invariant\<close>

lemma validate_bounds:
  "validate_worker_delay raw = Some d \<Longrightarrow> MIN_WORKER_DELAY \<le> d \<and> d \<le> MAX_WORKER_DELAY"
  by (auto simp: validate_worker_delay_def split: option.splits fl.splits if_splits)

text \<open>
  A watch is there only for the node as it was read. Without one, something will wake the thread:
  an event, the flag, the connection coming back, or the bounded wait after a failed read.
\<close>

definition settings_follow :: "(string \<times> int) option \<Rightarrow> runtime_config \<Rightarrow> bool" where
  "settings_follow got c \<longleftrightarrow>
     (\<forall>value version d. got = Some (value, version) \<longrightarrow> validate_worker_delay value = Some d \<longrightarrow>
        c = \<lparr>worker_delay = d, config_version = version\<rparr>)"

definition settings_ok :: "rat \<Rightarrow> bool \<Rightarrow> runtime_config \<Rightarrow> bool" where
  "settings_ok delay applied c \<longleftrightarrow>
     (if applied then MIN_WORKER_DELAY \<le> worker_delay c \<and> worker_delay c \<le> MAX_WORKER_DELAY
      else c = new_runtime_config delay)"

definition watch_ok :: "rat \<Rightarrow> config_watch \<Rightarrow> bool" where
  "watch_ok delay s \<longleftrightarrow>
     (cw_watch s \<longrightarrow> cw_node s \<noteq> None \<and> cw_read s = cw_node s)
   \<and> (cw_thread s = WatchWaiting \<longrightarrow> cw_watch s \<or> cw_event s \<or> cw_wake s \<or> cw_failed s \<or> \<not> cw_connected s)
   \<and> settings_follow (cw_read s) (cw_settings s)
   \<and> settings_ok delay (cw_applied s) (cw_settings s)"

lemma apply_setting_ok:
  assumes "settings_ok delay applied c"
  shows "settings_follow (Some (value, version)) (snd (apply_setting value version c))
    \<and> settings_ok delay (applied \<or> fst (apply_setting value version c)) (snd (apply_setting value version c))"
proof (cases "validate_worker_delay value")
  case None
  with assms show ?thesis by (simp add: apply_setting_def settings_follow_def)
next
  case (Some d)
  with validate_bounds [OF Some] show ?thesis by (simp add: apply_setting_def settings_follow_def settings_ok_def)
qed

lemma read_once_ok: "watch_ok delay s \<Longrightarrow> watch_ok delay (read_once answers s)"
  using apply_setting_ok [of delay "cw_applied s" "cw_settings s"]
  by (auto simp: read_once_def watch_ok_def Let_def split: option.split bool.split)

lemma watch_ok_step: "watch_step s t \<Longrightarrow> watch_ok delay s \<Longrightarrow> watch_ok delay t"
proof (induction rule: watch_step.induct)
  case (reads s answers)
  then show ?case by (simp add: read_once_ok)
qed (auto simp: watch_ok_def watcher_stop_def watch_notify_def node_written_def session_gone_def
    watcher_connected_def watcher_wakes_def)

lemma watch_ok_run: "watch_run s t \<Longrightarrow> watch_ok delay s \<Longrightarrow> watch_ok delay t"
  by (induction rule: watch_run.induct) (auto intro: watch_ok_step)

section \<open>Properties\<close>

text \<open>
  C20: No change is lost: when the watcher rests, connected, with nothing on its way and its last
  read not failed, the settings reflect the znode as it is now; a valid value is in force with its
  version, an invalid one was read and refused.
\<close>

theorem watched_settings_are_current:
  assumes "watch_run (watcher_start delay node) s"
    and "cw_thread s = WatchWaiting" and "cw_connected s" and "\<not> cw_failed s" and "\<not> cw_wake s" and "\<not> cw_event s"
  shows "\<exists>value version. cw_node s = Some (value, version)
    \<and> (case validate_worker_delay value of
         Some d \<Rightarrow> cw_settings s = \<lparr>worker_delay = d, config_version = version\<rparr>
       | None \<Rightarrow> cw_read s = Some (value, version))"
proof -
  have "watch_ok delay (watcher_start delay node)"
    by (simp add: watch_ok_def watcher_start_def settings_follow_def settings_ok_def)
  from watch_ok_run [OF assms(1) this] assms(2-)
  obtain raw version where "cw_node s = Some (raw, version)" "cw_read s = Some (raw, version)"
    "settings_follow (cw_read s) (cw_settings s)" by (auto simp: watch_ok_def)
  then show ?thesis by (intro exI [of _ raw] exI [of _ version]) (auto simp: settings_follow_def split: option.split)
qed

text \<open>
  A worker starts on a published value only: until one was accepted the settings are the
  startup ones and nothing counts as applied; afterwards the delay is always within the bounds,
  whatever is written to the znode.
\<close>

theorem applied_settings_are_valid:
  assumes "watch_run (watcher_start delay node) s"
  shows "if cw_applied s then MIN_WORKER_DELAY \<le> worker_delay (cw_settings s) \<and> worker_delay (cw_settings s) \<le> MAX_WORKER_DELAY
    else cw_settings s = new_runtime_config delay"
proof -
  have "watch_ok delay (watcher_start delay node)"
    by (simp add: watch_ok_def watcher_start_def settings_follow_def settings_ok_def)
  from watch_ok_run [OF assms this] show ?thesis by (simp add: watch_ok_def settings_ok_def)
qed

section \<open>Witnesses\<close>

definition ex_watch :: config_watch where
  "ex_watch = read_once True (watcher_wakes (watcher_start 1 (Some (''2.5'', 4))))"

lemma ex_watch_run: "watch_run (watcher_start 1 (Some (''2.5'', 4))) ex_watch"
  unfolding ex_watch_def
  by (rule watch_run.step [OF watch_run.step [OF watch_run.refl watch_step.wakes] watch_step.reads])
    (simp_all add: watcher_start_def watcher_wakes_def)

lemma ex_delay: "validate_worker_delay ''2.5'' = Some (5 / 2)"
  by code_simp

theorem watched_settings_are_current_witness:
  "cw_settings ex_watch = \<lparr>worker_delay = 5 / 2, config_version = 4\<rparr>"
proof -
  have s: "cw_thread ex_watch = WatchWaiting" "cw_connected ex_watch" "\<not> cw_failed ex_watch" "\<not> cw_wake ex_watch"
    "\<not> cw_event ex_watch" "cw_node ex_watch = Some (''2.5'', 4)"
    by (simp_all add: ex_watch_def watcher_start_def watcher_wakes_def read_once_def Let_def)
  from watched_settings_are_current [OF ex_watch_run s(1-5)] s(6) ex_delay show ?thesis by auto
qed

theorem applied_settings_are_valid_witness:
  "cw_applied ex_watch \<and> worker_delay (cw_settings ex_watch) \<le> 60"
proof -
  have "cw_applied ex_watch"
    by (simp add: ex_watch_def watcher_start_def watcher_wakes_def read_once_def Let_def apply_setting_def ex_delay)
  with applied_settings_are_valid [OF ex_watch_run] show ?thesis by (simp add: MAX_WORKER_DELAY_def)
qed

end
