(* ===== verification/Views.thy ===== *)
theory Views
  imports Keeper_Loop Stores Live_Config
begin

text \<open>
  The commands an operator runs beside the pipeline: \<open>flink_jobs.py\<close>, \<open>cluster.py\<close>, \<open>counters.py\<close>,
  \<open>jobs.py\<close>, \<open>events.py\<close> and \<open>schema.py\<close>. What a command prints is a list of lines, each with the values it shows.
\<close>

section \<open>The keeper's job\<close>

text \<open>\<open>describe\<close>: what Flink says of one job, or why it cannot.\<close>

datatype described = NotThere | Unavailable flink_error | InState string | RunningJob json "json option"

definition describe :: "'w flink_services \<Rightarrow> string \<Rightarrow> 'w \<Rightarrow> (flink_error + described) \<times> 'w" where
  "describe api i w =
     (case job_state api i w of
        (Inl e, w1) \<Rightarrow>
          if e = NotFound then (Inr NotThere, w1)
          else if is_flink_error e then (Inr (Unavailable e), w1) else (Inl e, w1)
      | (Inr st, w1) \<Rightarrow>
          if st \<noteq> ''RUNNING'' then (Inr (InState st), w1)
          else (case completed_checkpoints api i w1 of
              (Inl e, w2) \<Rightarrow> if is_flink_error e \<or> e = MissingKey then (Inr (InState st), w2) else (Inl e, w2)
            | (Inr n, w2) \<Rightarrow>
                (case restored_checkpoint api i w2 of
                   (Inl e, w3) \<Rightarrow> if is_flink_error e \<or> e = MissingKey then (Inr (InState st), w3) else (Inl e, w3)
                 | (Inr r, w3) \<Rightarrow> (Inr (RunningJob n (if r = Some JNull then None else r)), w3))))"

datatype job_line =
    Unreadable coord_error
  | RecordLine int int "int option" int
  | NoAttempts
  | Owed int string bool
  | Known int string bool string
  | Described described
  | Unrecorded string string string
  | ListingUnavailable flink_error
  | Dashboard

text \<open>The attempts in order of their generations; an exception leaves what was printed.\<close>

fun attempt_lines :: "'w flink_services \<Rightarrow> string \<Rightarrow> int \<Rightarrow> (int \<times> attempt) list \<Rightarrow> 'w
    \<Rightarrow> job_line list \<times> flink_error option \<times> 'w" where
  "attempt_lines api base current [] w = ([], None, w)"
| "attempt_lines api base current ((g, a) # rest) w =
     (case job_id a of
        None \<Rightarrow>
          (case attempt_lines api base current rest w of
             (ls, e, w1) \<Rightarrow> (Owed g (job_name base g) (g = current) # ls, e, w1))
      | Some i \<Rightarrow>
          (case describe api i w of
             (Inl e, w1) \<Rightarrow> ([Known g (job_name base g) (g = current) i], Some e, w1)
           | (Inr d, w1) \<Rightarrow>
               (case attempt_lines api base current rest w1 of
                  (ls, e, w2) \<Rightarrow> (Known g (job_name base g) (g = current) i # Described d # ls, e, w2))))"

definition unrecorded_lines :: "string \<Rightarrow> keeper_record \<Rightarrow> job_row list \<Rightarrow> job_line list" where
  "unrecorded_lines base r rows =
     map (\<lambda>row. Unrecorded (row_name row) (row_id row) (row_state row))
       (filter (\<lambda>row. generation_of base (row_name row) \<noteq> None
            \<and> Some (row_id row) \<notin> set (map (job_id \<circ> snd) (attempts r))) rows)"

text \<open>
  \<open>status\<close>, on what reading the record gave: the lines, whether it returned (with its exit code)
  or an exception escaped, and the service after it.
\<close>

datatype finish = Exit int | EscapedFlink flink_error | EscapedValueError

definition flink_status :: "'w flink_services \<Rightarrow> string \<Rightarrow> coord_error + json \<times> int \<Rightarrow> 'w
    \<Rightarrow> job_line list \<times> finish \<times> 'w" where
  "flink_status api base found w =
     (case found of
        Inl e \<Rightarrow> ([Unreadable e], Exit 1, w)
      | Inr (raw, version) \<Rightarrow>
          (case parse_record raw of
             None \<Rightarrow> ([], EscapedValueError, w)
           | Some r \<Rightarrow>
               (let header = RecordLine version (generation r) (epoch r) (failures r)
                      # (if attempts r = [] then [NoAttempts] else []) in
                case attempt_lines api base (generation r) (sort_key fst (attempts r)) w of
                  (ls, Some e, w1) \<Rightarrow> (header @ ls, EscapedFlink e, w1)
                | (ls, None, w1) \<Rightarrow>
                    (case jobs_overview api w1 of
                       (Inr rows, w2) \<Rightarrow> (header @ ls @ unrecorded_lines base r rows @ [Dashboard], Exit 0, w2)
                     | (Inl e, w2) \<Rightarrow>
                         if is_flink_error e then (header @ ls @ [ListingUnavailable e, Dashboard], Exit 0, w2)
                         else (header @ ls, EscapedFlink e, w2)))))"

text \<open>\<open>main\<close>: a Flink error that escaped is printed and makes the exit code 1.\<close>

datatype flink_command = StatusCommand | CancelCommand string

definition flink_jobs_main :: "'w flink_services \<Rightarrow> string \<Rightarrow> coord_error + json \<times> int \<Rightarrow> flink_command \<Rightarrow> 'w
    \<Rightarrow> finish \<times> 'w" where
  "flink_jobs_main api base found command w =
     (let caught = (\<lambda>f. case f of EscapedFlink e \<Rightarrow> if is_flink_error e then Exit 1 else f | _ \<Rightarrow> f) in
      case command of
        StatusCommand \<Rightarrow> (case flink_status api base found w of (_, f, w1) \<Rightarrow> (caught f, w1))
      | CancelCommand i \<Rightarrow>
          (case cancel_job api i w of
             (Inl e, w1) \<Rightarrow> (caught (EscapedFlink e), w1)
           | (Inr _, w1) \<Rightarrow> (Exit 0, w1)))"

section \<open>The coordination tree\<close>

text \<open>\<open>validate_worker_delay\<close> of the float that \<open>argparse\<close> made of the argument.\<close>

definition validate_delay_argument :: "fl \<Rightarrow> rat option" where
  "validate_delay_argument x =
     (case x of
        Fin v \<Rightarrow> if MIN_WORKER_DELAY \<le> v \<and> v \<le> MAX_WORKER_DELAY then Some v else None
      | _ \<Rightarrow> None)"

datatype cluster_command = InitCommand | SetConfigCommand fl | ShowCommand

datatype cluster_finish = ClusterExit int | InvalidSetting | ClusterRaised coord_error | ClusterOther

text \<open>\<open>main\<close>, its \<open>status\<close> apart: the command's effect on the service and how it ends.\<close>

definition cluster_main :: "'w kazoo \<Rightarrow> string \<Rightarrow> rat \<Rightarrow> cluster_command \<Rightarrow> ('w \<Rightarrow> cluster_finish) \<Rightarrow> 'w
    \<Rightarrow> cluster_finish \<times> 'w" where
  "cluster_main zk zroot delay command show w =
     (case command of
        InitCommand \<Rightarrow>
          (case initialise zk zroot delay w of
             (Inl e, w1) \<Rightarrow> (ClusterRaised e, w1)
           | (Inr _, w1) \<Rightarrow> (ClusterExit 0, w1))
      | SetConfigCommand x \<Rightarrow>
          (case validate_delay_argument x of
             None \<Rightarrow> (InvalidSetting, w)
           | Some v \<Rightarrow>
               (case zset zk w (worker_delay_path zroot) (Doc (JFloat (Fin v))) None of
                  (Inl e, w1) \<Rightarrow> (ClusterRaised (ZkExn e), w1)
                | (Inr _, w1) \<Rightarrow> (ClusterExit 0, w1)))
      | ShowCommand \<Rightarrow> (show w, w))"

section \<open>Counters and jobs\<close>

datatype counters_line = NoCounters | CounterLine string int | TotalLine int | TrackedLine nat | PrefixLine string

definition counters_main :: "string \<Rightarrow> (string \<times> int) list \<Rightarrow> (string \<times> string) list \<Rightarrow> counters_line list" where
  "counters_main prefix counts pages =
     (if counts = [] then [NoCounters]
      else map (\<lambda>(p, n). CounterLine p n) (sort_key fst counts)
        @ [TotalLine (sum_list (map snd counts)), TrackedLine (length pages)]
        @ (if prefix \<noteq> [] then [PrefixLine prefix] else []))"

datatype jobs_line =
    QueueUnavailable | WaitingLine "int option" | WorkersLine "int option" | CompletedLine int | DistinctLine nat
  | RepeatedLine nat | RepeatLine string int

definition repeated_runs :: "(string \<times> int) list \<Rightarrow> (string \<times> int) list" where
  "repeated_runs runs = filter (\<lambda>(i, n). 1 < n) runs"

definition jobs_main :: "int \<times> (string \<times> int) list \<Rightarrow> (int \<times> int) option \<Rightarrow> jobs_line list" where
  "jobs_main summary queue =
     (if queue = None then [QueueUnavailable] else [])
     @ [WaitingLine (map_option fst queue), WorkersLine (map_option snd queue),
        CompletedLine (fst summary), DistinctLine (length (snd summary))]
     @ (if repeated_runs (snd summary) = [] then []
        else RepeatedLine (length (repeated_runs (snd summary)))
          # map (\<lambda>(i, n). RepeatLine i n) (take 10 (sort_key fst (repeated_runs (snd summary)))))"

section \<open>Stored events\<close>

datatype 'r events_line = NoEvents string | EventLine 'r | EventsLine nat string | RowsLine int

text \<open>\<open>events.main\<close>, on the user's history and the row count the table would answer.\<close>

definition events_main :: "string option \<Rightarrow> (string \<Rightarrow> 'r list) \<Rightarrow> int \<Rightarrow> 'r events_line list" where
  "events_main user history rows =
     (case user of
        Some (c # u) \<Rightarrow>
          (if history (c # u) = [] then [NoEvents (c # u)]
           else map EventLine (history (c # u)) @ [EventsLine (length (history (c # u))) (c # u)])
      | _ \<Rightarrow> [RowsLine rows])"

section \<open>The schema\<close>

text \<open>\<open>schema.main\<close>: the calls on the session, and whether the validation let them through.\<close>

definition schema_main :: "string \<Rightarrow> string \<Rightarrow> schema_call list \<times> bool" where
  "schema_main keyspace statements =
     (case apply_schema keyspace statements of None \<Rightarrow> ([], False) | Some calls \<Rightarrow> (calls, True))"

section \<open>What the status shows\<close>

fun attempt_shown :: "job_line \<Rightarrow> (int \<times> bool \<times> string option) option" where
  "attempt_shown (Owed g name current) = Some (g, current, None)"
| "attempt_shown (Known g name current i) = Some (g, current, Some i)"
| "attempt_shown _ = None"

lemma attempt_lines_shown:
  "attempt_lines api base current ats w = (ls, None, w') \<Longrightarrow>
     List.map_filter attempt_shown ls = map (\<lambda>(g, a). (g, g = current, job_id a)) ats"
proof (induction ats arbitrary: w ls w')
  case (Cons x ats)
  obtain g a where x: "x = (g, a)" by (cases x)
  show ?case
  proof (cases "job_id a")
    case None
    with Cons.prems x obtain ls1 where "attempt_lines api base current ats w = (ls1, None, w')"
        "ls = Owed g (job_name base g) (g = current) # ls1" by (auto split: prod.splits)
    with Cons.IH None x show ?thesis by (simp add: map_filter_simps)
  next
    case (Some i)
    with Cons.prems x obtain ls1 d w1 where "describe api i w = (Inr d, w1)" "attempt_lines api base current ats w1 = (ls1, None, w')"
        "ls = Known g (job_name base g) (g = current) i # Described d # ls1" by (auto split: prod.splits sum.splits)
    with Cons.IH Some x show ?thesis by (simp add: map_filter_simps)
  qed
qed (simp add: map_filter_simps)

lemma unrecorded_not_attempt: "List.map_filter attempt_shown (unrecorded_lines base r rows) = []"
  by (induction rows) (auto simp: unrecorded_lines_def map_filter_simps)

lemma unrecorded_complete:
  assumes "row \<in> set rows" and "generation_of base (row_name row) \<noteq> None" and "\<forall>(g, a) \<in> set (attempts r). job_id a \<noteq> Some (row_id row)"
  shows "Unrecorded (row_name row) (row_id row) (row_state row) \<in> set (unrecorded_lines base r rows)"
  using assms by (force simp: unrecorded_lines_def)

text \<open>
  C40: the status hides nothing the keeper or Flink know: when it ends normally it lists every
  attempt of the record once, in the order of the generations, with its job id and whether it is the
  current one; and, unless it says the listing is unavailable, every job Flink lists under a name of
  the keeper is the job of an attempt or is reported as unrecorded.
\<close>

theorem status_accounts_for_every_job:
  assumes "parse_record raw = Some r" and "flink_status api base (Inr (raw, version)) w = (ls, Exit 0, w')"
  shows "List.map_filter attempt_shown ls = map (\<lambda>(g, a). (g, g = generation r, job_id a)) (sort_key fst (attempts r))
    \<and> ((\<exists>e. ListingUnavailable e \<in> set ls)
       \<or> (\<exists>rows w1. jobs_overview api w1 = (Inr rows, w')
            \<and> (\<forall>row \<in> set rows. generation_of base (row_name row) \<noteq> None \<longrightarrow>
                 (\<exists>(g, a) \<in> set (attempts r). job_id a = Some (row_id row))
                 \<or> Unrecorded (row_name row) (row_id row) (row_state row) \<in> set ls)))"
proof -
  let ?header = "RecordLine version (generation r) (epoch r) (failures r) # (if attempts r = [] then [NoAttempts] else [])"
  have header: "List.map_filter attempt_shown ?header = []" by (simp add: map_filter_simps)
  obtain as e w1 where al: "attempt_lines api base (generation r) (sort_key fst (attempts r)) w = (as, e, w1)"
    by (cases "attempt_lines api base (generation r) (sort_key fst (attempts r)) w")
  with assms have none: "e = None" by (auto simp: flink_status_def Let_def split: option.splits)
  note shown = attempt_lines_shown [OF al [unfolded none]]
  obtain q w2 where jo: "jobs_overview api w1 = (q, w2)" by (cases "jobs_overview api w1")
  show ?thesis
  proof (cases q)
    case (Inl err)
    with assms al none jo have "ls = ?header @ as @ [ListingUnavailable err, Dashboard]"
      by (auto simp: flink_status_def Let_def split: if_splits)
    with shown header show ?thesis by (simp add: map_filter_append map_filter_simps) blast
  next
    case (Inr rows)
    with assms al none jo have ls: "ls = ?header @ as @ unrecorded_lines base r rows @ [Dashboard]" and w': "w' = w2"
      by (simp_all add: flink_status_def Let_def)
    have "List.map_filter attempt_shown ls = map (\<lambda>(g, a). (g, g = generation r, job_id a)) (sort_key fst (attempts r))"
      unfolding ls map_filter_append header unrecorded_not_attempt shown by (simp add: map_filter_simps)
    moreover have "(\<exists>(g, a) \<in> set (attempts r). job_id a = Some (row_id row))
        \<or> Unrecorded (row_name row) (row_id row) (row_state row) \<in> set ls"
      if "row \<in> set rows" "generation_of base (row_name row) \<noteq> None" for row
      using unrecorded_complete [OF that, of r] unfolding ls by fastforce
    ultimately show ?thesis using jo Inr w' by blast
  qed
qed

section \<open>What is published is applied\<close>

text \<open>
  C39: a published delay is one every worker takes: when set-config ends normally, the value was
  within the bounds, the znode holds it and nothing else changed; a watcher that reads the text of
  that value then runs with it, under the znode's version. A value out of bounds, infinite or not a
  number is refused before anything is written. The hypothesis on the text is that Python prints this
  float so that it reads back.
\<close>

theorem published_delay_is_applied:
  assumes "zookeeper zk tree live" and "live w"
    and "cluster_main zk zroot delay (SetConfigCommand x) show w = (f, w')"
    and "\<forall>v. x = Fin v \<longrightarrow> py_float (repr v) = Some (Fin v)"
  shows "case f of
      ClusterExit c \<Rightarrow> c = 0 \<and> (\<exists>v n. x = Fin v \<and> 0 \<le> v \<and> v \<le> 60 \<and> tree w (worker_delay_path zroot) = Some n
          \<and> tree w' = (tree w)(worker_delay_path zroot \<mapsto> n\<lparr>zdata := Doc (JFloat (Fin v)), zversion := zversion n + 1\<rparr>)
          \<and> (\<forall>s version. cw_node s = Some (repr v, version)
               \<longrightarrow> cw_settings (read_once True s) = \<lparr>worker_delay = v, config_version = version\<rparr> \<and> cw_applied (read_once True s)))
    | InvalidSetting \<Rightarrow> w' = w \<and> (\<nexists>v. x = Fin v \<and> 0 \<le> v \<and> v \<le> 60)
    | ClusterRaised e \<Rightarrow> tree w' = tree w"
proof (cases "validate_delay_argument x")
  case None
  with assms(3) show ?thesis
    by (auto simp: cluster_main_def validate_delay_argument_def MIN_WORKER_DELAY_def MAX_WORKER_DELAY_def split: fl.splits if_splits)
next
  case (Some v)
  then have v: "x = Fin v" "0 \<le> v" "v \<le> 60"
    by (auto simp: validate_delay_argument_def MIN_WORKER_DELAY_def MAX_WORKER_DELAY_def split: fl.splits if_splits)
  have taken: "cw_settings (read_once True s) = \<lparr>worker_delay = v, config_version = version\<rparr> \<and> cw_applied (read_once True s)"
    if "cw_node s = Some (repr v, version)" for s version
    using that v assms(4)
    by (cases "cw_settings s") (simp add: read_once_def apply_setting_def validate_worker_delay_def MIN_WORKER_DELAY_def MAX_WORKER_DELAY_def)
  obtain q w1 where z: "zset zk w (worker_delay_path zroot) (Doc (JFloat (Fin v))) None = (q, w1)"
    by (cases "zset zk w (worker_delay_path zroot) (Doc (JFloat (Fin v))) None")
  from zookeeper.set_law [OF assms(1,2) z] assms(3) Some z v taken show ?thesis
    by (auto simp: cluster_main_def split: option.splits sum.splits prod.splits if_splits)
qed

section \<open>What the jobs view shows\<close>

text \<open>
  Every recorded event has run at least once, so the completions exceed the distinct events by
  exactly the repetitions, and the view lists repeated events if and only if there are any.
\<close>

lemma sum_runs:
  assumes "\<forall>(i, n) \<in> set runs. 1 \<le> (n::int)"
  shows "sum_list (map snd runs) = int (length runs) + sum_list (map (\<lambda>(i, n). n - 1) (repeated_runs runs))"
  using assms by (induction runs) (auto simp: repeated_runs_def)

lemma repeated_runs_iff:
  assumes "\<forall>(i, n) \<in> set runs. 1 \<le> (n::int)"
  shows "repeated_runs runs = [] \<longleftrightarrow> sum_list (map snd runs) = int (length runs)"
proof
  assume "sum_list (map snd runs) = int (length runs)"
  with sum_runs [OF assms] have zero: "sum_list (map (\<lambda>(i, n). n - 1) (repeated_runs runs)) = 0" by simp
  show "repeated_runs runs = []"
  proof (rule ccontr)
    assume "repeated_runs runs \<noteq> []"
    then obtain x xs where x: "repeated_runs runs = x # xs" by (cases "repeated_runs runs") auto
    have "\<forall>y \<in> set (repeated_runs runs). 1 < snd y" by (auto simp: repeated_runs_def)
    with x have "0 < snd x - 1" "0 \<le> sum_list (map (\<lambda>(i, n). n - 1) xs)" by (force intro!: sum_list_nonneg)+
    with zero x show False by (simp add: case_prod_unfold)
  qed
qed (use sum_runs [OF assms] in simp)

section \<open>Witnesses\<close>

definition ex_services :: "unit flink_services" where
  "ex_services = \<lparr>
     fetch = (\<lambda>w path m.
       (if path = ''/jobs/overview'' then Body (JObj [(''jobs'', JArr
          [JObj [(''jid'', JStr ''a''), (''name'', JStr ''w-g2''), (''state'', JStr ''RUNNING'')],
           JObj [(''jid'', JStr ''b''), (''name'', JStr ''w-g1''), (''state'', JStr ''RUNNING'')]])])
        else if path = ''/jobs/a'' then Body (JObj [(''state'', JStr ''RUNNING'')])
        else HttpError 500, w)),
     popen = (\<lambda>w c. (CannotRun, w))\<rparr>"

definition ex_recorded :: keeper_record where
  "ex_recorded = \<lparr>generation = 2, epoch = Some 1, failures = 0, attempts = [(2, \<lparr>job_id = Some ''a'', submitted_at = None\<rparr>)]\<rparr>"

definition ex_status :: "job_line list" where
  "ex_status = [RecordLine 7 2 (Some 1) 0, Known 2 ''w-g2'' True ''a'', Described (InState ''RUNNING''),
     Unrecorded ''w-g1'' ''b'' ''RUNNING'', Dashboard]"

theorem status_accounts_for_every_job_witness:
  "flink_status ex_services ''w'' (Inr (to_json ex_recorded, 7)) () = (ex_status, Exit 0, ())
   \<and> List.map_filter attempt_shown ex_status = [(2, True, Some ''a'')]"
proof -
  have p: "parse_record (to_json ex_recorded) = Some ex_recorded" by code_simp
  have s: "flink_status ex_services ''w'' (Inr (to_json ex_recorded, 7)) () = (ex_status, Exit 0, ())" by code_simp
  from status_accounts_for_every_job [OF p s] s show ?thesis by (simp add: ex_recorded_def)
qed

definition ex_delay_world :: tree_world where
  "ex_delay_world = \<lparr>wnodes = [worker_delay_path ''/p'' \<mapsto> ex_node (JFloat (Fin 1)) 3], wconnected = True, wcounter = 0\<rparr>"

theorem published_delay_is_applied_witness:
  "\<exists>w'. cluster_main tree_client ''/p'' 1 (SetConfigCommand (Fin (5/2))) (\<lambda>_. ClusterExit 0) ex_delay_world = (ClusterExit 0, w')
     \<and> (\<exists>n. wnodes w' (worker_delay_path ''/p'') = Some n \<and> zversion n = 4)"
proof -
  let ?run = "cluster_main tree_client ''/p'' 1 (SetConfigCommand (Fin (5/2))) (\<lambda>_. ClusterExit 0) ex_delay_world"
  have "fst ?run = ClusterExit 0" by code_simp
  then obtain w' where run: "?run = (ClusterExit 0, w')" by (cases ?run) simp
  have printed: "\<forall>v. Fin (5/2) = Fin v \<longrightarrow> py_float ''2.5'' = Some (Fin v)"
    using ex_delay by (auto simp: validate_worker_delay_def split: option.splits fl.splits if_splits)
  have "wconnected ex_delay_world" "wnodes ex_delay_world (worker_delay_path ''/p'') = Some (ex_node (JFloat (Fin 1)) 3)"
    by (simp_all add: ex_delay_world_def)
  with published_delay_is_applied [OF ref_tree.zookeeper_axioms _ run, where repr = "\<lambda>_. ''2.5''"] printed run
  show ?thesis by (auto simp: ex_node_def)
qed

end
