(* ===== verification/Clients.thy ===== *)
theory Clients
  imports Topics
begin

text \<open>
  Opening a client of each service: \<open>redis_store.connect\<close>, \<open>cassandra_store.connect\<close>,
  \<open>coordination.connect\<close>, and \<open>connect\<close>, \<open>open_publisher\<close>, \<open>queue_state\<close> and \<open>close_quietly\<close> of
  \<open>jobs_queue.py\<close>, each retried by \<open>wait_for_connection\<close>. The libraries answer as inputs say; a
  client is the number of the attempt that made it. The locale \<open>clean_attempt\<close> is what the retries
  rely on: an attempt that fails leaves nothing open.
\<close>

section \<open>Attempts\<close>

datatype client_event = Opened nat | Stopped nat | Shut nat | Dropped nat

text \<open>
  Redis: the constructor connects to nothing, so the attempt is the PING. Its own errors and the
  system's close the client; anything else passes by the handler.
\<close>

datatype ping = Pong | RedisError | OSError | OtherError

definition open_client :: "(nat \<Rightarrow> ping) \<Rightarrow> nat \<Rightarrow> (ping + nat) \<times> client_event list" where
  "open_client pings i =
     (case pings i of
        Pong \<Rightarrow> (Inr i, [Opened i])
      | OtherError \<Rightarrow> (Inl OtherError, [Opened i])
      | e \<Rightarrow> (Inl e, [Opened i, Shut i]))"

definition open_session :: "(nat \<Rightarrow> bool) \<Rightarrow> nat \<Rightarrow> (unit + nat) \<times> client_event list" where
  "open_session connects i = (if connects i then (Inr i, [Opened i]) else (Inl (), [Opened i, Shut i]))"

definition start_kazoo :: "(nat \<Rightarrow> bool) \<Rightarrow> nat \<Rightarrow> (unit + nat) \<times> client_event list" where
  "start_kazoo starts i = (if starts i then (Inr i, [Opened i]) else (Inl (), [Opened i, Stopped i, Shut i]))"

text \<open>A connection to RabbitMQ that cannot be made is not there to be closed.\<close>

definition open_connection :: "(nat \<Rightarrow> bool) \<Rightarrow> nat \<Rightarrow> (unit + nat) \<times> client_event list" where
  "open_connection connects i = (if connects i then (Inr i, [Opened i]) else (Inl (), []))"

text \<open>What the attempts of \<open>wait_for_connection\<close> did, in its own recursion.\<close>

fun attempt_events :: "nat \<Rightarrow> nat \<Rightarrow> (nat \<Rightarrow> ('e + 'a) \<times> client_event list) \<Rightarrow> client_event list" where
  "attempt_events 0 i attempt = []"
| "attempt_events (Suc left) i attempt =
     snd (attempt i) @ (if isl (fst (attempt i)) then attempt_events left (Suc i) attempt else [])"

definition connect_with ::
    "string \<Rightarrow> (nat \<Rightarrow> ('e + 'a) \<times> client_event list) \<Rightarrow> nat \<Rightarrow> ('e start_error + 'a) \<times> client_event list" where
  "connect_with name attempt retries =
     (wait_for_connection name (fst \<circ> attempt) retries, attempt_events retries 1 attempt)"

definition redis_connect :: "(nat \<Rightarrow> ping) \<Rightarrow> nat \<Rightarrow> (ping start_error + nat) \<times> client_event list" where
  "redis_connect pings retries = connect_with ''Redis'' (open_client pings) retries"

definition cassandra_connect :: "(nat \<Rightarrow> bool) \<Rightarrow> nat \<Rightarrow> (unit start_error + nat) \<times> client_event list" where
  "cassandra_connect connects retries = connect_with ''Cassandra'' (open_session connects) retries"

definition zookeeper_connect :: "(nat \<Rightarrow> bool) \<Rightarrow> nat \<Rightarrow> (unit start_error + nat) \<times> client_event list" where
  "zookeeper_connect starts retries = connect_with ''ZooKeeper'' (start_kazoo starts) retries"

definition rabbit_connect :: "(nat \<Rightarrow> bool) \<Rightarrow> (unit start_error + nat) \<times> client_event list" where
  "rabbit_connect connects = connect_with ''RabbitMQ'' (open_connection connects) 10"

section \<open>RabbitMQ\<close>

text \<open>
  \<open>close_quietly\<close>: only a connection that is open is closed; the library's errors are swallowed, any
  other is raised. A connection the broker dropped is gone already.
\<close>

datatype close_answer = Closed | AmqpCloseError | OtherCloseError

definition close_quietly :: "nat \<Rightarrow> bool \<Rightarrow> close_answer \<Rightarrow> bool \<times> client_event list" where
  "close_quietly c is_open answer = (if is_open then (answer \<noteq> OtherCloseError, [Shut c]) else (True, [Dropped c]))"

datatype publisher_error = ConnectFailed "unit start_error" | StepFailed string | CloseRaised

text \<open>\<open>open_publisher\<close>: the three calls on the new connection; \<open>None\<close> is one that returned.\<close>

definition open_publisher ::
    "(nat \<Rightarrow> bool) \<Rightarrow> string option list \<Rightarrow> bool \<Rightarrow> close_answer \<Rightarrow> (publisher_error + nat) \<times> client_event list" where
  "open_publisher connects steps is_open answer =
     (case rabbit_connect connects of
        (Inl e, es) \<Rightarrow> (Inl (ConnectFailed e), es)
      | (Inr c, es) \<Rightarrow>
          (case find (\<lambda>s. s \<noteq> None) steps of
             None \<Rightarrow> (Inr c, es)
           | Some e \<Rightarrow>
               (case close_quietly c is_open answer of
                  (quiet, more_es) \<Rightarrow> (Inl (if quiet then StepFailed (the e) else CloseRaised), es @ more_es))))"

text \<open>\<open>queue_state\<close>: a passive declaration, and the connection closed whatever it answers.\<close>

definition queue_state ::
    "(nat \<Rightarrow> bool) \<Rightarrow> string + int \<times> int \<Rightarrow> bool \<Rightarrow> close_answer \<Rightarrow> (publisher_error + int \<times> int) \<times> client_event list" where
  "queue_state connects declared is_open answer =
     (case rabbit_connect connects of
        (Inl e, es) \<Rightarrow> (Inl (ConnectFailed e), es)
      | (Inr c, es) \<Rightarrow>
          (case close_quietly c is_open answer of
             (quiet, more_es) \<Rightarrow>
               (if \<not> quiet then Inl CloseRaised
                else case declared of Inl e \<Rightarrow> Inl (StepFailed e) | Inr d \<Rightarrow> Inr d, es @ more_es)))"

section \<open>What is left open\<close>

fun opened :: "client_event \<Rightarrow> nat option" where
  "opened (Opened c) = Some c"
| "opened _ = None"

definition still_open :: "client_event list \<Rightarrow> nat list" where
  "still_open es = filter (\<lambda>c. Shut c \<notin> set es \<and> Dropped c \<notin> set es) (List.map_filter opened es)"

definition touches :: "nat \<Rightarrow> client_event list \<Rightarrow> bool" where
  "touches i es \<longleftrightarrow> set es \<subseteq> {Opened i, Stopped i, Shut i, Dropped i}"

locale clean_attempt =
  fixes attempt :: "nat \<Rightarrow> ('e + nat) \<times> client_event list"
  assumes own: "touches i (snd (attempt i))"
    and failed_clean: "isl (fst (attempt j)) \<Longrightarrow> still_open (snd (attempt j)) = []"
    and made_open: "fst (attempt k) = Inr c \<Longrightarrow> c = k \<and> still_open (snd (attempt k)) = [k]"
begin

lemma later_attempts: "e \<in> set (attempt_events left i attempt) \<Longrightarrow> \<exists>j \<ge> i. e \<in> {Opened j, Stopped j, Shut j, Dropped j}"
proof (induction left arbitrary: i)
  case (Suc left)
  then consider "e \<in> set (snd (attempt i))" | "e \<in> set (attempt_events left (Suc i) attempt)" by (auto split: if_splits)
  then show ?case
  proof cases
    case 1
    with own [of i] show ?thesis unfolding touches_def by blast
  next
    case 2
    from Suc.IH [OF this] show ?thesis by (meson Suc_leD)
  qed
qed simp

lemma opened_touch: "touches i es \<Longrightarrow> c \<in> set (List.map_filter opened es) \<Longrightarrow> c = i"
  by (induction es) (auto simp: touches_def map_filter_simps split: option.splits elim!: opened.elims)

lemma opened_member: "c \<in> set (List.map_filter opened es) \<Longrightarrow> Opened c \<in> set es"
  by (induction es) (auto simp: map_filter_simps split: option.splits elim!: opened.elims)

text \<open>Events of later attempts are about other clients.\<close>

lemma still_open_append:
  assumes "touches i es" and "\<forall>e \<in> set fs. \<exists>j > i. e \<in> {Opened j, Stopped j, Shut j, Dropped j}"
  shows "still_open (es @ fs) = still_open es @ still_open fs"
proof -
  have "filter (\<lambda>c. Shut c \<notin> set (es @ fs) \<and> Dropped c \<notin> set (es @ fs)) (List.map_filter opened es) = still_open es"
    unfolding still_open_def
  proof (rule filter_cong [OF refl])
    fix c
    assume "c \<in> set (List.map_filter opened es)"
    with assms(1) have "c = i" by (rule opened_touch)
    with assms(2) show "(Shut c \<notin> set (es @ fs) \<and> Dropped c \<notin> set (es @ fs)) = (Shut c \<notin> set es \<and> Dropped c \<notin> set es)"
      by fastforce
  qed
  moreover have "filter (\<lambda>c. Shut c \<notin> set (es @ fs) \<and> Dropped c \<notin> set (es @ fs)) (List.map_filter opened fs) = still_open fs"
    unfolding still_open_def
  proof (rule filter_cong [OF refl])
    fix c
    assume "c \<in> set (List.map_filter opened fs)"
    then have "Opened c \<in> set fs" by (rule opened_member)
    with assms(2) have "i < c" by fastforce
    with assms(1) show "(Shut c \<notin> set (es @ fs) \<and> Dropped c \<notin> set (es @ fs)) = (Shut c \<notin> set fs \<and> Dropped c \<notin> set fs)"
      unfolding touches_def by fastforce
  qed
  ultimately show ?thesis by (simp add: still_open_def map_filter_append)
qed

lemma attempts_clean:
  "still_open (attempt_events left i attempt) =
     (case attempts_from left i name (fst \<circ> attempt) of Inr c \<Rightarrow> [c] | Inl e \<Rightarrow> [])"
proof (induction left arbitrary: i)
  case (Suc left)
  have later: "\<forall>e \<in> set (attempt_events left (Suc i) attempt). \<exists>j > i. e \<in> {Opened j, Stopped j, Shut j, Dropped j}"
    using later_attempts [of _ left "Suc i"] by (meson Suc_le_eq)
  show ?case
  proof (cases "fst (attempt i)")
    case (Inl e)
    with Suc.IH [of "Suc i"] still_open_append [OF own later] failed_clean [of i] show ?thesis
      by (cases left) (simp_all add: still_open_def map_filter_simps)
  next
    case (Inr c)
    with made_open [of i c] show ?thesis by simp
  qed
qed (simp add: still_open_def map_filter_simps)

lemma connect_leaks_nothing:
  "still_open (snd (connect_with name attempt retries)) =
     (case fst (connect_with name attempt retries) of Inr c \<Rightarrow> [c] | Inl e \<Rightarrow> [])"
  unfolding connect_with_def wait_for_connection_def fst_conv snd_conv by (rule attempts_clean)

end

lemmas attempt_simps = touches_def still_open_def map_filter_simps

interpretation cassandra_client: clean_attempt "open_session connects" for connects
  by unfold_locales (auto simp: open_session_def attempt_simps split: if_splits)

interpretation kazoo_client: clean_attempt "start_kazoo starts" for starts
  by unfold_locales (auto simp: start_kazoo_def attempt_simps split: if_splits)

interpretation rabbit_client: clean_attempt "open_connection connects" for connects
  by unfold_locales (auto simp: open_connection_def attempt_simps split: if_splits)

lemma redis_attempt_clean: "\<forall>i. pings i \<noteq> OtherError \<Longrightarrow> clean_attempt (open_client pings)"
  by unfold_locales (auto simp: open_client_def attempt_simps split: ping.splits)

lemma still_open_closed:
  "still_open (es @ [Shut c]) = filter (\<lambda>d. d \<noteq> c) (still_open es)"
  "still_open (es @ [Dropped c]) = filter (\<lambda>d. d \<noteq> c) (still_open es)"
  by (auto simp: still_open_def map_filter_append map_filter_simps intro: filter_cong)

lemma close_quietly_closes:
  "close_quietly c is_open answer = (quiet, fs) \<Longrightarrow> still_open es = [c] \<Longrightarrow> still_open (es @ fs) = []"
  by (auto simp: close_quietly_def still_open_closed split: if_splits)

lemma rabbit_connect_clean:
  "rabbit_connect connects = (r, es) \<Longrightarrow> still_open es = (case r of Inr c \<Rightarrow> [c] | Inl e \<Rightarrow> [])"
  using rabbit_client.connect_leaks_nothing [of "''RabbitMQ''" connects 10] by (simp add: rabbit_connect_def)

lemma rabbit_then_close:
  "rabbit_connect connects = (Inr c, es) \<Longrightarrow> close_quietly c is_open answer = (quiet, fs) \<Longrightarrow> still_open (es @ fs) = []"
  using rabbit_connect_clean [of connects "Inr c" es] close_quietly_closes by simp

section \<open>Properties\<close>

text \<open>
  C38: connecting leaks nothing: however many attempts a client of Redis, Cassandra, ZooKeeper or
  RabbitMQ takes, the client that is returned is the only one left open, and a connection that is
  given up leaves none; a publisher whose queue cannot be declared or confirmed is closed again, and
  looking at the queue never leaves a connection. For Redis the ping fails with the library's or the
  system's errors, which are the ones the code catches.
\<close>

theorem connecting_leaks_nothing:
  assumes "\<forall>i. pings i \<noteq> OtherError"
  shows "still_open (snd (redis_connect pings retries)) = (case fst (redis_connect pings retries) of Inr c \<Rightarrow> [c] | Inl _ \<Rightarrow> [])
    \<and> still_open (snd (cassandra_connect connects retries)) = (case fst (cassandra_connect connects retries) of Inr c \<Rightarrow> [c] | Inl _ \<Rightarrow> [])
    \<and> still_open (snd (zookeeper_connect connects retries)) = (case fst (zookeeper_connect connects retries) of Inr c \<Rightarrow> [c] | Inl _ \<Rightarrow> [])
    \<and> still_open (snd (open_publisher connects steps is_open answer))
        = (case fst (open_publisher connects steps is_open answer) of Inr c \<Rightarrow> [c] | Inl _ \<Rightarrow> [])
    \<and> still_open (snd (queue_state connects declared is_open answer)) = []"
proof (intro conjI)
  show "still_open (snd (redis_connect pings retries)) = (case fst (redis_connect pings retries) of Inr c \<Rightarrow> [c] | Inl _ \<Rightarrow> [])"
    unfolding redis_connect_def by (rule clean_attempt.connect_leaks_nothing [OF redis_attempt_clean [OF assms]])
  show "still_open (snd (cassandra_connect connects retries)) = (case fst (cassandra_connect connects retries) of Inr c \<Rightarrow> [c] | Inl _ \<Rightarrow> [])"
    unfolding cassandra_connect_def by (rule cassandra_client.connect_leaks_nothing)
  show "still_open (snd (zookeeper_connect connects retries)) = (case fst (zookeeper_connect connects retries) of Inr c \<Rightarrow> [c] | Inl _ \<Rightarrow> [])"
    unfolding zookeeper_connect_def by (rule kazoo_client.connect_leaks_nothing)
  show "still_open (snd (open_publisher connects steps is_open answer))
      = (case fst (open_publisher connects steps is_open answer) of Inr c \<Rightarrow> [c] | Inl _ \<Rightarrow> [])"
    by (auto simp: open_publisher_def dest: rabbit_connect_clean rabbit_then_close split: prod.splits sum.splits option.splits)
  show "still_open (snd (queue_state connects declared is_open answer)) = []"
    by (auto simp: queue_state_def dest: rabbit_connect_clean rabbit_then_close split: prod.splits sum.splits)
qed

theorem connecting_leaks_nothing_witness:
  "redis_connect (\<lambda>i. if i < 3 then OSError else Pong) 10 = (Inr 3, [Opened 1, Shut 1, Opened 2, Shut 2, Opened 3])
   \<and> still_open (snd (redis_connect (\<lambda>i. if i < 3 then OSError else Pong) 10)) = [3]"
proof -
  have run: "redis_connect (\<lambda>i. if i < 3 then OSError else Pong) 10 = (Inr 3, [Opened 1, Shut 1, Opened 2, Shut 2, Opened 3])"
    by code_simp
  have "\<forall>i::nat. (if i < 3 then OSError else Pong) \<noteq> OtherError" by simp
  from connecting_leaks_nothing [OF this, THEN conjunct1, of 10] run show ?thesis by simp
qed

text \<open>An error the handler of the ping does not name leaves the client of that attempt open.\<close>

lemma unnamed_error_leaks:
  "still_open (snd (redis_connect (\<lambda>i. if i < 2 then OtherError else Pong) 10)) = [1, 2]"
  by code_simp

end
