(* ===== verification/Cluster_View.thy ===== *)
theory Cluster_View
  imports Views Clients
begin

text \<open>
  The \<open>status\<close> of \<open>cluster.py\<close>: the coordination tree as a person sees it, with the printed lines as
  values, and that it shows what the coordinators wrote. The connections of the commands to
  ZooKeeper: made, used and closed again.
\<close>

section \<open>The status\<close>

datatype status_line =
    LeaderLine "json option"
  | EpochLine json
  | ContendersLine nat
  | RoleLine string nat
  | VersionsLine "int list"
  | DelayLine Zookeeper.zdata int
  | SnapshotLine int json

text \<open>
  How it ends: all shown, an exception of a call, a marker without a field, or registrations of
  a shape no process writes.
\<close>

datatype status_end = StatusShown | StatusRaised coord_error | StatusKeyError | StatusOther

text \<open>The versions of the entries that have one, as a set; each entry is a document of \<open>register\<close>.\<close>

fun version_of :: "json \<Rightarrow> int option option" where
  "version_of (JObj d) =
     (case map_of d ''config_version'' of None \<Rightarrow> Some None | Some (JInt v) \<Rightarrow> Some (Some v) | Some _ \<Rightarrow> None)"
| "version_of _ = None"

definition versions_of :: "json list \<Rightarrow> int list option" where
  "versions_of entries =
     map_option (\<lambda>vs. sorted_list_of_set (set (List.map_filter id vs))) (those (map version_of entries))"

fun role_lines :: "'w kazoo \<Rightarrow> string \<Rightarrow> string list \<Rightarrow> 'w \<Rightarrow> status_line list \<times> status_end option" where
  "role_lines zk zroot [] w = ([], None)"
| "role_lines zk zroot (role # rest) w =
     (case registrations zk zroot role w of
        Inl e \<Rightarrow> ([], Some (StatusRaised e))
      | Inr entries \<Rightarrow>
          (case versions_of entries of
             None \<Rightarrow> ([RoleLine role (length entries)], Some StatusOther)
           | Some vs \<Rightarrow>
               (case role_lines zk zroot rest w of
                  (ls, e) \<Rightarrow> (RoleLine role (length entries) # (if vs = [] then [] else [VersionsLine vs]) @ ls, e))))"

definition leader_lines :: "json option \<Rightarrow> status_line list \<times> status_end option" where
  "leader_lines leader =
     (case leader of
        None \<Rightarrow> ([LeaderLine None], None)
      | Some l \<Rightarrow>
          if \<not> json_truthy l then ([LeaderLine None], None)
          else (case jget l ''identity'' of
              None \<Rightarrow> ([], Some StatusKeyError)
            | Some i \<Rightarrow>
                (case jget l ''epoch'' of
                   None \<Rightarrow> ([LeaderLine (Some i)], Some StatusKeyError)
                 | Some ep \<Rightarrow> ([LeaderLine (Some i), EpochLine ep], None))))"

definition contenders :: "'w kazoo \<Rightarrow> string \<Rightarrow> 'w \<Rightarrow> zk_error + string list" where
  "contenders zk zroot w =
     (case zexists zk w (election_path zroot) of
        Inl e \<Rightarrow> Inl e
      | Inr False \<Rightarrow> Inr []
      | Inr True \<Rightarrow> zchildren zk w (election_path zroot))"

definition last_lines :: "'w kazoo \<Rightarrow> string \<Rightarrow> 'w \<Rightarrow> status_line list \<times> status_end" where
  "last_lines zk zroot w =
     (case zget zk w (worker_delay_path zroot) of
        Inl e \<Rightarrow> ([], StatusRaised (ZkExn e))
      | Inr (delay, version) \<Rightarrow>
          (case read_snapshot zk zroot w of
             Inl e \<Rightarrow> ([DelayLine delay version], StatusRaised e)
           | Inr (snapshot, sversion) \<Rightarrow> ([DelayLine delay version, SnapshotLine sversion snapshot], StatusShown)))"

definition show_status :: "'w kazoo \<Rightarrow> string \<Rightarrow> 'w \<Rightarrow> status_line list \<times> status_end" where
  "show_status zk zroot w =
     (case read_leader zk zroot w of
        Inl e \<Rightarrow> ([], StatusRaised e)
      | Inr leader \<Rightarrow>
          (case leader_lines leader of
             (ls, Some e) \<Rightarrow> (ls, e)
           | (ls, None) \<Rightarrow>
               (case contenders zk zroot w of
                  Inl e \<Rightarrow> (ls, StatusRaised (ZkExn e))
                | Inr cs \<Rightarrow>
                    (case role_lines zk zroot [''coordinator'', ''consumer'', ''worker''] w of
                       (rs, Some e) \<Rightarrow> (ls @ [ContendersLine (length cs)] @ rs, e)
                     | (rs, None) \<Rightarrow>
                         (case last_lines zk zroot w of
                            (end_lines, e) \<Rightarrow> (ls @ [ContendersLine (length cs)] @ rs @ end_lines, e))))))"

section \<open>What it shows\<close>

lemma leader_lines_first: "show_status zk zroot w = (lines, how) \<Longrightarrow> read_leader zk zroot w = Inr leader
    \<Longrightarrow> \<exists>rest. lines = fst (leader_lines leader) @ rest"
  by (auto simp: show_status_def split: prod.splits option.splits sum.splits)

text \<open>The marker a leader wrote is the leader and the epoch the status shows, whatever comes after.\<close>

lemma status_shows_new_leader:
  assumes "zookeeper zk tree live" and "live w" and "tree w (leader_path zroot) = None"
    and "has_parent (tree w) (leader_path zroot)" and "acknowledge_leadership zk zroot i ep since w = (r, w')" and "live w'"
    and "show_status zk zroot w' = (lines, how)"
  shows "\<exists>rest. lines = LeaderLine (Some (JStr i)) # EpochLine (JInt ep) # rest"
proof -
  have "tree w' (leader_path zroot) = Some \<lparr>zdata = Doc (leader_payload i ep since), zversion = 0, zephemeral = True\<rparr>"
    using zookeeper.acknowledge_outcome [OF assms(1,2,5)] assms(3,4) by simp
  then have "read_leader zk zroot w' = Inr (Some (leader_payload i ep since))"
    using zookeeper.get_law [OF assms(1,6)] by (simp add: read_leader_def)
  from leader_lines_first [OF assms(7) this] show ?thesis
    by (simp add: leader_lines_def leader_payload_def json_truthy_def)
qed

lemma version_of_Some: "version_of e = Some (Some v) \<longleftrightarrow> jget e ''config_version'' = Some (JInt v)"
  by (cases e) (auto split: option.splits json.splits)

lemma versions_of_member:
  assumes "versions_of entries = Some vs"
  shows "v \<in> set vs \<longleftrightarrow> (\<exists>e \<in> set entries. jget e ''config_version'' = Some (JInt v))"
proof -
  obtain xs where xs: "map version_of entries = map Some xs" "vs = sorted_list_of_set (set (List.map_filter id xs))"
    using assms by (auto simp: versions_of_def)
  have "v \<in> set vs \<longleftrightarrow> Some v \<in> set xs" by (force simp: xs(2) List.map_filter_def)
  also have "\<dots> \<longleftrightarrow> Some (Some v) \<in> set (map Some xs)" by auto
  also have "\<dots> \<longleftrightarrow> (\<exists>e \<in> set entries. version_of e = Some (Some v))" unfolding xs(1) [symmetric] by force
  finally show ?thesis by (simp add: version_of_Some)
qed

text \<open>Every version a process of a role has applied is shown, with the number of its processes.\<close>

lemma status_shows_versions:
  assumes "role_lines zk zroot roles w = (ls, None)" and "role \<in> set roles"
    and "registrations zk zroot role w = Inr entries"
  shows "RoleLine role (length entries) \<in> set ls
    \<and> (\<forall>e \<in> set entries. \<forall>v. jget e ''config_version'' = Some (JInt v) \<longrightarrow> (\<exists>vs. VersionsLine vs \<in> set ls \<and> v \<in> set vs))"
  using assms
proof (induction roles arbitrary: ls)
  case (Cons r roles)
  obtain es vs rest where es: "registrations zk zroot r w = Inr es" "versions_of es = Some vs"
    "role_lines zk zroot roles w = (rest, None)" "ls = RoleLine r (length es) # (if vs = [] then [] else [VersionsLine vs]) @ rest"
    using Cons.prems(1) by (auto split: sum.splits option.splits prod.splits)
  show ?case
  proof (cases "role = r")
    case True
    with es Cons.prems(3) versions_of_member [OF es(2)] show ?thesis by auto
  next
    case False
    with Cons.IH [OF es(3)] Cons.prems(2,3) es(4) show ?thesis by auto
  qed
qed simp

section \<open>The commands' connections\<close>

text \<open>
  Connect, work, and in the \<open>finally\<close> stop and close: the result of the work, or the error that gave
  the connection up, and what happened to the clients.
\<close>

definition with_zookeeper :: "(nat \<Rightarrow> bool) \<Rightarrow> nat \<Rightarrow> 'a \<Rightarrow> (unit start_error + 'a) \<times> client_event list" where
  "with_zookeeper starts retries result =
     (case zookeeper_connect starts retries of
        (Inl e, es) \<Rightarrow> (Inl e, es)
      | (Inr c, es) \<Rightarrow> (Inr result, es @ [Stopped c, Shut c]))"

definition read_record ::
    "(nat \<Rightarrow> bool) \<Rightarrow> 'w kazoo \<Rightarrow> string \<Rightarrow> 'w \<Rightarrow> (unit start_error + (coord_error + json \<times> int)) \<times> client_event list" where
  "read_record starts zk zroot w = with_zookeeper starts 3 (read_flink_record zk zroot w)"

definition status_finish :: "status_line list \<times> status_end \<Rightarrow> cluster_finish" where
  "status_finish r =
     (case snd r of
        StatusShown \<Rightarrow> ClusterExit 0
      | StatusRaised e \<Rightarrow> ClusterRaised e
      | _ \<Rightarrow> ClusterOther)"

definition run_cluster ::
    "(nat \<Rightarrow> bool) \<Rightarrow> 'w kazoo \<Rightarrow> string \<Rightarrow> rat \<Rightarrow> cluster_command \<Rightarrow> 'w
      \<Rightarrow> (unit start_error + cluster_finish \<times> 'w) \<times> client_event list" where
  "run_cluster starts zk zroot delay command w =
     with_zookeeper starts 10 (cluster_main zk zroot delay command (\<lambda>u. status_finish (show_status zk zroot u)) w)"

lemma commands_leak_nothing: "still_open (snd (with_zookeeper starts retries result)) = []"
proof -
  note clean = kazoo_client.connect_leaks_nothing [of "''ZooKeeper''" starts retries, folded zookeeper_connect_def]
  have "still_open (es @ [Stopped c, Shut c]) = filter (\<lambda>d. d \<noteq> c) (still_open es)" for es c
    using still_open_closed(1) [of "es @ [Stopped c]" c]
    by (simp add: still_open_def map_filter_append List.map_filter_simps)
  with clean show ?thesis by (auto simp: with_zookeeper_def split: prod.splits sum.splits)
qed

end
