(* ===== verification/Lifecycle.thy ===== *)
theory Lifecycle
  imports Pipeline_Prelude
begin

text \<open>
  Start-up and teardown: the \<open>main\<close> of the consumer, the worker, the coordinator, the windows
  writer and the API, each one \<open>ExitStack\<close> whose callbacks run in reverse, and the hand-over of the
  API's clients from \<open>main\<close> to the lifespan. What the calls do is the other theories' matter; here
  they succeed or raise, as the parameter \<open>ok\<close> says of each by name.
\<close>

section \<open>A block with an ExitStack\<close>

text \<open>
  The statements of such a block: a call whose result is registered for closing before anything
  else happens; a callback by itself; a listener; a call that holds nothing; a check that raises
  \<open>RuntimeError\<close> when it is false.
\<close>

datatype action =
    Open string "string list"
  | Callback string
  | Listen string
  | Call string
  | Barrier string

datatype life_event = Did string | Raised string | Worked | Released string

fun action_name :: "action \<Rightarrow> string" where
  "action_name (Open r _) = r"
| "action_name (Callback c) = c"
| "action_name (Listen l) = l"
| "action_name (Call f) = f"
| "action_name (Barrier b) = b"

text \<open>Registering a callback or a listener does not raise.\<close>

fun succeeds :: "(string \<Rightarrow> bool) \<Rightarrow> action \<Rightarrow> bool" where
  "succeeds ok (Callback _) = True"
| "succeeds ok (Listen _) = True"
| "succeeds ok a = ok (action_name a)"

fun callbacks_of :: "action \<Rightarrow> string list" where
  "callbacks_of (Open _ cbs) = cbs"
| "callbacks_of (Callback c) = [c]"
| "callbacks_of _ = []"

text \<open>The statements in order, and the stack they leave, its top first.\<close>

fun set_up :: "(string \<Rightarrow> bool) \<Rightarrow> action list \<Rightarrow> string list \<Rightarrow> life_event list \<times> string list \<times> bool" where
  "set_up ok [] st = ([], st, True)"
| "set_up ok (a # rest) st =
     (if succeeds ok a
      then (case set_up ok rest (rev (callbacks_of a) @ st) of (es, st', ready) \<Rightarrow> (Did (action_name a) # es, st', ready))
      else ([Raised (action_name a)], st, False))"

text \<open>Every callback runs, whatever the statements, the body or another callback raised.\<close>

definition with_exit_stack :: "(string \<Rightarrow> bool) \<Rightarrow> action list \<Rightarrow> life_event list" where
  "with_exit_stack ok block =
     (case set_up ok block [] of (es, st, ready) \<Rightarrow> es @ (if ready then [Worked] else []) @ map Released st)"

section \<open>The processes\<close>

definition consumer_main :: "action list" where
  "consumer_main =
     [Open ''connect_redis'' [''redis_client.close''],
      Open ''connect_redis(notifications)'' [''notify_client.close''],
      Open ''cassandra_store.connect'' [''cluster.shutdown''],
      Call ''prepare_insert'',
      Open ''jobs_queue.open_publisher'' [''publisher.close''],
      Open ''coordination.connect'' [''zk.close'', ''zk.stop''],
      Call ''wait_for_initialisation'',
      Listen ''add_listener(presence.on_state)'',
      Callback ''presence.stop'',
      Barrier ''presence.start'',
      Open ''connect'' [''consumer.close'']]"

definition worker_main :: "action list" where
  "worker_main =
     [Open ''redis_store.connect'' [''redis_client.close''],
      Open ''coordination.connect'' [''zk.close'', ''zk.stop''],
      Call ''wait_for_initialisation'',
      Listen ''add_listener(presence.on_state)'',
      Callback ''presence.stop'',
      Barrier ''presence.start'',
      Listen ''add_listener(watcher.on_state)'',
      Callback ''watcher.stop'',
      Barrier ''watcher.start'',
      Open ''jobs_queue.connect'' [''connection.close''],
      Call ''connection.channel'',
      Call ''jobs_queue.declare'',
      Call ''basic_qos'',
      Call ''basic_consume'']"

definition coordinator_main :: "action list" where
  "coordinator_main =
     [Open ''coordination.connect'' [''client.close'', ''client.stop''],
      Call ''wait_for_initialisation'',
      Open ''redis_store.connect'' [''redis_client.close''],
      Open ''cassandra_store.connect'' [''cassandra_cluster.shutdown''],
      Open ''OffsetReader'' [''offsets.close''],
      Listen ''add_listener(leadership.on_state)'',
      Listen ''add_listener(presence.on_state)'',
      Callback ''presence.stop'',
      Barrier ''presence.start'',
      Callback ''stop_running.set'',
      Open ''keeper.start'' [''keeper.stop'']]"

definition windows_writer_main :: "action list" where
  "windows_writer_main =
     [Open ''redis_store.connect'' [''client.close''],
      Open ''redis_store.connect(notifications)'' [''hint_client.close''],
      Open ''connect_consumer'' [''consumer.close'']]"

text \<open>\<open>wait_for_topic\<close> comes before the block in the consumer's and the writer's \<open>main\<close>.\<close>

definition main_after :: "string list \<Rightarrow> action list \<Rightarrow> (string \<Rightarrow> bool) \<Rightarrow> life_event list" where
  "main_after first block ok =
     (case find (\<lambda>f. \<not> ok f) first of
        Some f \<Rightarrow> map Did (takeWhile ok first) @ [Raised f]
      | None \<Rightarrow> map Did first @ with_exit_stack ok block)"

text \<open>
  The producer: a \<open>try\<close> around the work, whose \<open>finally\<close> flushes and then closes. A flush that raises
  passes the close by.
\<close>

definition producer_main :: "(string \<Rightarrow> bool) \<Rightarrow> life_event list" where
  "producer_main ok =
     (case find (\<lambda>f. \<not> ok f) [''wait_for_topic'', ''connect''] of
        Some f \<Rightarrow> map Did (takeWhile ok [''wait_for_topic'', ''connect'']) @ [Raised f]
      | None \<Rightarrow> [Did ''wait_for_topic'', Did ''connect'', Worked]
          @ (if ok ''producer.flush'' then [Did ''producer.flush'', Released ''producer.close''] else [Raised ''producer.flush'']))"

section \<open>The API\<close>

definition open_stores :: "action list" where
  "open_stores =
     [Open ''redis_store.connect'' [''redis_client.close''],
      Open ''cassandra_store.connect'' [''cluster.shutdown''],
      Open ''coordination.connect'' [''zookeeper.close'', ''zookeeper.stop'']]"

text \<open>\<open>pop_all\<close>: the callbacks move to a stack of their own, and none are left.\<close>

definition pop_all :: "'a list \<Rightarrow> 'a list \<times> 'a list" where
  "pop_all st = (st, [])"

text \<open>
  \<open>open_live\<close>: the subscription's client and the bridge's task; the subscription stops before its
  client closes.
\<close>

definition open_live :: "(string \<Rightarrow> bool) \<Rightarrow> life_event list" where
  "open_live ok =
     (if \<not> ok ''open_subscription_client'' then [Raised ''open_subscription_client'']
      else [Did ''open_subscription_client'', Worked, Released ''task.cancel'', Released ''client.aclose''])"

text \<open>The lifespan on the stack it was handed: the bulkheads, then the subscription around the serving.\<close>

definition lifespan :: "(string \<Rightarrow> bool) \<Rightarrow> string list \<Rightarrow> life_event list" where
  "lifespan ok handed =
     (if ok ''make_bulkheads'' then Did ''make_bulkheads'' # open_live ok else [Raised ''make_bulkheads''])
     @ map Released handed"

text \<open>
  \<open>main\<close>: connect, then run uvicorn, which may exit before the lifespan, and which after the
  lifespan returns or ends the process by the signal it held back; a block is then not unwound.
\<close>

definition api_main :: "(string \<Rightarrow> bool) \<Rightarrow> bool \<Rightarrow> life_event list" where
  "api_main ok signalled =
     (case set_up ok open_stores [] of
        (es, connecting, ready) \<Rightarrow>
          if \<not> ready then es @ map Released connecting
          else if \<not> ok ''lifespan'' then es @ [Raised ''lifespan''] @ map Released connecting
          else case pop_all connecting of
            (handed, left) \<Rightarrow> es @ lifespan ok handed @ (if signalled then [] else map Released left))"

section \<open>Teardown reverses start-up\<close>

definition callbacks :: "action list \<Rightarrow> string list" where
  "callbacks block = concat (map callbacks_of block)"

definition reached :: "(string \<Rightarrow> bool) \<Rightarrow> action list \<Rightarrow> action list" where
  "reached ok block = takeWhile (succeeds ok) block"

definition stuck_at :: "(string \<Rightarrow> bool) \<Rightarrow> action list \<Rightarrow> life_event list" where
  "stuck_at ok block = (case dropWhile (succeeds ok) block of [] \<Rightarrow> [] | a # _ \<Rightarrow> [Raised (action_name a)])"

lemmas life_defs = callbacks_def reached_def stuck_at_def

lemma set_up_closed:
  "set_up ok block st =
     (map (Did \<circ> action_name) (reached ok block) @ stuck_at ok block,
      rev (callbacks (reached ok block)) @ st, list_all (succeeds ok) block)"
  by (induction block arbitrary: st) (auto simp: life_defs)

lemma with_exit_stack_closed:
  "with_exit_stack ok block =
     map (Did \<circ> action_name) (reached ok block) @ stuck_at ok block
     @ (if list_all (succeeds ok) block then [Worked] else []) @ map Released (rev (callbacks (reached ok block)))"
  by (simp add: with_exit_stack_def set_up_closed)

lemma reached_prefix: "\<exists>rest. block = reached ok block @ rest"
  by (metis reached_def takeWhile_dropWhile_id)

lemma stuck_at_events: "e \<in> set (stuck_at ok block) \<Longrightarrow> \<exists>n. e = Raised n"
  by (auto simp: stuck_at_def split: list.splits)

lemma count_Ran:
  "count_list (map (Did \<circ> action_name) xs) (Released c) = 0" "count_list (stuck_at ok block) (Released c) = 0"
  "count_list (map Released cs) (Released c) = count_list cs c"
  by (auto simp: count_list_0_iff dest: stuck_at_events) (induction cs, auto)

lemma count_released: "count_list (with_exit_stack ok block) (Released c) = count_list (callbacks (reached ok block)) c"
  by (simp add: with_exit_stack_closed count_Ran)

lemma name_reached:
  assumes "distinct (map action_name block)" and "a \<in> set block"
  shows "action_name a \<in> action_name ` set (reached ok block) \<longleftrightarrow> a \<in> set (reached ok block)"
proof -
  have "set (reached ok block) \<subseteq> set block" by (auto simp: reached_def dest: set_takeWhileD)
  moreover have "inj_on action_name (set block)" using assms(1) by (simp add: distinct_map)
  ultimately show ?thesis using assms(2) by (simp add: inj_on_image_mem_iff)
qed

lemma count_distinct: "distinct xs \<Longrightarrow> count_list xs x = (if x \<in> set xs then 1 else 0)"
  by (induction xs) auto

lemma callbacks_append [simp]: "callbacks (xs @ ys) = callbacks xs @ callbacks ys"
  by (simp add: callbacks_def)

text \<open>What was opened is released once, what was not is not, in any block with distinct names.\<close>

lemma count_reached:
  assumes "distinct (callbacks block)" and "a \<in> set block" and "c \<in> set (callbacks_of a)"
  shows "count_list (callbacks (reached ok block)) c = (if a \<in> set (reached ok block) then 1 else 0)"
proof -
  obtain rest where block: "block = reached ok block @ rest" using reached_prefix by blast
  have cbs: "distinct (callbacks (reached ok block) @ callbacks rest)" using assms(1) block by (metis callbacks_append)
  have here: "a \<in> set xs \<Longrightarrow> c \<in> set (callbacks xs)" for xs using assms(3) by (auto simp: callbacks_def)
  show ?thesis
  proof (cases "a \<in> set (reached ok block)")
    case True
    with here cbs show ?thesis by (simp add: count_distinct)
  next
    case False
    then have "a \<in> set rest" using assms(2) block by (metis Un_iff set_append)
    with here cbs False show ?thesis by (auto simp: count_list_0_iff)
  qed
qed

section \<open>What each process owes\<close>

text \<open>
  For each process, what it opens or installs and the call that undoes it, in the order of
  start-up, and every step that must succeed before the work begins.
\<close>

definition consumer_owes :: "(string \<times> string) list" where
  "consumer_owes =
     [(''connect_redis'', ''redis_client.close''), (''connect_redis(notifications)'', ''notify_client.close''),
      (''cassandra_store.connect'', ''cluster.shutdown''), (''jobs_queue.open_publisher'', ''publisher.close''),
      (''coordination.connect'', ''zk.close''), (''coordination.connect'', ''zk.stop''),
      (''add_listener(presence.on_state)'', ''presence.stop''), (''connect'', ''consumer.close'')]"

definition consumer_needs :: "string list" where
  "consumer_needs =
     [''wait_for_topic'', ''connect_redis'', ''connect_redis(notifications)'', ''cassandra_store.connect'', ''prepare_insert'',
      ''jobs_queue.open_publisher'', ''coordination.connect'', ''wait_for_initialisation'', ''presence.start'', ''connect'']"

definition worker_owes :: "(string \<times> string) list" where
  "worker_owes =
     [(''redis_store.connect'', ''redis_client.close''), (''coordination.connect'', ''zk.close''), (''coordination.connect'', ''zk.stop''),
      (''add_listener(presence.on_state)'', ''presence.stop''), (''add_listener(watcher.on_state)'', ''watcher.stop''),
      (''jobs_queue.connect'', ''connection.close'')]"

definition worker_needs :: "string list" where
  "worker_needs =
     [''redis_store.connect'', ''coordination.connect'', ''wait_for_initialisation'', ''presence.start'', ''watcher.start'',
      ''jobs_queue.connect'', ''connection.channel'', ''jobs_queue.declare'', ''basic_qos'', ''basic_consume'']"

definition coordinator_owes :: "(string \<times> string) list" where
  "coordinator_owes =
     [(''coordination.connect'', ''client.close''), (''coordination.connect'', ''client.stop''),
      (''redis_store.connect'', ''redis_client.close''), (''cassandra_store.connect'', ''cassandra_cluster.shutdown''),
      (''OffsetReader'', ''offsets.close''), (''add_listener(presence.on_state)'', ''presence.stop''),
      (''presence.start'', ''stop_running.set''), (''keeper.start'', ''keeper.stop'')]"

definition coordinator_needs :: "string list" where
  "coordinator_needs =
     [''coordination.connect'', ''wait_for_initialisation'', ''redis_store.connect'', ''cassandra_store.connect'', ''OffsetReader'',
      ''presence.start'', ''keeper.start'']"

definition windows_writer_owes :: "(string \<times> string) list" where
  "windows_writer_owes =
     [(''redis_store.connect'', ''client.close''), (''redis_store.connect(notifications)'', ''hint_client.close''),
      (''connect_consumer'', ''consumer.close'')]"

definition windows_writer_needs :: "string list" where
  "windows_writer_needs =
     [''wait_for_topic'', ''redis_store.connect'', ''redis_store.connect(notifications)'', ''connect_consumer'']"

text \<open>
  A trace that ends in exactly the releases owed for what was done, the last one first, and has no
  release before that.
\<close>

fun is_release :: "life_event \<Rightarrow> bool" where
  "is_release (Released _) = True"
| "is_release _ = False"

definition releases_owed :: "(string \<times> string) list \<Rightarrow> life_event list \<Rightarrow> bool" where
  "releases_owed owes t \<longleftrightarrow>
     dropWhile (\<lambda>e. \<not> is_release e) t = map Released (rev (map snd (filter (\<lambda>(r, c). Did r \<in> set t) owes)))"

text \<open>A block that stops at its statement \<open>n\<close>, or works when there is none.\<close>

fun can_fail :: "action \<Rightarrow> bool" where
  "can_fail (Callback _) = False"
| "can_fail (Listen _) = False"
| "can_fail _ = True"

lemma succeeds_iff: "succeeds ok a \<longleftrightarrow> (can_fail a \<longrightarrow> ok (action_name a))"
  by (cases a) auto

definition stopped_at :: "action list \<Rightarrow> nat \<Rightarrow> life_event list" where
  "stopped_at block n =
     map (Did \<circ> action_name) (take n block) @ [if n < length block then Raised (action_name (block ! n)) else Worked]
     @ map Released (rev (callbacks (take n block)))"

lemma with_exit_stack_stopped:
  obtains n where "n \<le> length block" and "with_exit_stack ok block = stopped_at block n"
    and "if n < length block then can_fail (block ! n) \<and> \<not> ok (action_name (block ! n)) else list_all (succeeds ok) block"
proof -
  let ?n = "length (takeWhile (succeeds ok) block)"
  have le: "?n \<le> length block" by (rule length_takeWhile_le)
  have fails: "\<not> succeeds ok (block ! ?n)" if "?n < length block" using that by (rule nth_length_takeWhile)
  have all: "list_all (succeeds ok) block \<longleftrightarrow> ?n = length block"
  proof
    assume "list_all (succeeds ok) block"
    then have "takeWhile (succeeds ok) block = block" by (simp add: list_all_iff takeWhile_eq_all_conv)
    then show "?n = length block" by (rule arg_cong)
  next
    assume "?n = length block"
    then have "takeWhile (succeeds ok) block = block" by (metis takeWhile_eq_take take_all order_refl)
    then show "list_all (succeeds ok) block" by (auto simp: list_all_iff takeWhile_eq_all_conv)
  qed
  have "stuck_at ok block = (if ?n < length block then [Raised (action_name (block ! ?n))] else [])"
    by (simp add: stuck_at_def dropWhile_eq_drop Cons_nth_drop_Suc [symmetric])
  moreover have "reached ok block = take ?n block" unfolding reached_def by (rule takeWhile_eq_take)
  ultimately have "with_exit_stack ok block = stopped_at block ?n"
    using le unfolding with_exit_stack_closed stopped_at_def all by simp
  with that [of ?n] le fails all show ?thesis by (auto simp: succeeds_iff)
qed

text \<open>What is to be checked of a process: at every statement that may fail, and when none does.\<close>

definition keeps_plan :: "string list \<Rightarrow> action list \<Rightarrow> (string \<times> string) list \<Rightarrow> string list \<Rightarrow> bool" where
  "keeps_plan first block owes needs \<longleftrightarrow>
     list_all (\<lambda>n. n < length block \<and> \<not> can_fail (block ! n) \<or> releases_owed owes (map Did first @ stopped_at block n))
       [0..<Suc (length block)]
     \<and> list_all (\<lambda>(r, c). r \<notin> set first) owes \<and> needs = first @ map action_name (filter can_fail block)"

lemma main_keeps_plan:
  assumes "keeps_plan first block owes needs"
  shows "releases_owed owes (main_after first block ok) \<and> (Worked \<in> set (main_after first block ok) \<longleftrightarrow> list_all ok needs)"
proof (cases "find (\<lambda>f. \<not> ok f) first")
  case None
  then have first: "list_all ok first" by (auto simp: find_None_iff list_all_iff)
  obtain n where n: "n \<le> length block" "with_exit_stack ok block = stopped_at block n"
    "if n < length block then can_fail (block ! n) \<and> \<not> ok (action_name (block ! n)) else list_all (succeeds ok) block"
    by (rule with_exit_stack_stopped)
  have run: "main_after first block ok = map Did first @ stopped_at block n" using None n(2) by (simp add: main_after_def)
  have "releases_owed owes (map Did first @ stopped_at block n)"
    using assms n by (auto simp: keeps_plan_def list_all_iff split: if_splits)
  moreover have "Worked \<in> set (map Did first @ stopped_at block n) \<longleftrightarrow> \<not> n < length block" by (auto simp: stopped_at_def)
  moreover have "\<not> n < length block \<longleftrightarrow> list_all (succeeds ok) block"
    using n(3) nth_mem [of n block] by (auto simp: list_all_iff succeeds_iff split: if_splits)
  moreover have "list_all (succeeds ok) block \<longleftrightarrow> list_all ok needs"
    using assms first by (auto simp: keeps_plan_def list_all_iff succeeds_iff)
  ultimately show ?thesis unfolding run by blast
next
  case (Some f)
  then have f: "\<not> ok f" "f \<in> set first" by (auto simp: find_Some_iff)
  have run: "main_after first block ok = map Did (takeWhile ok first) @ [Raised f]" using Some by (simp add: main_after_def)
  have "filter (\<lambda>(r, c). Did r \<in> set (map Did (takeWhile ok first) @ [Raised f])) owes = []"
    using assms by (auto simp: keeps_plan_def list_all_iff filter_empty_conv dest: set_takeWhileD)
  then have "releases_owed owes (map Did (takeWhile ok first) @ [Raised f])"
    by (simp add: releases_owed_def dropWhile_append2)
  moreover have "\<not> list_all ok needs" using assms f by (auto simp: keeps_plan_def list_all_iff)
  ultimately show ?thesis unfolding run by auto
qed

lemma plans_kept:
  "keeps_plan [''wait_for_topic''] consumer_main consumer_owes consumer_needs"
  "keeps_plan [] worker_main worker_owes worker_needs"
  "keeps_plan [] coordinator_main coordinator_owes coordinator_needs"
  "keeps_plan [''wait_for_topic''] windows_writer_main windows_writer_owes windows_writer_needs"
  by code_simp+

lemma reached_stores:
  "\<exists>n. rev (callbacks (reached ok open_stores))
      = drop n [''zookeeper.stop'', ''zookeeper.close'', ''cluster.shutdown'', ''redis_client.close'']"
proof -
  have "length (rev (callbacks (reached ok open_stores))) \<le> 4
      \<and> rev (callbacks (reached ok open_stores)) = drop (4 - length (rev (callbacks (reached ok open_stores))))
          [''zookeeper.stop'', ''zookeeper.close'', ''cluster.shutdown'', ''redis_client.close'']"
    by (simp add: open_stores_def life_defs)
  then show ?thesis by blast
qed

lemma api_main_front:
  obtains front where "api_main ok signalled = front @ map Released (rev (callbacks (reached ok open_stores)))"
    "\<forall>c \<in> set (callbacks open_stores). Released c \<notin> set front"
    "\<forall>a \<in> set open_stores. Did (action_name a) \<in> set front \<longleftrightarrow> a \<in> set (reached ok open_stores)"
proof -
  let ?es = "map (Did \<circ> action_name) (reached ok open_stores) @ stuck_at ok open_stores"
  let ?mid = "if \<not> list_all (succeeds ok) open_stores then [] else if \<not> ok ''lifespan'' then [Raised ''lifespan'']
     else if ok ''make_bulkheads'' then Did ''make_bulkheads'' # open_live ok else [Raised ''make_bulkheads'']"
  have "api_main ok signalled = (?es @ ?mid) @ map Released (rev (callbacks (reached ok open_stores)))"
    by (simp add: api_main_def set_up_closed pop_all_def lifespan_def)
  moreover have "\<forall>c \<in> set (callbacks open_stores). Released c \<notin> set (?es @ ?mid)"
    by (auto simp: open_live_def open_stores_def callbacks_def dest: stuck_at_events split: if_splits)
  moreover have "Did (action_name a) \<in> set (?es @ ?mid) \<longleftrightarrow> a \<in> set (reached ok open_stores)" if "a \<in> set open_stores" for a
  proof -
    have names: "distinct (map action_name open_stores)" by code_simp
    have "Did (action_name a) \<notin> set ?mid" using that by (auto simp: open_stores_def open_live_def)
    then show ?thesis unfolding name_reached [OF names that, symmetric] set_append Un_iff
      by (auto dest: stuck_at_events)
  qed
  ultimately show ?thesis by (rule that [OF _ _ ballI])
qed

text \<open>The producer is closed exactly when it was connected and what it had sent is flushed.\<close>

lemma producer_closes_after_flush:
  "count_list (producer_main ok) (Released ''producer.close'')
     = (if Did ''connect'' \<in> set (producer_main ok) \<and> Did ''producer.flush'' \<in> set (producer_main ok) then 1 else 0)"
  "Worked \<in> set (producer_main ok) \<Longrightarrow>
     Did ''producer.flush'' \<in> set (producer_main ok) \<or> Raised ''producer.flush'' \<in> set (producer_main ok)"
  by (cases "ok ''wait_for_topic''"; cases "ok ''connect''"; cases "ok ''producer.flush''"; simp add: producer_main_def)+

section \<open>Properties\<close>

text \<open>
  C36: in the consumer, the worker, the coordinator and the windows writer, wherever start-up
  stops, what was opened or installed so far is undone exactly once, nothing else is, and in the
  reverse of the order of start-up: the clients, connections and threads of each are those of its
  table (\<open>consumer_owes\<close> and so on). The work begins exactly when each step of the process's
  second table succeeded, every connection, the initialised tree, the presence, and for the worker the
  applied delay.
\<close>

theorem processes_release_what_they_open:
  assumes "(first, block, owes, needs) \<in>
      {([''wait_for_topic''], consumer_main, consumer_owes, consumer_needs),
       ([], worker_main, worker_owes, worker_needs),
       ([], coordinator_main, coordinator_owes, coordinator_needs),
       ([''wait_for_topic''], windows_writer_main, windows_writer_owes, windows_writer_needs)}"
  shows "releases_owed owes (main_after first block ok)
    \<and> (Worked \<in> set (main_after first block ok) \<longleftrightarrow> list_all ok needs)"
  using assms plans_kept [THEN main_keeps_plan] by blast

theorem processes_release_what_they_open_witness:
  "releases_owed worker_owes (main_after [] worker_main (\<lambda>n. n \<noteq> ''watcher.start''))
   \<and> filter is_release (main_after [] worker_main (\<lambda>n. n \<noteq> ''watcher.start''))
      = map Released [''watcher.stop'', ''presence.stop'', ''zk.stop'', ''zk.close'', ''redis_client.close'']
   \<and> Worked \<notin> set (main_after [] worker_main (\<lambda>n. n \<noteq> ''watcher.start''))"
proof -
  have "filter is_release (main_after [] worker_main (\<lambda>n. n \<noteq> ''watcher.start''))
      = map Released [''watcher.stop'', ''presence.stop'', ''zk.stop'', ''zk.close'', ''redis_client.close'']"
    by code_simp
  with processes_release_what_they_open [of "[]" worker_main worker_owes worker_needs "\<lambda>n. n \<noteq> ''watcher.start''"]
  show ?thesis by (simp add: worker_needs_def)
qed

text \<open>
  C37: on every way through the API's \<open>main\<close>, with the clients handed to the lifespan or not, with
  a signal ending the process after it or not, each store's client that was opened is closed
  exactly once, ZooKeeper's stopped before it is closed, and after the subscription when there is
  one.
\<close>

theorem api_closes_clients_once:
  "(\<forall>a \<in> set open_stores. \<forall>c \<in> set (callbacks_of a).
      count_list (api_main ok signalled) (Released c) = (if Did (action_name a) \<in> set (api_main ok signalled) then 1 else 0))
   \<and> (\<exists>front n. api_main ok signalled
          = front @ map Released (drop n [''zookeeper.stop'', ''zookeeper.close'', ''cluster.shutdown'', ''redis_client.close''])
        \<and> (\<forall>c \<in> set (callbacks open_stores). Released c \<notin> set front))"
proof -
  obtain front where front: "api_main ok signalled = front @ map Released (rev (callbacks (reached ok open_stores)))"
    "\<forall>c \<in> set (callbacks open_stores). Released c \<notin> set front"
    "\<forall>a \<in> set open_stores. Did (action_name a) \<in> set front \<longleftrightarrow> a \<in> set (reached ok open_stores)"
    by (rule api_main_front)
  have d: "distinct (callbacks open_stores)" by code_simp
  obtain n where "rev (callbacks (reached ok open_stores))
      = drop n [''zookeeper.stop'', ''zookeeper.close'', ''cluster.shutdown'', ''redis_client.close'']"
    using reached_stores by blast
  then have "api_main ok signalled
      = front @ map Released (drop n [''zookeeper.stop'', ''zookeeper.close'', ''cluster.shutdown'', ''redis_client.close''])"
    by (simp only: front(1))
  moreover have "count_list (api_main ok signalled) (Released c) = (if Did (action_name a) \<in> set (api_main ok signalled) then 1 else 0)"
    if "a \<in> set open_stores" "c \<in> set (callbacks_of a)" for a c
  proof -
    have "c \<in> set (callbacks open_stores)" using that by (auto simp: callbacks_def)
    with front(2) have "count_list (api_main ok signalled) (Released c) = count_list (callbacks (reached ok open_stores)) c"
      by (simp add: front(1) count_Ran count_list_0_iff)
    also have "\<dots> = (if a \<in> set (reached ok open_stores) then 1 else 0)"
      using count_reached [OF d that] .
    finally show ?thesis using front(3) that(1) by (auto simp: front(1))
  qed
  ultimately show ?thesis using front(2) by blast
qed

theorem api_closes_clients_once_witness:
  "count_list (api_main (\<lambda>_. True) True) (Released ''zookeeper.close'') = 1
   \<and> count_list (api_main (\<lambda>n. n \<noteq> ''cassandra_store.connect'') False) (Released ''zookeeper.close'') = 0"
proof -
  have zk: "Open ''coordination.connect'' [''zookeeper.close'', ''zookeeper.stop''] \<in> set open_stores"
    by (simp add: open_stores_def)
  have "Did ''coordination.connect'' \<in> set (api_main (\<lambda>_. True) True)"
    "Did ''coordination.connect'' \<notin> set (api_main (\<lambda>n. n \<noteq> ''cassandra_store.connect'') False)"
    by (simp_all add: api_main_def open_stores_def pop_all_def)
  with api_closes_clients_once [of "\<lambda>_. True" True, THEN conjunct1, THEN bspec, OF zk]
    api_closes_clients_once [of "\<lambda>n. n \<noteq> ''cassandra_store.connect''" False, THEN conjunct1, THEN bspec, OF zk]
  show ?thesis by simp
qed

end
