(* ===== verification/Failover.thy ===== *)
theory Failover
  imports Api Flink_Cluster Lifecycle
begin

text \<open>
  The failover demonstration, \<open>failover_demo.py\<close>: the wait for a leader among the demonstration's
  own coordinators, the freeze, the split, the notice and the fence, with every acceptance condition
  as a verdict, and the block that stops what it started. A wait is given the worlds (or logs) its
  iterations see before the deadline.
\<close>

section \<open>Reading a marker\<close>

datatype demo_error = DemoError coord_error | KeyError | DemoTypeError | AttributeError | ProcessGone

datatype verdict =
    ForeignLeader | NoLeader | NoSuccessor | NothingToShow | NotNoticed | NoSnapshot | Accepted | Moved | Shown

definition exit_code :: "verdict \<Rightarrow> int" where
  "exit_code v = (if v = Shown then 0 else 1)"

text \<open>\<open>value[key]\<close> and \<open>value.get("epoch")\<close> on what \<open>json.loads\<close> gave.\<close>

definition marker_item :: "json \<Rightarrow> string \<Rightarrow> demo_error + json" where
  "marker_item j k =
     (case j of
        JObj kvs \<Rightarrow> (case map_of kvs k of None \<Rightarrow> Inl KeyError | Some v \<Rightarrow> Inr v)
      | _ \<Rightarrow> Inl DemoTypeError)"

definition get_epoch :: "json \<Rightarrow> demo_error + json" where
  "get_epoch j =
     (case j of
        JObj kvs \<Rightarrow> Inr (case map_of kvs ''epoch'' of None \<Rightarrow> JNull | Some v \<Rightarrow> v)
      | _ \<Rightarrow> Inl AttributeError)"

text \<open>\<open>int(identity.rsplit("-", 1)[1])\<close>, with no dash or no number as no pid.\<close>

definition pid_of :: "string \<Rightarrow> int option" where
  "pid_of identity =
     (if CHR ''-'' \<in> set identity then py_int (rev (takeWhile (\<lambda>c. c \<noteq> CHR ''-'') (rev identity))) else None)"

text \<open>\<open>coordinator.identity\<close>: the host's name may hold dashes of its own.\<close>

definition identity :: "string \<Rightarrow> nat \<Rightarrow> string" where
  "identity host pid = host @ ''-'' @ show_nat pid"

lemma pid_of_identity: "pid_of (identity host pid) = Some (int pid)"
proof -
  have nodash: "CHR ''-'' \<notin> set (show_nat pid)"
    using show_nat_digits [of pid] digit_not_special by (auto simp: list_all_iff)
  have "takeWhile p (xs @ y # ys) = xs" if "\<forall>x \<in> set xs. p x" "\<not> p y" for p :: "char \<Rightarrow> bool" and xs y ys
    using that by (induction xs) auto
  from this [of "rev (show_nat pid)" "\<lambda>c. c \<noteq> CHR ''-''" "CHR ''-''" "rev host"] nodash
  have "takeWhile (\<lambda>c. c \<noteq> CHR ''-'') (rev (identity host pid)) = rev (show_nat pid)"
    by (auto simp: identity_def)
  moreover have "py_int (show_nat pid) = Some (int pid)" using py_int_show_int [of "int pid"] by (simp add: show_int_def)
  ultimately show ?thesis by (simp add: pid_of_def) (simp add: identity_def)
qed

definition leader_matches :: "int list \<Rightarrow> string \<Rightarrow> json \<Rightarrow> demo_error + bool" where
  "leader_matches among exclude j =
     (if \<not> json_truthy j then Inr False
      else case marker_item j ''identity'' of
        Inl e \<Rightarrow> Inl e
      | Inr (JStr who) \<Rightarrow> Inr (who \<noteq> exclude \<and> (case pid_of who of None \<Rightarrow> False | Some p \<Rightarrow> p \<in> set among))
      | Inr _ \<Rightarrow> Inl AttributeError)"

section \<open>The waits\<close>

fun wait_for_leader :: "'w kazoo \<Rightarrow> string \<Rightarrow> int list \<Rightarrow> string \<Rightarrow> 'w list \<Rightarrow> demo_error + json option" where
  "wait_for_leader zk zroot among exclude [] = Inr None"
| "wait_for_leader zk zroot among exclude (w # ws) =
     (case read_leader zk zroot w of
        Inl e \<Rightarrow> Inl (DemoError e)
      | Inr None \<Rightarrow> wait_for_leader zk zroot among exclude ws
      | Inr (Some j) \<Rightarrow>
          (case leader_matches among exclude j of
             Inl e \<Rightarrow> Inl e
           | Inr True \<Rightarrow> Inr (Some j)
           | Inr False \<Rightarrow> wait_for_leader zk zroot among exclude ws))"

fun wait_for_snapshot_epoch :: "'w kazoo \<Rightarrow> string \<Rightarrow> json \<Rightarrow> 'w list \<Rightarrow> demo_error + bool" where
  "wait_for_snapshot_epoch zk zroot ep [] = Inr False"
| "wait_for_snapshot_epoch zk zroot ep (w # ws) =
     (case read_snapshot zk zroot w of
        Inl e \<Rightarrow> Inl (DemoError e)
      | Inr (snapshot, _) \<Rightarrow>
          (case get_epoch snapshot of
             Inl e \<Rightarrow> Inl e
           | Inr found \<Rightarrow> if py_eq found ep then Inr True else wait_for_snapshot_epoch zk zroot ep ws))"

definition believes_it_leads :: "string \<Rightarrow> bool" where
  "believes_it_leads logged \<longleftrightarrow>
     has_substring ''Elected leader with epoch token'' logged
     \<and> \<not> list_ex (\<lambda>phrase. has_substring phrase logged)
          [''this tenure is over'', ''session expired during a snapshot write'', ''stepping down'']"

section \<open>The demonstration\<close>

text \<open>
  What one run meets: the worlds and logs each wait polls, whether the frozen process still exists
  when it is signalled, the world the stale write finds and what happens before the last read.
\<close>

record 'w demo_run =
  dr_first :: "'w list"
  dr_existing :: 'w
  dr_stop_ok :: bool
  dr_second :: "'w list"
  dr_frozen_log :: "int \<Rightarrow> string"
  dr_cont_ok :: bool
  dr_notice :: "(int \<Rightarrow> string) list"
  dr_snapshots :: "'w list"
  dr_write :: 'w
  dr_after :: "'w \<Rightarrow> 'w"

datatype demo_event = Life life_event | SigStop int | SigCont int | SigTermTo string | SigKillTo string

definition stale_payload :: "int \<Rightarrow> json" where
  "stale_payload token = JObj [(''epoch'', JInt token), (''by'', JStr ''A'')]"

text \<open>The second half: B's snapshot, then a write with A's token, and the epoch after it.\<close>

definition show_fence :: "'w kazoo \<Rightarrow> string \<Rightarrow> 'w demo_run \<Rightarrow> json \<Rightarrow> json \<Rightarrow> demo_error + verdict" where
  "show_fence zk zroot d e1 e2 =
     (case wait_for_snapshot_epoch zk zroot e2 (dr_snapshots d) of
        Inl e \<Rightarrow> Inl e
      | Inr False \<Rightarrow> Inr NoSnapshot
      | Inr True \<Rightarrow>
          (case e1 of
             JInt token \<Rightarrow>
               (case write_snapshot zk zroot token (stale_payload token) (dr_write d) of
                  (Inr _, _) \<Rightarrow> Inr Accepted
                | (Inl e, w) \<Rightarrow>
                    if e \<noteq> StaleLeader then Inl (DemoError e)
                    else (case read_snapshot zk zroot (dr_after d w) of
                        Inl e' \<Rightarrow> Inl (DemoError e')
                      | Inr (snapshot, _) \<Rightarrow>
                          (case get_epoch snapshot of
                             Inl e' \<Rightarrow> Inl e'
                           | Inr found \<Rightarrow> Inr (if py_eq found e2 then Shown else Moved))))
           | _ \<Rightarrow> Inl DemoTypeError))"

text \<open>From the successor's marker on: A's last words, the continue, and A's notice.\<close>

definition show_split :: "'w kazoo \<Rightarrow> string \<Rightarrow> 'w demo_run \<Rightarrow> int \<Rightarrow> json \<Rightarrow> json
    \<Rightarrow> (demo_error + verdict) \<times> demo_event list \<times> int option" where
  "show_split zk zroot d p e1 second =
     (case marker_item second ''epoch'' of
        Inl e \<Rightarrow> (Inl e, [], Some p)
      | Inr e2 \<Rightarrow>
          if \<not> believes_it_leads (dr_frozen_log d p) then (Inr NothingToShow, [], Some p)
          else if \<not> dr_cont_ok d then (Inl ProcessGone, [SigCont p], Some p)
          else if \<not> list_ex (\<lambda>logged. \<not> believes_it_leads (logged p)) (dr_notice d)
            then (Inr NotNoticed, [SigCont p], None)
          else (show_fence zk zroot d e1 e2, [SigCont p], None))"

definition identity_pid :: "json \<Rightarrow> int option" where
  "identity_pid j = (case marker_item j ''identity'' of Inr (JStr who) \<Rightarrow> pid_of who | _ \<Rightarrow> None)"

definition identity_text :: "json \<Rightarrow> string" where
  "identity_text j = (case marker_item j ''identity'' of Inr (JStr who) \<Rightarrow> who | _ \<Rightarrow> [])"

text \<open>
  \<open>_demonstrate\<close>: the result, the signals sent, and \<open>state["frozen"]\<close> at the end. The pid of a
  leader that was waited for is one of \<open>ours\<close>, so it has a log.
\<close>

definition demonstrate :: "'w kazoo \<Rightarrow> string \<Rightarrow> int list \<Rightarrow> 'w demo_run
    \<Rightarrow> (demo_error + verdict) \<times> demo_event list \<times> int option" where
  "demonstrate zk zroot ours d =
     (case wait_for_leader zk zroot ours [] (dr_first d) of
        Inl e \<Rightarrow> (Inl e, [], None)
      | Inr None \<Rightarrow>
          (case read_leader zk zroot (dr_existing d) of
             Inl e \<Rightarrow> Inl (DemoError e)
           | Inr (Some j) \<Rightarrow>
               if json_truthy j then (case marker_item j ''identity'' of Inl e \<Rightarrow> Inl e | Inr _ \<Rightarrow> Inr ForeignLeader)
               else Inr NoLeader
           | Inr None \<Rightarrow> Inr NoLeader, [], None)
      | Inr (Some first) \<Rightarrow>
          (case (marker_item first ''epoch'', identity_pid first) of
             (Inr e1, Some p) \<Rightarrow>
               if \<not> dr_stop_ok d then (Inl ProcessGone, [], None)
               else
                 (case wait_for_leader zk zroot ours (identity_text first) (dr_second d) of
                    Inl e \<Rightarrow> (Inl e, [SigStop p], Some p)
                  | Inr None \<Rightarrow> (Inr NoSuccessor, [SigStop p], Some p)
                  | Inr (Some second) \<Rightarrow>
                      (case show_split zk zroot d p e1 second of
                         (r, sent, frozen) \<Rightarrow> (r, SigStop p # sent, frozen)))
           | (Inl e, _) \<Rightarrow> (Inl e, [], None)
           | (_, None) \<Rightarrow> (Inl DemoTypeError, [], None)))"

section \<open>The block around it\<close>

definition COORDINATORS :: nat where "COORDINATORS = 3"

definition popen_name :: "nat \<Rightarrow> string" where "popen_name k = ''Popen '' @ show_nat k"

definition stop_name :: "nat \<Rightarrow> string" where "stop_name k = ''_stop '' @ show_nat k"

definition start_coordinators :: "action list" where
  "start_coordinators = map (\<lambda>k. Open (popen_name k) [stop_name k]) [0..<COORDINATORS]"

definition failover_main :: "action list" where
  "failover_main =
     [Open ''coordination.connect'' [''client.close'', ''client.stop''],
      Call ''wait_for_initialisation'',
      Call ''negotiated_timeout'']
     @ start_coordinators @ [Callback ''_thaw'']"

text \<open>\<open>_thaw\<close>: nothing when no process is frozen; the signal's failure is ignored.\<close>

definition thaw :: "int option \<Rightarrow> demo_event list" where
  "thaw frozen = (case frozen of None \<Rightarrow> [] | Some p \<Rightarrow> [SigCont p])"

text \<open>\<open>_stop\<close>: terminate the group, and kill it when it has not exited in time.\<close>

definition stop_process :: "(string \<Rightarrow> bool) \<Rightarrow> string \<Rightarrow> demo_event list" where
  "stop_process exits c = SigTermTo c # (if exits c then [] else [SigKillTo c])"

fun demo_callback :: "(string \<Rightarrow> bool) \<Rightarrow> int option \<Rightarrow> string \<Rightarrow> demo_event list" where
  "demo_callback exits frozen c =
     (if c = ''_thaw'' then thaw frozen
      else if c \<in> stop_name ` {0..<COORDINATORS} then stop_process exits c else [])
     @ [Life (Released c)]"

fun expand :: "(string \<Rightarrow> bool) \<Rightarrow> demo_event list \<Rightarrow> int option \<Rightarrow> life_event \<Rightarrow> demo_event list" where
  "expand exits sent frozen Worked = sent"
| "expand exits sent frozen (Released c) = demo_callback exits frozen c"
| "expand exits sent frozen e = [Life e]"

definition failover_events ::
    "'w kazoo \<Rightarrow> string \<Rightarrow> (string \<Rightarrow> bool) \<Rightarrow> (string \<Rightarrow> bool) \<Rightarrow> int list \<Rightarrow> 'w demo_run \<Rightarrow> demo_event list" where
  "failover_events zk zroot ok exits ours d =
     (case demonstrate zk zroot ours d of
        (_, sent, frozen) \<Rightarrow> concat (map (expand exits sent frozen) (with_exit_stack ok failover_main)))"

section \<open>What is frozen is continued\<close>

lemma demonstrate_signals:
  assumes "demonstrate zk zroot ours d = (r, sent, frozen)"
  obtains "sent = []" "frozen = None"
    | p where "sent = [SigStop p]" "frozen = Some p"
    | p where "sent = [SigStop p, SigCont p]"
  using assms unfolding demonstrate_def show_split_def
  by (auto split: sum.splits option.splits if_splits prod.splits)

lemma expand_no_stop: "Worked \<noteq> e \<Longrightarrow> SigStop p \<notin> set (expand exits sent frozen e)"
  by (cases e) (auto simp: thaw_def stop_process_def split: option.splits)

lemma expand_quiet: "Worked \<notin> set es \<Longrightarrow> SigStop p \<notin> set (concat (map (expand exits sent frozen) es))"
  by (induction es) (simp_all add: expand_no_stop)

lemma split_unique: "x \<notin> set as \<Longrightarrow> x \<notin> set zs \<Longrightarrow> as @ y # zs = us @ x # vs \<Longrightarrow> us = as \<and> y = x \<and> vs = zs"
proof (induction as arbitrary: us)
  case Nil
  then show ?case by (cases us) auto
next
  case (Cons a as)
  then show ?case by (cases us) auto
qed

lemma failover_callbacks:
  "rev (callbacks failover_main) = ''_thaw'' # map stop_name (rev [0..<COORDINATORS]) @ [''client.stop'', ''client.close'']"
  by (simp add: failover_main_def start_coordinators_def callbacks_def rev_map concat_map_singleton comp_def)

lemma body_then_thaw:
  assumes "Worked \<in> set (with_exit_stack ok failover_main)"
  obtains front rest where "with_exit_stack ok failover_main = front @ Worked # Released ''_thaw'' # rest"
    "Worked \<notin> set front" "Worked \<notin> set rest"
proof -
  have ready: "list_all (succeeds ok) failover_main"
    using assms by (auto simp: with_exit_stack_closed dest: stuck_at_events split: if_splits)
  then have "reached ok failover_main = failover_main" "stuck_at ok failover_main = []"
    by (simp_all add: reached_def stuck_at_def list_all_iff takeWhile_eq_all_conv dropWhile_eq_Nil_conv [THEN iffD2])
  then show ?thesis
    using that [of "map (Did \<circ> action_name) failover_main"
        "map Released (map stop_name (rev [0..<COORDINATORS]) @ [''client.stop'', ''client.close''])"] ready
    by (simp add: with_exit_stack_closed failover_callbacks) auto
qed

text \<open>
  However the demonstration ends, with a verdict, with an exception at any step or with a
  coordinator that never started, a process it froze is continued before any coordinator is
  signalled and before any callback of the block is over.
\<close>

theorem frozen_leader_is_continued:
  assumes "failover_events zk zroot ok exits ours d = us @ SigStop p # vs"
  shows "\<exists>xs ys. vs = xs @ SigCont p # ys \<and> (\<forall>c. Life (Released c) \<notin> set xs \<and> SigTermTo c \<notin> set xs \<and> SigKillTo c \<notin> set xs)"
proof -
  obtain r sent frozen where d: "demonstrate zk zroot ours d = (r, sent, frozen)"
    by (cases "demonstrate zk zroot ours d")
  let ?x = "expand exits sent frozen"
  have ev: "concat (map ?x (with_exit_stack ok failover_main)) = us @ SigStop p # vs"
    using assms by (simp add: failover_events_def d)
  have "Worked \<in> set (with_exit_stack ok failover_main)"
  proof (rule ccontr)
    assume "Worked \<notin> set (with_exit_stack ok failover_main)"
    then have "SigStop p \<notin> set (concat (map ?x (with_exit_stack ok failover_main)))" by (rule expand_quiet)
    with ev show False by simp
  qed
  then obtain front rest where blk: "with_exit_stack ok failover_main = front @ Worked # Released ''_thaw'' # rest"
      "Worked \<notin> set front" "Worked \<notin> set rest" by (rule body_then_thaw)
  define A where "A = concat (map ?x front)"
  define Z where "Z = Life (Released ''_thaw'') # concat (map ?x rest)"
  have quiet: "SigStop p \<notin> set A" "SigStop p \<notin> set Z" using expand_quiet [OF blk(2)] expand_quiet [OF blk(3)]
    by (simp_all add: A_def Z_def)
  have ev2: "A @ sent @ thaw frozen @ Z = us @ SigStop p # vs" using ev by (simp add: blk(1) A_def Z_def)
  show ?thesis
    using d
  proof (cases rule: demonstrate_signals)
    case 1
    then have "SigStop p \<notin> set (A @ sent @ thaw frozen @ Z)" using quiet by (simp add: thaw_def)
    with ev2 show ?thesis by simp
  next
    case (2 q)
    then have "A @ SigStop q # SigCont q # Z = us @ SigStop p # vs" using ev2 by (simp add: thaw_def)
    from split_unique [OF quiet(1) _ this] quiet(2) have "SigStop q = SigStop p \<and> vs = SigCont q # Z" by simp
    then show ?thesis by - (rule exI [of _ "[]"], simp)
  next
    case (3 q)
    then have eq: "A @ SigStop q # SigCont q # thaw frozen @ Z = us @ SigStop p # vs" using ev2 by simp
    have "SigStop p \<notin> set (SigCont q # thaw frozen @ Z)" using quiet(2) by (simp add: thaw_def split: option.split)
    from split_unique [OF quiet(1) this eq] have "SigStop q = SigStop p \<and> vs = SigCont q # thaw frozen @ Z" by simp
    then show ?thesis by - (rule exI [of _ "[]"], simp)
  qed
qed

section \<open>What the verdicts mean\<close>

lemma wait_for_leader_found:
  "wait_for_leader zk zroot among exclude ws = Inr (Some j) \<Longrightarrow>
    \<exists>w who p. w \<in> set ws \<and> read_leader zk zroot w = Inr (Some j) \<and> marker_item j ''identity'' = Inr (JStr who)
      \<and> who \<noteq> exclude \<and> pid_of who = Some p \<and> p \<in> set among"
  by (induction ws)
     (force simp: leader_matches_def split: sum.splits option.splits bool.splits if_splits json.splits)+

lemma wait_for_snapshot_found:
  "wait_for_snapshot_epoch zk zroot ep ws = Inr True \<Longrightarrow>
    \<exists>w j v found. w \<in> set ws \<and> read_snapshot zk zroot w = Inr (j, v) \<and> get_epoch j = Inr found \<and> py_eq found ep"
  by (induction ws) (auto split: sum.splits prod.splits if_splits)

lemma py_eq_int: "py_eq (JInt a) (JInt b) \<longleftrightarrow> a = b"
  by (simp add: py_eq_def)

context zookeeper
begin

lemma read_snapshot_epoch:
  assumes "live w" and "snapshot_epoch tree zroot w = Some b" and "read_snapshot zk zroot w = Inr (j, v)"
  shows "get_epoch j = Inr (JInt b)"
  using assms get_law [OF assms(1)]
  by (auto simp: read_snapshot_def read_document_def snapshot_epoch_def get_epoch_def
      split: option.splits json.splits elim: loads.elims)

text \<open>Once B's snapshot is read, A's token is behind the epoch for good.\<close>

lemma fence_holds:
  assumes "epoch_ok tree live zroot w0" and "snapshot_epoch tree zroot w0 = Some a" and "a \<le> epoch_version tree zroot w0"
    and chain: "\<forall>w \<in> set (dr_snapshots d). (service_step zk zroot)\<^sup>*\<^sup>* w0 w \<and> (service_step zk zroot)\<^sup>*\<^sup>* w (dr_write d)"
    and "wait_for_snapshot_epoch zk zroot (JInt t2) (dr_snapshots d) = Inr True" and "t1 < t2"
    and "write_snapshot zk zroot t1 payload (dr_write d) = (r, w')"
  shows "r = Inl StaleLeader \<and> tree w' = tree (dr_write d)"
proof -
  from wait_for_snapshot_found [OF assms(5)] obtain w j v found where
    w: "w \<in> set (dr_snapshots d)" "read_snapshot zk zroot w = Inr (j, v)" "get_epoch j = Inr found" "py_eq found (JInt t2)"
    by blast
  from steps_epoch_monotonic [of zroot w0 w] chain w(1) assms(1) have okw: "epoch_ok tree live zroot w" by blast
  from steps_snapshot_monotonic [OF _ assms(1-3), of w] chain w(1) obtain b where
    b: "snapshot_epoch tree zroot w = Some b" "b \<le> epoch_version tree zroot w" by blast
  have "live w" using okw by (simp add: epoch_ok_def)
  from read_snapshot_epoch [OF this b(1) w(2)] w(3,4) have "b = t2" by (simp add: py_eq_int)
  with steps_epoch_monotonic [of zroot w "dr_write d"] chain w(1) okw b(2) assms(6)
  have wr: "epoch_ok tree live zroot (dr_write d)" "t1 < epoch_version tree zroot (dr_write d)" by force+
  have "\<exists>c. snapshot_epoch tree zroot (dr_write d) = Some c"
    using steps_snapshot_monotonic [of zroot w "dr_write d" b] chain w(1) okw b by blast
  then obtain s where s: "tree (dr_write d) (snapshot_path zroot) = Some s"
    by (auto simp: snapshot_epoch_def split: option.splits)
  from wr obtain n where n: "live (dr_write d)" "tree (dr_write d) (epoch_path zroot) = Some n" "zversion n \<noteq> t1"
    by (auto simp: epoch_ok_def epoch_version_def)
  from write_snapshot_outcome [OF n(1,2) s assms(7)] n(3) show ?thesis by simp
qed

end

text \<open>
  C33: the demonstration never reports that the fence is not working. With a ZooKeeper that behaves
  as documented, a tree whose snapshot is not ahead of its epoch, only the deployment's own writes
  in between, and a second leader whose token was claimed after the first one's, the verdict is
  never Accepted, and it is the full demonstration only when two different coordinators of its own
  led, the first was frozen and continued, and nothing is left frozen.
\<close>

theorem failover_verdicts_sound:
  assumes "zookeeper zk tree live" and "epoch_ok tree live zroot w0"
    and "snapshot_epoch tree zroot w0 = Some a" and "a \<le> epoch_version tree zroot w0"
    and "\<forall>w \<in> set (dr_snapshots d). (service_step zk zroot)\<^sup>*\<^sup>* w0 w \<and> (service_step zk zroot)\<^sup>*\<^sup>* w (dr_write d)"
    and "wait_for_leader zk zroot ours [] (dr_first d) = Inr (Some first)" and "marker_item first ''epoch'' = Inr (JInt t1)"
    and "wait_for_leader zk zroot ours (identity_text first) (dr_second d) = Inr (Some second)"
    and "marker_item second ''epoch'' = Inr (JInt t2)" and "t1 < t2"
    and "demonstrate zk zroot ours d = (res, sent, frozen)"
  shows "res \<noteq> Inr Accepted
    \<and> (res = Inr Shown \<longrightarrow>
        (\<exists>p q. identity_pid first = Some p \<and> identity_pid second = Some q \<and> {p, q} \<subseteq> set ours
           \<and> identity_text first \<noteq> identity_text second \<and> sent = [SigStop p, SigCont p] \<and> frozen = None))"
proof -
  from wait_for_leader_found [OF assms(6)] obtain who1 p where
    one: "marker_item first ''identity'' = Inr (JStr who1)" "pid_of who1 = Some p" "p \<in> set ours" by blast
  from wait_for_leader_found [OF assms(8)] obtain who2 q where
    two: "marker_item second ''identity'' = Inr (JStr who2)" "pid_of who2 = Some q" "q \<in> set ours" "who2 \<noteq> identity_text first" by blast
  have ids: "identity_pid first = Some p" "identity_pid second = Some q" "identity_text first \<noteq> identity_text second"
    using one two by (simp_all add: identity_pid_def identity_text_def)
  have "show_fence zk zroot d (JInt t1) (JInt t2) \<noteq> Inr Accepted"
  proof (cases "wait_for_snapshot_epoch zk zroot (JInt t2) (dr_snapshots d) = Inr True")
    case True
    obtain r w' where w: "write_snapshot zk zroot t1 (stale_payload t1) (dr_write d) = (r, w')"
      by (cases "write_snapshot zk zroot t1 (stale_payload t1) (dr_write d)")
    from zookeeper.fence_holds [OF assms(1-5) True assms(10) w] have "r = Inl StaleLeader" by simp
    with True w show ?thesis by (auto simp: show_fence_def split: sum.splits)
  qed (auto simp: show_fence_def split: sum.splits bool.splits)
  with assms(6-9,11) ids one(3) two(3) show ?thesis
    by (auto simp: demonstrate_def show_split_def split: if_splits)
qed

section \<open>Witnesses\<close>

definition ex_leader_world :: "string \<Rightarrow> int \<Rightarrow> tree_world" where
  "ex_leader_world who e = \<lparr>wnodes = [
       epoch_path ''/p'' \<mapsto> ex_node (JInt e) e,
       snapshot_path ''/p'' \<mapsto> ex_node (JObj [(''epoch'', JInt e)]) 4,
       leader_path ''/p'' \<mapsto> ex_node (leader_payload who e ''t'') 0],
     wconnected = True, wcounter = 0\<rparr>"

definition ex_demo :: "tree_world demo_run" where
  "ex_demo = \<lparr>dr_first = [ex_leader_world ''h-11'' 1], dr_existing = ex_leader_world ''h-11'' 1, dr_stop_ok = True,
     dr_second = [ex_leader_world ''h-11'' 1, ex_leader_world ''h-12'' 2],
     dr_frozen_log = (\<lambda>_. ''Elected leader with epoch token 1''), dr_cont_ok = True,
     dr_notice = [\<lambda>_. ''Elected leader with epoch token 1; stepping down''],
     dr_snapshots = [ex_leader_world ''h-12'' 2], dr_write = ex_leader_world ''h-12'' 2, dr_after = (\<lambda>w. w)\<rparr>"

lemma ex_demo_shown: "demonstrate tree_client ''/p'' [11, 12, 13] ex_demo = (Inr Shown, [SigStop 11, SigCont 11], None)"
  by code_simp

theorem failover_verdicts_sound_witness:
  "demonstrate tree_client ''/p'' [11, 12, 13] ex_demo = (Inr Shown, [SigStop 11, SigCont 11], None)
   \<and> (\<exists>p q. identity_pid (leader_payload ''h-11'' 1 ''t'') = Some p \<and> identity_pid (leader_payload ''h-12'' 2 ''t'') = Some q
        \<and> {p, q} \<subseteq> {11, 12, 13})"
proof -
  let ?A = "leader_payload ''h-11'' 1 ''t''" and ?B = "leader_payload ''h-12'' 2 ''t''" and ?w = "ex_leader_world ''h-12'' 2"
  have n: "wnodes ?w (epoch_path ''/p'') = Some (ex_node (JInt 2) 2)"
    "wnodes ?w (snapshot_path ''/p'') = Some (ex_node (JObj [(''epoch'', JInt 2)]) 4)" "wconnected ?w"
    by (simp_all add: ex_leader_world_def path_defs)
  then have w0: "epoch_ok wnodes wconnected ''/p'' ?w" "snapshot_epoch wnodes ''/p'' ?w = Some 2" "2 \<le> epoch_version wnodes ''/p'' ?w"
    by (simp_all add: epoch_ok_def epoch_version_def snapshot_epoch_def ex_node_def)
  have chain: "\<forall>w \<in> set (dr_snapshots ex_demo).
      (service_step tree_client ''/p'')\<^sup>*\<^sup>* ?w w \<and> (service_step tree_client ''/p'')\<^sup>*\<^sup>* w (dr_write ex_demo)"
    by (simp add: ex_demo_def)
  have first: "wait_for_leader tree_client ''/p'' [11, 12, 13] [] (dr_first ex_demo) = Inr (Some ?A)" by code_simp
  have second: "wait_for_leader tree_client ''/p'' [11, 12, 13] (identity_text ?A) (dr_second ex_demo) = Inr (Some ?B)" by code_simp
  have epochs: "marker_item ?A ''epoch'' = Inr (JInt 1)" "marker_item ?B ''epoch'' = Inr (JInt 2)"
    by (simp_all add: marker_item_def leader_payload_def)
  from failover_verdicts_sound [OF ref_tree.zookeeper_axioms w0 chain first epochs(1) second epochs(2) _ ex_demo_shown]
    ex_demo_shown show ?thesis by auto
qed

definition ex_lost :: "tree_world demo_run" where
  "ex_lost = ex_demo\<lparr>dr_second := []\<rparr>"

theorem frozen_leader_is_continued_witness:
  "\<exists>us xs ys. failover_events tree_client ''/p'' (\<lambda>_. True) (\<lambda>_. True) [11, 12, 13] ex_lost
     = us @ SigStop 11 # xs @ SigCont 11 # ys"
proof -
  have "SigStop 11 \<in> set (failover_events tree_client ''/p'' (\<lambda>_. True) (\<lambda>_. True) [11, 12, 13] ex_lost)" by code_simp
  then obtain us vs where
    "failover_events tree_client ''/p'' (\<lambda>_. True) (\<lambda>_. True) [11, 12, 13] ex_lost = us @ SigStop 11 # vs"
    by (meson split_list)
  with frozen_leader_is_continued [OF this] show ?thesis by auto
qed

end
