(* ===== verification/History.thy ===== *)
theory History
  imports Api Consumer
begin

text \<open>
  Reading events back: the queries of \<open>cassandra_store.py\<close>, with the locale \<open>events_table\<close> of what
  the table's schema makes Cassandra answer them, and the way of an event from Kafka to its user's
  history.
\<close>

section \<open>Queries\<close>

definition TABLE :: string where "TABLE = ''pageviews''"

datatype cql_value = CText string | CInt int

datatype cql_row = EventRow event_row | TotalRow int

text \<open>
  A driver session: a statement with its bound values and the request's timeout, none for the
  driver's own; no result is an exception. The queries change nothing.
\<close>

type_synonym 'w cql_execute = "'w \<Rightarrow> string \<Rightarrow> cql_value list \<Rightarrow> rat option \<Rightarrow> cql_row list option"

definition prepare_insert :: string where
  "prepare_insert = ''INSERT INTO '' @ TABLE @ '' (user_id, event_time, event_id, page) VALUES (?, ?, ?, ?)''"

definition history_statement :: string where
  "history_statement = ''SELECT event_time, event_id, page, writetime(page) AS written_at FROM '' @ TABLE
     @ '' WHERE user_id = %s LIMIT %s''"

definition count_statement :: string where
  "count_statement = ''SELECT COUNT(*) AS total FROM '' @ TABLE"

definition user_history :: "'w cql_execute \<Rightarrow> string \<Rightarrow> nat \<Rightarrow> rat option \<Rightarrow> 'w \<Rightarrow> cql_row list option" where
  "user_history execute u most timeout w = execute w history_statement [CText u, CInt (int most)] timeout"

text \<open>\<open>one()\<close> is the first row, and \<open>None\<close> without one, which has no \<open>total\<close>.\<close>

definition row_count :: "'w cql_execute \<Rightarrow> 'w \<Rightarrow> int option" where
  "row_count execute w =
     (case execute w count_statement [] None of Some (TotalRow n # rest) \<Rightarrow> Some n | _ \<Rightarrow> None)"

section \<open>What the schema promises\<close>

text \<open>
  \<open>CLUSTERING ORDER BY (event_time DESC, event_id ASC)\<close> within a user's partition. A key's time is
  the timestamp as Cassandra stores it, in milliseconds, so events of one millisecond are in the
  order of their ids; the driver gives the time back as a naive date.
\<close>

type_synonym events = "row_key \<Rightarrow> string option"

definition clustering :: "events \<Rightarrow> string \<Rightarrow> (int \<times> string) set" where
  "clustering tab u = {(- t, i) |t i. tab (u, t, i) \<noteq> None}"

definition row_at :: "events \<Rightarrow> (row_key \<Rightarrow> int) \<Rightarrow> string \<Rightarrow> int \<times> string \<Rightarrow> event_row" where
  "row_at tab written u x =
     (case x of (d, i) \<Rightarrow>
        \<lparr>row_time = Naive (- d * 1000), row_event = i, row_page = the (tab (u, - d, i)), row_written = written (u, - d, i)\<rparr>)"

definition partition_rows :: "events \<Rightarrow> (row_key \<Rightarrow> int) \<Rightarrow> string \<Rightarrow> event_row list" where
  "partition_rows tab written u = map (row_at tab written u) (sorted_list_of_set (clustering tab u))"

lemma finite_clustering: "finite (dom tab) \<Longrightarrow> finite (clustering tab u)"
proof -
  have "clustering tab u \<subseteq> (\<lambda>(v, t, i). (- t, i)) ` dom tab" by (force simp: clustering_def)
  then show "finite (dom tab) \<Longrightarrow> ?thesis" by (meson finite_imageI finite_subset)
qed

text \<open>Newest first, and by event id within a millisecond.\<close>

definition newest_first :: "int \<times> string \<Rightarrow> int \<times> string \<Rightarrow> bool" where
  "newest_first x y \<longleftrightarrow> fst y < fst x \<or> fst y = fst x \<and> snd x < snd y"

lemma sorted_take_newest:
  fixes xs :: "(int \<times> string) list"
  assumes "sorted_wrt (<) xs"
  shows "sorted_wrt newest_first (map (\<lambda>(d, i). (- d, i)) (take n xs))"
proof -
  have "sorted_wrt (<) (take n xs)" using assms by (rule sorted_wrt_take)
  then show ?thesis unfolding sorted_wrt_map
    by (rule sorted_wrt_mono_rel [rotated]) (auto simp: less_prod_def newest_first_def)
qed

locale events_table =
  fixes execute :: "'w cql_execute" and table :: "'w \<Rightarrow> events" and written :: "'w \<Rightarrow> row_key \<Rightarrow> int"
  assumes history_law: "0 < n \<Longrightarrow> execute w history_statement [CText u, CInt n] timeout = Some rows \<Longrightarrow>
      rows = map EventRow (take (nat n) (partition_rows (table w) (written w) u))"
    and count_law: "execute w count_statement [] t2 = Some rows2 \<Longrightarrow> rows2 = [TotalRow (int (card (dom (table w))))]"
begin

lemma history_rows:
  assumes "user_history execute u most timeout w = Some rows" and "0 < most"
  shows "rows = map EventRow (map (row_at (table w) (written w) u) (take most (sorted_list_of_set (clustering (table w) u))))"
  using history_law [of "int most" w u timeout rows] assms by (simp add: user_history_def partition_rows_def take_map)

lemma history_has_row:
  assumes "user_history execute u most timeout w = Some rows" and "table w (u, t, i) = Some pg"
    and "card {y \<in> clustering (table w) u. y < (- t, i)} < most" and "finite (dom (table w))"
  shows "EventRow \<lparr>row_time = Naive (t * 1000), row_event = i, row_page = pg, row_written = written w (u, t, i)\<rparr> \<in> set rows"
proof -
  have "(- t, i) \<in> set (take most (sorted_list_of_set (clustering (table w) u)))"
  proof (rule take_sorted_member [OF finite_clustering [OF assms(4)] _ assms(3)])
    show "(- t, i) \<in> clustering (table w) u" using assms(2) unfolding clustering_def by blast
  qed
  then have "EventRow (row_at (table w) (written w) u (- t, i)) \<in> set rows"
    using history_rows [OF assms(1)] assms(3) by auto
  then show ?thesis using assms(2) by (simp add: row_at_def)
qed

end

section \<open>Through the API\<close>

definition event_rows :: "cql_row list option \<Rightarrow> event_row list" where
  "event_rows rows = (case rows of None \<Rightarrow> [] | Some rs \<Rightarrow> List.map_filter (\<lambda>r. case r of EventRow x \<Rightarrow> Some x | TotalRow _ \<Rightarrow> None) rs)"

lemma event_rows_EventRow [simp]: "event_rows (Some (map EventRow xs)) = xs"
  by (simp add: event_rows_def List.map_filter_def comp_def)

lemma events_route_answers:
  assumes "events_route history ad u most = Answer es" and "ad_fault ad = None"
  shows "0 < most \<and> map event_response (history u most) = map Some es"
  using assms by (auto simp: events_route_def respond_def run_store_def run_read_def store_outcome_def
      split: if_splits run_result.splits bulk_error.splits sum.splits option.splits)

lemma event_responses_keys:
  "map event_response (map (row_at tab written u) xs) = map Some es
    \<Longrightarrow> map (\<lambda>(d, i, _). (d, i)) es = map (\<lambda>(t, i). (Aware (t * 1000) 0, i)) (map (\<lambda>(d, i). (- d, i)) xs)"
  by (induction xs arbitrary: es) (auto simp: event_response_def as_utc_def row_at_def Cons_eq_map_conv split: prod.splits)

section \<open>A reference session\<close>

definition ref_execute :: "ref_stores cql_execute" where
  "ref_execute w statement vals timeout =
     (if statement = history_statement
      then (case vals of
          [CText u, CInt n] \<Rightarrow> if 0 < n then Some (map EventRow (take (nat n) (partition_rows (ref_table w) (\<lambda>_. 0) u))) else None
        | _ \<Rightarrow> None)
      else if statement = count_statement \<and> vals = [] then Some [TotalRow (int (card (dom (ref_table w))))]
      else None)"

interpretation ref_events: events_table ref_execute ref_table "\<lambda>w k. 0"
proof unfold_locales
  have "history_statement \<noteq> count_statement" by (simp add: history_statement_def count_statement_def)
  then show "ref_execute w count_statement [] t2 = Some rows2 \<Longrightarrow> rows2 = [TotalRow (int (card (dom (ref_table w))))]" for w t2 rows2
    by (simp add: ref_execute_def split: if_splits)
qed (simp add: ref_execute_def)

section \<open>Properties\<close>

text \<open>
  C10: From Kafka to the API's answer: once the offset of an event is committed, the events the API
  answers for its user, over any lives and crashes of the consumers before, include it with its
  page and its time to the millisecond, provided fewer than the limit come before it in the table's
  order. They are at most the limit, newest first, and within one millisecond in the order of
  their event ids.
\<close>

theorem committed_event_is_served:
  assumes "event_stores rd db now cass table rb published pub" and "one_page_per_key kafka_log"
    and "settled table published kafka_log (committed c) (cworld c)"
    and "c' = run_lives (all_services rd cass rb pub) pre qname notify commit_every kafka_log lives c"
    and "events_table execute table written" and "finite (dom (table (cworld c')))"
    and "i < committed c' p" and "e = kafka_log p ! i" and "t = millis_of (event_micros e)"
    and "user_history execute (user_id e) most timeout (cworld c') = Some rows"
    and "card {y \<in> clustering (table (cworld c')) (user_id e). y < (- t, event_id e)} < most"
    and "events_route (\<lambda>u n. event_rows (user_history execute u n timeout (cworld c'))) ad (user_id e) most = Answer es"
    and "ad_fault ad = None"
  shows "(\<exists>since. (Aware (t * 1000) 0, event_id e, page e, since) \<in> set es) \<and> length es \<le> most
    \<and> (\<exists>ks. map (\<lambda>(d, i, _). (d, i)) es = map (\<lambda>(t, i). (Aware (t * 1000) 0, i)) ks \<and> sorted_wrt newest_first ks)"
proof -
  let ?tab = "table (cworld c')" and ?u = "user_id e"
  let ?rs = "map (row_at ?tab (written (cworld c')) ?u) (take most (sorted_list_of_set (clustering ?tab ?u)))"
  have most: "0 < most" and answer: "map event_response (event_rows (Some rows)) = map Some es"
    using events_route_answers [OF assms(12,13)] assms(10) by simp_all
  note rows = events_table.history_rows [OF assms(5,10) most]
  have es: "map event_response ?rs = map Some es" using answer unfolding rows event_rows_EventRow .
  have "settled table published kafka_log (committed c') (cworld c')" using run_lives_settled [OF assms(1-4)] by blast
  then have "?tab (row_key_of e) = Some (page e)" using assms(7,8) by (auto simp: settled_def applied_def)
  then have "?tab (?u, t, event_id e) = Some (page e)" using assms(9) by (simp add: row_key_of_def)
  from events_table.history_has_row [OF assms(5,10) this assms(11,6)]
  have "\<lparr>row_time = Naive (t * 1000), row_event = event_id e, row_page = page e,
      row_written = written (cworld c') (?u, t, event_id e)\<rparr> \<in> set ?rs" (is "?r \<in> _") by (auto simp: rows)
  then have "event_response ?r \<in> set (map Some es)" unfolding es [symmetric] by (metis imageI list.set_map)
  then have "\<exists>since. (Aware (t * 1000) 0, event_id e, page e, since) \<in> set es"
    by (auto simp: event_response_def as_utc_def split: option.splits)
  moreover have "length es \<le> most" using arg_cong [OF es, of length] by simp
  moreover note event_responses_keys [OF es]
  ultimately show ?thesis using sorted_take_newest [of "sorted_list_of_set (clustering ?tab ?u)" most] by (auto intro!: exI)
qed

section \<open>Witness\<close>

definition ex_life :: "ref_stores cstate" where
  "ex_life = run_lives (all_services ref_redis ref_cassandra ref_rabbit ref_pub) [] ''q'' True 1 ex_log
     [\<lparr>life_messages = [(0, Done, Done)], life_crash = None\<rparr>] ex_cstate"

definition ex_ad :: "event_row list admitted" where
  "ex_ad = \<lparr>ad_connected = None, ad_gate = new_bulkhead 1, ad_budget = new_budget 0 2 None, ad_finished = 1,
     ad_fault = None, ad_failing = False\<rparr>"

lemma ex_life_state: "committed ex_life 0 = 1" "ref_table (cworld ex_life) = [row_key_of ex_event \<mapsto> page ex_event]"
  by (simp_all add: ex_life_def ex_cstate_def start_life_def ex_log_def ex_stores_def ex_handle_simps crash_due_def
      commit_due_def commit_def advance_def row_key_of_def)

lemma ex_life_clustering: "clustering (ref_table (cworld ex_life)) (user_id ex_event) = {(- 1700000000000, event_id ex_event)}"
  by (auto simp: clustering_def ex_life_state row_key_of_def millis_of_def split: if_splits)

definition ex_row :: event_row where
  "ex_row = \<lparr>row_time = Naive 1700000000000000, row_event = event_id ex_event, row_page = page ex_event, row_written = 0\<rparr>"

lemma ex_life_history: "user_history ref_execute (user_id ex_event) 20 (Some 1) (cworld ex_life) = Some [EventRow ex_row]"
  by (simp add: user_history_def ref_execute_def partition_rows_def ex_life_clustering)
    (simp add: row_at_def ex_life_state row_key_of_def millis_of_def ex_row_def)

lemma ex_life_served:
  "\<exists>es. events_route (\<lambda>u n. event_rows (user_history ref_execute u n (Some 1) (cworld ex_life))) ex_ad (user_id ex_event) 20 = Answer es"
proof -
  have "\<exists>x. remaining (ad_budget ex_ad) (ad_finished ex_ad) = Inr x"
    by (simp add: ex_ad_def remaining_def new_budget_def)
  moreover have "event_rows (user_history ref_execute (user_id ex_event) 20 (Some 1) (cworld ex_life)) = [ex_row]"
    using event_rows_EventRow [of "[ex_row]"] by (simp add: ex_life_history)
  moreover have "text_between USER_ID_MAX_LENGTH (user_id ex_event)"
    by (simp add: text_between_def USER_ID_MAX_LENGTH_def ex_event_def)
  moreover have "\<exists>x. event_response ex_row = Some x"
    by (simp add: event_response_def from_microseconds_def FIRST_MICROSECOND_def LAST_MICROSECOND_def ex_row_def)
  moreover have "ad_connected ex_ad = None" "gate (ad_gate ex_ad) \<noteq> 0" "ad_fault ex_ad = None"
    by (simp_all add: ex_ad_def new_bulkhead_def)
  ultimately show ?thesis
    by (auto simp: events_route_def EVENTS_LIMIT_MAX_def run_store_def run_read_def store_outcome_def respond_def)
qed

theorem committed_event_is_served_witness:
  "\<exists>es since. events_route (\<lambda>u n. event_rows (user_history ref_execute u n (Some 1) (cworld ex_life))) ex_ad (user_id ex_event) 20
      = Answer es \<and> (Aware 1700000000000000 0, event_id ex_event, page ex_event, since) \<in> set es"
proof -
  obtain es where es: "events_route (\<lambda>u n. event_rows (user_history ref_execute u n (Some 1) (cworld ex_life))) ex_ad (user_id ex_event) 20
      = Answer es" using ex_life_served by blast
  have start: "settled ref_table ref_published ex_log (committed ex_cstate) (cworld ex_cstate)"
    by (simp add: settled_def ex_cstate_def)
  have few: "card {y \<in> clustering (ref_table (cworld ex_life)) (user_id ex_event). y < (- 1700000000000, event_id ex_event)} < 20"
    by (simp add: ex_life_clustering conj_commute cong: conj_cong)
  have "ex_event = ex_log 0 ! 0" "ad_fault ex_ad = None" "finite (dom (ref_table (cworld ex_life)))" "0 < committed ex_life 0"
    by (simp_all add: ex_log_def ex_ad_def ex_life_state)
  moreover have "1700000000000 = millis_of (event_micros ex_event)" by (simp add: millis_of_def)
  ultimately have "\<exists>since. (Aware (1700000000000 * 1000) 0, event_id ex_event, page ex_event, since) \<in> set es"
    using committed_event_is_served [OF ref_all.event_stores_axioms ex_log_pages start ex_life_def ref_events.events_table_axioms
      _ _ _ _ ex_life_history few es] by blast
  with es show ?thesis by simp
qed

end
