(* ===== verification/Spec2Isabelle.thy ===== *)
theory Spec2Isabelle
  imports Keeper_Loop Fanout Bridge Presence Election Flink_Sql Windows_View Topics Topology Workers
    Api_Models Config Cluster_View Failover Clients History
begin

text \<open>
  A verification development for the data pipeline under \<open>src/src/pipeline\<close>: page views go
  through Kafka into Redis, Cassandra and RabbitMQ; a Flink job counts them by window and a writer
  keeps its results in Redis; coordinators elect a leader through ZooKeeper, whose keeper keeps the
  Flink job in existence; an HTTP API reads the stores and relays notifications to browsers.

  \<^bold>\<open>The parts and the theories that model them.\<close>

  \<^item> \<open>Pipeline_Prelude\<close>: Python's values (decimal text, dictionaries as association lists, JSON
    documents) and the lemmas the components share.
  \<^item> \<open>Keeper_Decision\<close>: \<open>job_keeper.py\<close> up to \<open>decide\<close>, the pure decision over the record, the
    listing and the memory. \<open>Keeper_Loop\<close>: the rest of it, one cycle with its checks, fenced
    writes and submission, and the loop around it.
  \<^item> \<open>Zookeeper\<close>: the service as a record of calls with the locale \<open>zookeeper\<close> of its documented
    laws, extended by \<open>zookeeper_answers\<close> for transactions, and a reference tree. \<open>Coordination\<close>: \<open>coordination.py\<close>, paths, epoch, fenced writes,
    the leader's marker, registrations and \<open>Leadership\<close>. \<open>Presence\<close> and \<open>Live_Config\<close>: its two
    classes with threads, as interleavings of their atomic pieces, with \<open>runtime_config.py\<close>.
    \<open>Coordinator\<close>: \<open>coordinator.py\<close>, the snapshot and a leader's tenure, and \<open>kafka_offsets.py\<close>.
    \<open>Election\<close>: its loop, in which a coordinator contends, leads and contends again.
  \<^item> \<open>Flink_Job\<close> and \<open>Flink_Sql\<close>: \<open>flink_job.py\<close>, the job's settings and the text of its SQL
    statements, and the driver that submits them. \<open>Flink_Cluster\<close>: \<open>flink_cluster.py\<close>, submission, requests and metrics.
  \<^item> \<open>Redis\<close>: Redis as a record of commands with the locale \<open>redis_server\<close>, and a reference
    keyspace. \<open>Iso_Time\<close>: the timestamps of windows. \<open>Windows\<close>: \<open>windows_writer.py\<close> with its Lua
    script, and the raw view of \<open>windows.py\<close>. \<open>Topic_Read\<close>: the read of the topic behind that
    view, over Kafka's consumer with the locale \<open>topic_reader\<close>. \<open>Windows_Loop\<close>: the writer's loop over
    Kafka and Redis together, over any lives of the process, with the locales \<open>group_reader\<close>, which
    extends the reader's, and \<open>windows_run\<close>, which joins it with Redis's. \<open>Windows_View\<close>: the command
    \<open>windows\<close>.
  \<^item> \<open>Stores\<close>: \<open>redis_store.py\<close>, \<open>cassandra_store.py\<close> and \<open>jobs_queue.py\<close>, with the locale
    \<open>event_stores\<close> extending Redis's. \<open>Notifications\<close>: \<open>notifications.py\<close> and the writer's hints.
    \<open>Consumer\<close>: \<open>kafka_consumer.py\<close>, a worker's job, \<open>producer.py\<close>. \<open>Workers\<close>: \<open>worker.py\<close>'s
    callback among competing workers, over RabbitMQ with the locale \<open>work_queue\<close>. \<open>History\<close>: the
    queries of the events table, with the locale \<open>events_table\<close> of what its schema promises.
  \<^item> \<open>Bulkhead\<close>: \<open>bulkhead.py\<close>, admission and permits. \<open>Fanout\<close>: \<open>fanout.py\<close> and the WebSocket
    route. \<open>Bridge\<close>: \<open>bridge.py\<close>, the subscription. \<open>Api\<close>: the reads and routes of \<open>api.py\<close>.
    \<open>Api_Models\<close>: its response models, the documents built for them, its bulkheads and the route
    \<open>/cluster\<close>, with the locale \<open>pydantic\<close> of the documented acceptance.
  \<^item> \<open>Topics\<close>: the retried connections and the topics of \<open>__init__.py\<close> and \<open>topics.py\<close>, with the
    locale \<open>topic_admin\<close>. \<open>Clients\<close>: connecting to Redis, Cassandra, ZooKeeper and RabbitMQ, with the
    locale \<open>clean_attempt\<close> of what the retries rely on. \<open>Lifecycle\<close>: the \<open>main\<close> of each process as an
    \<open>ExitStack\<close>, and the API's lifespan. \<open>Config\<close>: \<open>config.py\<close>, every constant of the environment, and
    the way of the Flink settings from there to the job. \<open>Topology\<close>: \<open>topology_runner.py\<close>, the process groups below honcho and
    the verified stop. \<open>Failover\<close>: \<open>failover_demo.py\<close>, every verdict of the demonstration and the block
    around it. \<open>Views\<close>: the commands \<open>flink-job\<close>, \<open>cluster\<close>, \<open>counters\<close>, \<open>jobs\<close>, \<open>events\<close> and
    \<open>create-schema\<close>, with what they print as values. \<open>Cluster_View\<close>: the status of \<open>cluster\<close> and the
    connections the commands make.

  \<^bold>\<open>State, effects and errors.\<close> A class is a record with its attributes, a method a definition
  that returns the record it leaves. An exception is a value: the left of a sum, \<open>None\<close>, or a
  constructor of the component's own result type. Code that is not in the repository (ZooKeeper
  and kazoo, Redis, Cassandra, RabbitMQ, Kafka, Flink, docker, asyncio's timeouts) is a parameter;
  what is relied on of it is the law of a locale (\<open>docker_exec\<close> for docker's), and every locale is
  interpreted on a reference implementation. Threads and tasks are step relations over the code's lock sections and calls
  (\<open>bulk_step\<close>, \<open>hub_step\<close>, \<open>presence_step\<close>, \<open>watch_step\<close>, \<open>service_step\<close>, \<open>pool_step\<close>), or a sequential
  function that lets arbitrary interference act before every look at shared state (\<open>cycle\<close>,
  \<open>lead\<close>).

  \<^bold>\<open>What the lemmas show.\<close>

  \<^item> The keeper: a job is cancelled or replaced only on evidence, an intent is recorded before its
    submission by a write fenced by the epoch and the record's version, an attempt is forgotten only
    when accounted for, and every call follows a check.
  \<^item> Coordination: tokens are fresh and claiming one ends, writes under an old token are refused,
    snapshots never move back, a tenure keeps its protocol on every way out and ends as its last
    look or write calls for, the tenures of a process never share a token and it contends again
    until it is told to stop, is interrupted or something raises; registrations are truthful and repair themselves while their thread lives, settings follow the znode.
  \<^item> The data path: committed events are applied, over any number of lives; a replay counts again in
    Redis and changes nothing in Cassandra; no job is lost among workers, and a committed event has
    been executed once the queue is drained (the root theory joins the two halves) and is among what
    the API answers for its user, with its time to the millisecond, as Cassandra stores it.
  \<^item> Windows: the script refines the abstract window that keeps its newest generation whole;
    retried batches converge, and so does the writer's loop over failures, rewinds and restarts,
    whose results from beyond a position are absorbed when they are written again; what the command
    \<open>windows\<close> prints after a complete read is what the writer left in Redis; the writer keeps what the
    API's reader needs, and the API serves exactly the newest windows, each whole; a complete read of the topic is all of it
    up to the end it had.
  \<^item> The API: store calls are capped, a slot is taken exactly while its request is in use and never
    returned twice, sockets get
    consecutive messages or are evicted, the bridge says the truth about its gaps and relays only
    parsed notifications; what the leader, the keeper and the registrations write validates against
    the models of \<open>/cluster\<close>.
  \<^item> Life of a process: a failed connection attempt leaves nothing open, wherever start-up stops
    each process releases what its table says it opened, once and in reverse, and the API's clients are closed once
    whichever block owns them.
  \<^item> Around it: settings cannot change what an SQL statement says, created topics have a partition
    for every username, and a stop called complete leaves nothing the topology started, and is never one whose
    snapshot failed; the Flink
    job runs with what the coordinator's environment says; a published delay is taken by every
    worker; the status accounts for every job; the failover demonstration never reports an accepted
    stale write and never leaves a process frozen.

  \<^bold>\<open>Bounds and fuel.\<close> Loops of the code that may run for ever take a list of what happens in each
  iteration (the turns of the bridge's pump and of a tenure, the rounds of an election, the polls of
  the windows writer, the messages of a consumer's life, the finite interference a claim meets); an exhausted list is an outcome of its own, and theorems hold for
  every length. \<open>claim_epoch_returns\<close> shows that claiming an epoch ends one iteration after the
  interference does, so that outcome does not occur; \<open>topology_groups_are_descendants\<close> that the walk
  over the process table needs no more fuel than the table has entries. Deadlines are the number of times a
  loop finds the clock before them. Recursions over data end by measure.

  \<^bold>\<open>Not modelled.\<close> Rounding of Python's floats, except as a parameter in \<open>get_partition\<close> and in
  \<open>event_timestamp\<close>, which rounds to microseconds; text of
  JSON between writing and reading; log lines; argument parsing and the layout of printed lines; the
  options given to client libraries; inside kazoo's election, which runs \<open>lead\<close> when it has the lock;
  rebalancing among several members of the writer's group; the smoke test, which drives running
  services. What Flink makes of the SQL is Flink's: that its sink writes the records of \<open>sink_value\<close>
  is a hypothesis of the property that needs it.
\<close>

section \<open>The raw view and Redis\<close>

text \<open>
  For every window it shows, the raw view prints exactly what Redis holds: the window's
  generation and, page by page, its views. The view and the writer read the same partitions, each
  in order, but may interleave them differently; the sink's key puts a page on one partition, and
  the writer starts from a window Redis does not have and writes before retention ends.
\<close>

theorem raw_view_shows_redis:
  assumes "redis_server rd db now" and "windows_ok (db w) pre" and "window_of (db w) pre s = (- 1, Map.empty)"
    and "\<forall>p. list_all2 shows_result (of_partition p seen) (of_partition p written)"
    and "\<forall>(p, r) \<in> set written. p = part (win_page r)"
    and "\<forall>r \<in> snd ` set written. now w < win_end r + retention \<and> t < win_end r + retention"
    and "\<forall>r \<in> snd ` set seen. 0 \<le> raw_generation r"
    and "run_scripts rd pre retention t None (map snd written) w = (out, w')"
    and "iso s = Some start" and "start \<in> set (last_starts n (map snd seen))"
  shows "(\<exists>r \<in> set (latest n (map snd seen)). raw_start r = start \<and> raw_page r = pg \<and> raw_views r = v
        \<and> raw_generation r = fst (window_of (db w') pre s))
    \<longleftrightarrow> snd (window_of (db w') pre s) pg = Some v"
proof -
  obtain k where "length (map snd written) \<le> k" "window_of (db w') pre s
      = window_fold (live_entries retention t s (take k (map snd written))) (window_of (db w) pre s)"
    using redis_server.run_scripts_refines [OF assms(1,2) _ assms(8)] assms(6) by auto
  moreover have "\<forall>r \<in> snd ` set written. t < win_end r + retention" using assms(6) by blast
  ultimately have "window_fold (raw_entries start (map snd seen)) (- 1, Map.empty) = window_of (db w') pre s"
    using interleavings_agree [OF assms(4,5) _ assms(9)] assms(3) by simp
  then show ?thesis
    using latest_shows_fold [OF _ assms(10)] assms(7) by (cases "window_of (db w') pre s") simp
qed

definition ex_written :: "(tp \<times> window_result) list" where
  "ex_written =
     [(0, \<lparr>win_start = 90, win_end = 100, win_page = ''/a'', win_views = 3, win_generation = 1\<rparr>),
      (1, \<lparr>win_start = 90, win_end = 100, win_page = ''/b'', win_views = 5, win_generation = 2\<rparr>)]"

definition ex_seen :: "(tp \<times> raw_result) list" where
  "ex_seen =
     [(1, \<lparr>raw_start = the (iso 90), raw_page = ''/b'', raw_views = 5, raw_generation = 2\<rparr>),
      (0, \<lparr>raw_start = the (iso 90), raw_page = ''/a'', raw_views = 3, raw_generation = 1\<rparr>)]"

lemma ex_seen_start: "iso 90 = Some (the (iso 90))" "the (iso 90) \<in> set (last_starts 5 (map snd ex_seen))"
proof -
  show "iso 90 = Some (the (iso 90))" using iso_defined [of 90] by auto
  show "the (iso 90) \<in> set (last_starts 5 (map snd ex_seen))"
    by (simp add: last_starts_def by_key_def newest_by_start_def ex_seen_def)
qed

theorem raw_view_shows_redis_witness:
  "\<exists>out w'. run_scripts ref_redis [] 60 100 None (map snd ex_written) ex_keyspace = (out, w')
     \<and> ((\<exists>r \<in> set (latest 5 (map snd ex_seen)). raw_start r = the (iso 90) \<and> raw_page r = ''/b'' \<and> raw_views r = 5
            \<and> raw_generation r = fst (window_of (ref_db w') [] 90))
        \<longleftrightarrow> snd (window_of (ref_db w') [] 90) ''/b'' = Some 5)"
proof -
  obtain out w' where run: "run_scripts ref_redis [] 60 100 None (map snd ex_written) ex_keyspace = (out, w')" by fastforce
  have same: "\<forall>p. list_all2 shows_result (of_partition p ex_seen) (of_partition p ex_written)"
    using ex_seen_start(1) by (simp add: of_partition_def ex_seen_def ex_written_def shows_result_def)
  have laws: "\<forall>(p, r) \<in> set ex_written. p = (if win_page r = ''/a'' then 0 else 1)"
    "\<forall>r \<in> snd ` set ex_written. ref_now ex_keyspace < win_end r + 60 \<and> 100 < win_end r + 60"
    "\<forall>r \<in> snd ` set ex_seen. 0 \<le> raw_generation r"
    by (simp_all add: ex_written_def ex_seen_def ex_keyspace_def)
  show ?thesis
    by (intro exI conjI) (rule run, rule raw_view_shows_redis [OF ref_server.redis_server_axioms ex_keyspace_ok ex_window
          same laws run ex_seen_start])
qed

section \<open>From Kafka to a worker\<close>

text \<open>
  C7: end to end at least once. When every job the consumers published has reached the queue, and
  the queue has been drained, with nothing waiting and nothing unacknowledged, every event below a
  committed Kafka offset has been executed: \<open>job_runs\<close> counts at least one run of it, whatever
  consumers and workers failed or crashed on the way.
\<close>

theorem committed_event_is_executed:
  assumes "event_stores rd db now cass table rb published pub" and "one_page_per_key kafka_log"
    and "settled table published kafka_log (committed c) (cworld c)"
    and "c' = run_lives (all_services rd cass rb pub) pre qname notify commit_every kafka_log lives c"
    and "job_pool wrd wdb wnow br queued unacked" and "fresh_pool wdb queued unacked wpre s"
    and "\<forall>f \<in> others. \<forall>w. wdb (f w) (jobs_runs_key wpre) = wdb w (jobs_runs_key wpre)"
    and "(pool_step wrd br wpre others)\<^sup>*\<^sup>* s s'"
    and "set (published (cworld c')) \<subseteq> set_mset (pool_published s')"
    and "queued (pool_queue s') = {#}" and "unacked (pool_queue s') = {#}" and "i < committed c' p"
  shows "\<exists>runs n. job_runs wrd wpre (pool_world s') = Some runs
    \<and> map_of runs (event_id (kafka_log p ! i)) = Some n \<and> 1 \<le> n"
proof -
  let ?e = "kafka_log p ! i"
  have "settled table published kafka_log (committed c') (cworld c')" using run_lives_settled [OF assms(1-4)] by blast
  with assms(12) have "job_body ?e \<in> set (published (cworld c'))" by (auto simp: settled_def applied_def)
  then have "job_body ?e \<in># pool_acked s'"
    using pool_conserved [OF assms(5-8)] assms(9-11) by auto
  then have "1 \<le> int (of_event (event_id ?e) (pool_acked s'))" by (auto dest: multi_member_split)
  with pool_counted [OF assms(5-8)] show ?thesis by (force split: option.splits)
qed

definition ex_lives :: "ref_stores cstate" where
  "ex_lives = run_lives (all_services ref_redis ref_cassandra ref_rabbit ref_pub) [] ''q'' True 1 ex_log
     [\<lparr>life_messages = [(0, Done, Done), (0, Done, RaisedAfter)], life_crash = None\<rparr>] ex_cstate"

theorem committed_event_is_executed_witness:
  "\<exists>runs n. job_runs ref_redis [] (pool_world ex_drained) = Some runs
     \<and> map_of runs (event_id (ex_log 0 ! 0)) = Some n \<and> 1 \<le> n"
proof (rule committed_event_is_executed [OF ref_all.event_stores_axioms ex_log_pages _ ex_lives_def
      ref_pool.job_pool_axioms ex_pool_fresh _ ex_drained_reached])
  show "settled ref_table ref_published ex_log (committed ex_cstate) (cworld ex_cstate)"
    by (simp add: settled_def ex_cstate_def)
  show "set (ref_published (cworld ex_lives)) \<subseteq> set_mset (pool_published ex_drained)" "0 < committed ex_lives 0"
    by (simp_all add: ex_lives_def ex_drained_state ex_cstate_def start_life_def ex_log_def ex_stores_def ex_handle_simps
        crash_due_def commit_due_def commit_def advance_def)
qed (simp_all add: ex_drained_state)

end
